(* ===== verification/Prelude.thy ===== *)
theory Prelude
  imports Main "HOL-Library.AList" "HOL-Library.Word"
begin

text \<open>
  What the component theories share: the development's collections of simplification
  rules, the C++ integer conversions the sources use (\<open>static_cast<int>\<close> and unsigned
  32-bit arithmetic), \<open>std::to_string\<close>, and facts on association lists, which stand for
  \<open>std::unordered_map\<close> (their order is the unspecified iteration order of the container,
  so that a theorem for every list is a theorem for every iteration order).
\<close>

named_theorems store_simps \<open>unfolding rules of the result store\<close>
named_theorems net_simps \<open>unfolding rules of the network components\<close>
named_theorems os_simps \<open>unfolding rules of the child-process components\<close>

section \<open>Fixed-width integers\<close>

text \<open>
  \<open>int\<close> is 32 bits wide and two's complement; \<open>wrap32\<close> is the conversion of a wider value
  to it. The increment of a counter at its maximum is undefined in C++; where the sources
  increment a plain \<open>int\<close> the model wraps, as the compiled code does.
\<close>

definition wrap32 :: "int \<Rightarrow> int" where
  "wrap32 x = signed_take_bit 31 x"

definition uwrap32 :: "int \<Rightarrow> int" where
  "uwrap32 x = x mod 2 ^ 32"

definition int32_max :: int where
  "int32_max = 2147483647"

lemma wrap32_id: "- 2147483648 \<le> x \<Longrightarrow> x \<le> 2147483647 \<Longrightarrow> wrap32 x = x"
  unfolding wrap32_def by (rule signed_take_bit_int_eq_self) simp_all

lemma wrap32_range: "- 2147483648 \<le> wrap32 x \<and> wrap32 x \<le> 2147483647"
  using signed_take_bit_int_greater_eq_minus_exp [of 31 x] signed_take_bit_int_less_exp [of 31 x]
  by (simp add: wrap32_def)

lemma uwrap32_id: "0 \<le> x \<Longrightarrow> x < 4294967296 \<Longrightarrow> uwrap32 x = x"
  by (simp add: uwrap32_def)

lemma uwrap32_range: "0 \<le> uwrap32 x \<and> uwrap32 x < 4294967296"
  by (simp add: uwrap32_def)

section \<open>Association lists as unordered maps\<close>

abbreviation keys :: "('k \<times> 'v) list \<Rightarrow> 'k list" where
  "keys al \<equiv> map fst al"

abbreviation wf_alist :: "('k \<times> 'v) list \<Rightarrow> bool" where
  "wf_alist al \<equiv> distinct (keys al)"

lemma map_of_eq_None_keys: "map_of al k = None \<longleftrightarrow> k \<notin> set (keys al)"
  by (simp add: map_of_eq_None_iff)

lemma wf_alist_delete: "wf_alist al \<Longrightarrow> wf_alist (AList.delete k al)"
  by (rule distinct_delete)

lemma wf_alist_update: "wf_alist al \<Longrightarrow> wf_alist (AList.update k v al)"
  by (rule distinct_update)

lemma wf_alist_filter: "wf_alist al \<Longrightarrow> wf_alist (filter P al)"
  by (rule distinct_map_filter)

lemma map_of_filter:
  "wf_alist al \<Longrightarrow>
     map_of (filter (\<lambda>(k, v). P k v) al) k =
       (case map_of al k of None \<Rightarrow> None | Some v \<Rightarrow> if P k v then Some v else None)"
proof (induction al)
  case Nil
  then show ?case by simp
next
  case (Cons kv al)
  obtain k' v where kv: "kv = (k', v)" by (cases kv)
  from Cons.prems kv have "k' \<notin> set (keys al)" and wf: "wf_alist al" by simp_all
  then have "map_of (filter (\<lambda>(k, v). P k v) al) k' = None"
    by (auto simp: map_of_eq_None_keys)
  with Cons.IH [OF wf] kv \<open>k' \<notin> set (keys al)\<close> show ?case
    by (auto simp: map_of_eq_None_keys split: option.splits)
qed

lemma length_delete_present:
  "wf_alist al \<Longrightarrow> k \<in> set (keys al) \<Longrightarrow> Suc (length (AList.delete k al)) = length al"
proof (induction al)
  case Nil
  then show ?case by simp
next
  case (Cons kv al)
  obtain k' v where kv: "kv = (k', v)" by (cases kv)
  show ?case
  proof (cases "k' = k")
    case True
    with Cons.prems kv have "k \<notin> set (keys al)" by simp
    then have "AList.delete k al = al" by (simp add: delete_id)
    with True kv show ?thesis by simp
  next
    case False
    with Cons kv show ?thesis by simp
  qed
qed

lemma keys_delete: "set (keys (AList.delete k al)) = set (keys al) - {k}"
  by (auto simp: delete_keys)

section \<open>Decimal numbers\<close>

text \<open>\<open>std::to_string\<close>, and the digit runs that \<open>std::stoi\<close>, \<open>std::stoull\<close> and \<open>std::stoll\<close> read.\<close>

definition digit_char :: "nat \<Rightarrow> char" where
  "digit_char d = char_of (48 + d)"

definition is_digit :: "char \<Rightarrow> bool" where
  "is_digit ch \<longleftrightarrow> 48 \<le> (of_char ch :: nat) \<and> (of_char ch :: nat) \<le> 57"

definition digit_val :: "char \<Rightarrow> nat" where
  "digit_val ch = of_char ch - 48"

fun nat_to_string :: "nat \<Rightarrow> string" where
  "nat_to_string n =
     (if n < 10 then [digit_char n] else nat_to_string (n div 10) @ [digit_char (n mod 10)])"

declare nat_to_string.simps [simp del]

definition int_to_string :: "int \<Rightarrow> string" where
  "int_to_string i = (if i < 0 then CHR ''-'' # nat_to_string (nat (- i)) else nat_to_string (nat i))"

definition digits_value :: "string \<Rightarrow> nat" where
  "digits_value ds = foldl (\<lambda>acc d. acc * 10 + digit_val d) 0 ds"

lemma digit_char_facts: "d < 10 \<Longrightarrow> is_digit (digit_char d)" "d < 10 \<Longrightarrow> digit_val (digit_char d) = d"
  by (simp_all add: is_digit_def digit_char_def digit_val_def)

lemma nat_to_string_digits: "\<forall>ch \<in> set (nat_to_string n). is_digit ch"
proof (induction n rule: nat_to_string.induct)
  case (1 n)
  then show ?case by (subst nat_to_string.simps) (auto simp: digit_char_facts)
qed

lemma nat_to_string_nonempty [simp]: "nat_to_string n \<noteq> []"
  by (subst nat_to_string.simps) simp

lemma digits_value_to_string [simp]: "digits_value (nat_to_string n) = n"
proof (induction n rule: nat_to_string.induct)
  case (1 n)
  then show ?case
    by (subst nat_to_string.simps) (auto simp: digits_value_def digit_char_facts)
qed

lemma takeWhile_digits [simp]: "takeWhile is_digit (nat_to_string n) = nat_to_string n"
  using nat_to_string_digits by (simp add: takeWhile_eq_all_conv)

text \<open>\<open>strtol\<close>-style number syntax: white space, an optional sign, digits.\<close>

definition is_space :: "char \<Rightarrow> bool" where
  "is_space ch \<longleftrightarrow> ch = CHR '' '' \<or> (9 \<le> (of_char ch :: nat) \<and> (of_char ch :: nat) \<le> 13)"

fun split_sign :: "string \<Rightarrow> bool \<times> nat \<times> string" where
  "split_sign [] = (False, 0, [])"
| "split_sign (ch # rest) =
     (if ch = CHR ''-'' then (True, 1, rest) else if ch = CHR ''+'' then (False, 1, rest)
      else (False, 0, ch # rest))"

text \<open>The negative flag, the magnitude and the number of characters read; None when no digit is found.\<close>

definition scan_number :: "string \<Rightarrow> (bool \<times> nat \<times> nat) option" where
  "scan_number s =
     (let ws = length (takeWhile is_space s) in
      case split_sign (dropWhile is_space s) of
        (neg, sign_len, rest) \<Rightarrow>
          let ds = takeWhile is_digit rest in
          if ds = [] then None else Some (neg, digits_value ds, ws + sign_len + length ds))"

lemma digit_not_space_sign: "is_digit ch \<Longrightarrow> \<not> is_space ch \<and> ch \<noteq> CHR ''-'' \<and> ch \<noteq> CHR ''+'' \<and> ch \<noteq> CHR '':''"
  by (auto simp: is_digit_def is_space_def)

lemma scan_number_to_string [simp]:
  "scan_number (nat_to_string n) = Some (False, n, length (nat_to_string n))"
proof -
  obtain d ds where d: "nat_to_string n = d # ds" by (cases "nat_to_string n") auto
  then have "is_digit d" using nat_to_string_digits [of n] by simp
  then have "dropWhile is_space (nat_to_string n) = nat_to_string n" "takeWhile is_space (nat_to_string n) = []"
    "split_sign (nat_to_string n) = (False, 0, nat_to_string n)"
    using d digit_not_space_sign by auto
  then show ?thesis by (simp add: scan_number_def)
qed

text \<open>\<open>std::stoi\<close> and \<open>std::stoull\<close>: the value and the characters read, None for the exception.\<close>

definition stoi :: "string \<Rightarrow> (int \<times> nat) option" where
  "stoi s =
     (case scan_number s of
        None \<Rightarrow> None
      | Some (neg, m, pos) \<Rightarrow>
          let v = (if neg then - int m else int m) in
          if - 2147483648 \<le> v \<and> v \<le> 2147483647 then Some (v, pos) else None)"

definition stoull :: "string \<Rightarrow> (nat \<times> nat) option" where
  "stoull s =
     (case scan_number s of
        None \<Rightarrow> None
      | Some (neg, m, pos) \<Rightarrow>
          if m < 18446744073709551616
          then Some (if neg then (18446744073709551616 - m) mod 18446744073709551616 else m, pos)
          else None)"

section \<open>Lines\<close>

text \<open>
  \<open>std::getline\<close> until it fails: the pieces between newlines; the text after the last newline is a
  line only when it is not empty.
\<close>

fun getlines :: "string \<Rightarrow> string \<Rightarrow> string list" where
  "getlines cur [] = (if cur = [] then [] else [cur])"
| "getlines cur (ch # rest) =
     (if ch = CHR 0x0A then cur # getlines [] rest else getlines (cur @ [ch]) rest)"

section \<open>Canonical digit strings\<close>

text \<open>The digit strings that \<open>std::to_string\<close> prints are those without a leading zero.\<close>

lemma digits_value_snoc: "digits_value (ds @ [d]) = digits_value ds * 10 + digit_val d"
  by (simp add: digits_value_def)

lemma digit_val_less: "is_digit d \<Longrightarrow> digit_val d < 10"
  unfolding is_digit_def digit_val_def by linarith

lemma digit_char_val: "is_digit d \<Longrightarrow> digit_char (digit_val d) = d"
  by (simp add: is_digit_def digit_val_def digit_char_def)

lemma digit_char_zero: "digit_char 0 = CHR ''0''"
  by code_simp

lemma digit_val_zero_iff: "is_digit d \<Longrightarrow> digit_val d = 0 \<longleftrightarrow> d = CHR ''0''"
  using digit_char_val [of d] digit_char_zero by (auto simp: digit_val_def)

lemma digits_value_bound: "\<forall>d \<in> set ds. is_digit d \<Longrightarrow> digits_value ds < 10 ^ length ds"
proof (induction ds rule: rev_induct)
  case Nil
  then show ?case by (simp add: digits_value_def)
next
  case (snoc d ds)
  then have "digits_value ds * 10 + digit_val d < 10 ^ length ds * 10"
    using digit_val_less [of d] by auto
  then show ?case by (simp add: digits_value_snoc mult.commute)
qed

lemma digits_value_zero_iff: "\<forall>d \<in> set ds. is_digit d \<Longrightarrow> digits_value ds = 0 \<longleftrightarrow> (\<forall>d \<in> set ds. d = CHR ''0'')"
proof (induction ds rule: rev_induct)
  case Nil
  then show ?case by (simp add: digits_value_def)
next
  case (snoc d ds)
  then show ?case using digit_val_zero_iff [of d] by (auto simp: digits_value_snoc)
qed

lemma nat_to_string_value:
  assumes "\<forall>d \<in> set ds. is_digit d" "ds \<noteq> []" "hd ds \<noteq> CHR ''0''"
  shows "nat_to_string (digits_value ds) = ds"
  using assms
proof (induction ds rule: rev_induct)
  case (snoc d ds)
  show ?case
  proof (cases "ds = []")
    case True
    with snoc.prems show ?thesis
      by (subst nat_to_string.simps) (simp add: digits_value_def digit_val_less digit_char_val)
  next
    case False
    from snoc.prems have d: "is_digit d" and ds: "\<forall>d \<in> set ds. is_digit d" "hd ds \<noteq> CHR ''0''" using False by simp_all
    then have "digits_value ds \<noteq> 0" using digits_value_zero_iff [of ds] hd_in_set [OF False] by blast
    with snoc.IH [OF ds(1) False ds(2)] digit_val_less [OF d] digit_char_val [OF d] show ?thesis
      by (subst nat_to_string.simps) (simp add: digits_value_snoc)
  qed
qed simp

lemma nat_to_string_zero: "nat_to_string 0 = ''0''"
  by (subst nat_to_string.simps) (simp add: digit_char_zero)

lemma nat_to_string_hd: "n \<noteq> 0 \<Longrightarrow> hd (nat_to_string n) \<noteq> CHR ''0''"
proof (induction n rule: nat_to_string.induct)
  case (1 n)
  have "is_digit (digit_char n)" if "n < 10" using that by (rule digit_char_facts)
  with 1 show ?case
    by (subst nat_to_string.simps) (auto simp: digit_val_zero_iff [symmetric] digit_char_facts)
qed

lemma nat_to_string_inject [simp]: "nat_to_string m = nat_to_string n \<longleftrightarrow> m = n"
  by (metis digits_value_to_string)

end
