(* ===== verification/SubmissionTypes.thy ===== *)
theory SubmissionTypes
  imports Prelude
begin

text \<open>
  \<open>src/common/SubmissionTypes.h\<close> and \<open>src/dispatch/SubmissionTask.h\<close>: the enumerations and
  structures every other component shares. \<open>SubmissionStatus\<close> is ordered as the enum is
  declared, so that "a submission never moves back" is a statement about \<open>\<le>\<close>.
\<close>

datatype SubmissionStatus = QUEUED | PREPARING | COMPILING | RUNNING | FINISHED | FAILED

datatype SubmissionLanguage = CPP | C | PYTHON

datatype SubmissionVerdict =
  PENDING | AC | WA | TLE | MLE | RE | OLE | PE | CE | UNKNOWN | SYSTEM_ERROR

record SubmissionRequest =
  req_uuid :: int
  req_pid :: string
  req_language :: SubmissionLanguage
  req_code :: string

record SubmissionCaseResult =
  cr_seq_id :: int
  cr_verdict :: SubmissionVerdict
  cr_cpu_time_ms :: int
  cr_real_time_ms :: int
  cr_memory_kb :: nat
  cr_signal :: int
  cr_exit_code :: int
  cr_error_code :: int

record SubmissionResult =
  sr_submission_id :: int
  sr_status :: SubmissionStatus
  sr_verdict :: SubmissionVerdict
  sr_message :: string
  sr_case_results :: "SubmissionCaseResult list"

record SubmissionTask =
  task_submission_id :: int
  task_request :: SubmissionRequest
  task_reply_channel_id :: string

text \<open>The default member initialisers (\<open>SubmissionCaseResult{}\<close>, \<open>SubmissionResult{}\<close>).\<close>

definition default_case_result :: SubmissionCaseResult where
  "default_case_result =
     \<lparr>cr_seq_id = 0, cr_verdict = PENDING, cr_cpu_time_ms = 0, cr_real_time_ms = 0,
      cr_memory_kb = 0, cr_signal = 0, cr_exit_code = 0, cr_error_code = 0\<rparr>"

definition default_result :: SubmissionResult where
  "default_result =
     \<lparr>sr_submission_id = - 1, sr_status = QUEUED, sr_verdict = PENDING, sr_message = [],
      sr_case_results = []\<rparr>"

fun status_code :: "SubmissionStatus \<Rightarrow> nat" where
  "status_code QUEUED = 0"
| "status_code PREPARING = 1"
| "status_code COMPILING = 2"
| "status_code RUNNING = 3"
| "status_code FINISHED = 4"
| "status_code FAILED = 5"

lemma status_code_inject: "status_code s = status_code t \<Longrightarrow> s = t"
  by (cases s; cases t) simp_all

instantiation SubmissionStatus :: linorder
begin

definition less_eq_SubmissionStatus :: "SubmissionStatus \<Rightarrow> SubmissionStatus \<Rightarrow> bool" where
  "s \<le> t \<longleftrightarrow> status_code s \<le> status_code t"

definition less_SubmissionStatus :: "SubmissionStatus \<Rightarrow> SubmissionStatus \<Rightarrow> bool" where
  "s < t \<longleftrightarrow> status_code s < status_code t"

instance
  by standard
    (auto simp: less_eq_SubmissionStatus_def less_SubmissionStatus_def dest: status_code_inject)

end

lemmas status_order = less_eq_SubmissionStatus_def less_SubmissionStatus_def

end
