(* ===== verification/VerdictReducer.thy ===== *)
theory VerdictReducer
  imports SubmissionTypes
begin

text \<open>
  \<open>src/pipeline/SubmissionVerdictReducer.cpp\<close>: the verdict of a submission from the verdicts
  of its test cases, by a fixed priority.
\<close>

fun verdict_priority :: "SubmissionVerdict \<Rightarrow> int" where
  "verdict_priority CE = 100"
| "verdict_priority SYSTEM_ERROR = 90"
| "verdict_priority TLE = 80"
| "verdict_priority RE = 70"
| "verdict_priority MLE = 70"
| "verdict_priority OLE = 70"
| "verdict_priority WA = 60"
| "verdict_priority PE = 60"
| "verdict_priority UNKNOWN = 50"
| "verdict_priority AC = 10"
| "verdict_priority PENDING = 0"

text \<open>The loop over the case results, with its two local variables.\<close>

fun summarize_loop ::
  "SubmissionCaseResult list \<Rightarrow> SubmissionVerdict \<Rightarrow> int \<Rightarrow> SubmissionVerdict" where
  "summarize_loop [] summary summary_priority = summary"
| "summarize_loop (case_result # rest) summary summary_priority =
     (let current_priority = verdict_priority (cr_verdict case_result) in
      if current_priority > summary_priority
      then summarize_loop rest (cr_verdict case_result) current_priority
      else summarize_loop rest summary summary_priority)"

fun summarize :: "SubmissionCaseResult list \<Rightarrow> SubmissionVerdict \<Rightarrow> SubmissionVerdict" where
  "summarize [] default_verdict = default_verdict"
| "summarize (front # rest) default_verdict =
     summarize_loop (front # rest) (cr_verdict front) (verdict_priority (cr_verdict front))"

section \<open>The loop computes a first maximum\<close>

lemma summarize_loop_mem:
  "summarize_loop rs v p \<in> insert v (cr_verdict ` set rs)"
  by (induction rs v p rule: summarize_loop.induct) (auto simp: Let_def)

lemma summarize_loop_ge:
  "p = verdict_priority v \<Longrightarrow>
     p \<le> verdict_priority (summarize_loop rs v p) \<and>
     (\<forall>r \<in> set rs. verdict_priority (cr_verdict r) \<le> verdict_priority (summarize_loop rs v p))"
proof (induction rs v p rule: summarize_loop.induct)
  case (1 v p)
  then show ?case by simp
next
  case (2 r rs v p)
  then show ?case by (cases "verdict_priority (cr_verdict r) > p") (auto simp: Let_def)
qed

lemma summarize_mem:
  "rs \<noteq> [] \<Longrightarrow> summarize rs d \<in> cr_verdict ` set rs"
  using summarize_loop_mem [of rs "cr_verdict (hd rs)" "verdict_priority (cr_verdict (hd rs))"]
  by (cases rs) (auto simp del: summarize_loop.simps)

lemma summarize_ge:
  "r \<in> set rs \<Longrightarrow> verdict_priority (cr_verdict r) \<le> verdict_priority (summarize rs d)"
  using summarize_loop_ge [of _ "cr_verdict (hd rs)" rs]
  by (cases rs) (auto simp del: summarize_loop.simps)

lemma priority_AC: "verdict_priority v \<le> 10 \<longleftrightarrow> v = AC \<or> v = PENDING"
  by (cases v) simp_all

text \<open>
  C23. The summary of a non-empty list of case results is the verdict of one of the cases,
  and no case has a verdict of higher priority.
\<close>

theorem summarize_is_maximum:
  assumes "case_results \<noteq> []"
  shows "(\<exists>r \<in> set case_results. cr_verdict r = summarize case_results d) \<and>
    (\<forall>r \<in> set case_results.
        verdict_priority (cr_verdict r) \<le> verdict_priority (summarize case_results d))"
  using summarize_mem [OF assms, of d] summarize_ge [of _ case_results d] by auto

theorem summarize_is_maximum_witness:
  "summarize [default_case_result\<lparr>cr_verdict := WA\<rparr>, default_case_result\<lparr>cr_verdict := TLE\<rparr>] PENDING = TLE"
  using summarize_is_maximum
    [of "[default_case_result\<lparr>cr_verdict := WA\<rparr>, default_case_result\<lparr>cr_verdict := TLE\<rparr>]" PENDING]
  by simp

lemma summarize_accepts:
  assumes "rs \<noteq> []" and "\<forall>r \<in> set rs. cr_verdict r = AC"
  shows "summarize rs d = AC"
  using summarize_mem [OF assms(1), of d] assms(2) by auto

text \<open>
  A submission whose test cases have all run (none is pending, and there is at least one)
  is accepted exactly when every case is accepted.
\<close>

theorem summarize_AC_iff:
  assumes "case_results \<noteq> []" and "\<forall>r \<in> set case_results. cr_verdict r \<noteq> PENDING"
  shows "summarize case_results d = AC \<longleftrightarrow> (\<forall>r \<in> set case_results. cr_verdict r = AC)"
proof
  assume ac: "summarize case_results d = AC"
  show "\<forall>r \<in> set case_results. cr_verdict r = AC"
  proof
    fix r assume r: "r \<in> set case_results"
    with summarize_ge [of r case_results d] ac have "verdict_priority (cr_verdict r) \<le> 10" by simp
    with r assms(2) show "cr_verdict r = AC" by (auto simp: priority_AC)
  qed
next
  assume "\<forall>r \<in> set case_results. cr_verdict r = AC"
  with assms(1) show "summarize case_results d = AC" by (rule summarize_accepts)
qed

theorem summarize_AC_iff_witness:
  "summarize [default_case_result\<lparr>cr_verdict := AC\<rparr>, default_case_result\<lparr>cr_verdict := AC\<rparr>] PENDING = AC"
  using summarize_AC_iff
    [of "[default_case_result\<lparr>cr_verdict := AC\<rparr>, default_case_result\<lparr>cr_verdict := AC\<rparr>]" PENDING]
  by simp

lemma summarize_mono:
  assumes "rs \<noteq> []" and "set rs \<subseteq> set rs'"
  shows "verdict_priority (summarize rs d) \<le> verdict_priority (summarize rs' d')"
proof -
  from summarize_mem [OF assms(1), of d] obtain r where "r \<in> set rs" and "summarize rs d = cr_verdict r"
    by auto
  with assms(2) show ?thesis using summarize_ge [of r rs' d'] by auto
qed

text \<open>
  The priority of the summary does not depend on the order of the cases: reordering the
  test cases of a submission never changes the class of its verdict.
\<close>

theorem summarize_order_independent:
  assumes "set case_results = set case_results'"
  shows "verdict_priority (summarize case_results d) = verdict_priority (summarize case_results' d)"
proof (cases "case_results = []")
  case True
  with assms show ?thesis by simp
next
  case False
  with assms have "case_results' \<noteq> []" by auto
  with False assms show ?thesis
    using summarize_mono [of case_results case_results' d d]
      summarize_mono [of case_results' case_results d d] by simp
qed

theorem summarize_order_independent_witness:
  "verdict_priority (summarize [default_case_result\<lparr>cr_verdict := RE\<rparr>, default_case_result\<lparr>cr_verdict := MLE\<rparr>] AC) =
   verdict_priority (summarize [default_case_result\<lparr>cr_verdict := MLE\<rparr>, default_case_result\<lparr>cr_verdict := RE\<rparr>] AC)"
  by (rule summarize_order_independent) auto

end
