(* ===== verification/SubmissionQueue.thy ===== *)
theory SubmissionQueue
  imports SubmissionTypes
begin

text \<open>
  \<open>src/dispatch/SubmissionQueue.h\<close> and \<open>SubmissionQueue.cpp\<close>: the blocking queue between the
  network thread and the workers. Each operation runs under the queue's mutex. \<open>pop\<close> waits
  until the queue is shut down or not empty; a call that would wait is the value \<open>Blocked\<close>
  and changes nothing.
\<close>

record SubmissionQueue =
  q_tasks :: "SubmissionTask list"
  q_shutdown :: bool

definition empty_queue :: SubmissionQueue where
  "empty_queue = \<lparr>q_tasks = [], q_shutdown = False\<rparr>"

datatype pop_result = Blocked | Closed | Popped SubmissionTask

definition queue_push :: "SubmissionTask \<Rightarrow> SubmissionQueue \<Rightarrow> bool \<times> SubmissionQueue" where
  "queue_push task q = (if q_shutdown q then (False, q) else (True, q\<lparr>q_tasks := q_tasks q @ [task]\<rparr>))"

definition queue_pop :: "SubmissionQueue \<Rightarrow> pop_result \<times> SubmissionQueue" where
  "queue_pop q =
     (if q_shutdown q \<or> q_tasks q \<noteq> []
      then (case q_tasks q of
              [] \<Rightarrow> (Closed, q)
            | task # rest \<Rightarrow> (Popped task, q\<lparr>q_tasks := rest\<rparr>))
      else (Blocked, q))"

definition queue_shutdown :: "SubmissionQueue \<Rightarrow> SubmissionQueue" where
  "queue_shutdown q = q\<lparr>q_shutdown := True\<rparr>"

definition queue_size :: "SubmissionQueue \<Rightarrow> nat" where
  "queue_size q = length (q_tasks q)"

section \<open>The queue as an interface\<close>

text \<open>
  A closable queue of tasks: what producers and consumers rely on. \<open>put\<close> reports whether the
  task was accepted, \<open>take_one\<close> gives \<open>Some (Some x)\<close> for a task, \<open>Some None\<close> for "closed and
  drained" and \<open>None\<close> where the caller has to wait.
\<close>

locale closable_queue =
  fixes put :: "'a \<Rightarrow> 'q \<Rightarrow> bool \<times> 'q"
    and take_one :: "'q \<Rightarrow> 'a option option \<times> 'q"
    and shut :: "'q \<Rightarrow> 'q"
    and contents :: "'q \<Rightarrow> 'a list"
    and closed :: "'q \<Rightarrow> bool"
  assumes put_open: "\<not> closed q \<Longrightarrow>
      fst (put x q) \<and> contents (snd (put x q)) = contents q @ [x] \<and> \<not> closed (snd (put x q))"
    and put_closed: "closed q \<Longrightarrow> put x q = (False, q)"
    and take_task: "contents q = x # xs \<Longrightarrow>
      fst (take_one q) = Some (Some x) \<and> contents (snd (take_one q)) = xs \<and>
      closed (snd (take_one q)) = closed q"
    and take_closed: "contents q = [] \<Longrightarrow> closed q \<Longrightarrow> take_one q = (Some None, q)"
    and take_wait: "contents q = [] \<Longrightarrow> \<not> closed q \<Longrightarrow> take_one q = (None, q)"
    and shut_contents: "contents (shut q) = contents q"
    and shut_closed: "closed (shut q)"
begin

text \<open>One event of a history: its effect on the accepted tasks, the delivered tasks and the queue.\<close>

definition put_event :: "'a \<Rightarrow> 'a list \<times> 'a list \<times> 'q \<Rightarrow> 'a list \<times> 'a list \<times> 'q" where
  "put_event x = (\<lambda>(acc, del, q). (if fst (put x q) then acc @ [x] else acc, del, snd (put x q)))"

definition take_event :: "'a list \<times> 'a list \<times> 'q \<Rightarrow> 'a list \<times> 'a list \<times> 'q" where
  "take_event = (\<lambda>(acc, del, q).
     (acc, case fst (take_one q) of Some (Some x) \<Rightarrow> del @ [x] | _ \<Rightarrow> del, snd (take_one q)))"

definition fifo_ok :: "'a list \<times> 'a list \<times> 'q \<Rightarrow> bool" where
  "fifo_ok = (\<lambda>(acc, del, q). acc = del @ contents q)"

lemma fifo_put: "fifo_ok h \<Longrightarrow> fifo_ok (put_event x h)"
  by (cases h; cases "closed (snd (snd h))")
    (auto simp: fifo_ok_def put_event_def dest: put_open [of _ x] put_closed [of _ x])

lemma fifo_take:
  assumes "fifo_ok h"
  shows "fifo_ok (take_event h)"
proof -
  obtain acc del q where h: "h = (acc, del, q)" by (cases h)
  show ?thesis
  proof (cases "contents q")
    case Nil
    then have "take_one q = (Some None, q) \<or> take_one q = (None, q)"
      using take_closed take_wait by (cases "closed q") auto
    with assms h show ?thesis by (auto simp: fifo_ok_def take_event_def)
  next
    case (Cons x xs)
    with assms h take_task [OF Cons] show ?thesis
      by (auto simp: fifo_ok_def take_event_def)
  qed
qed

lemma fifo_shut: "fifo_ok (acc, del, q) \<Longrightarrow> fifo_ok (acc, del, shut q)"
  by (simp add: fifo_ok_def shut_contents)

text \<open>A consumer of a closed queue drains it: after as many reads as there are tasks it is told to stop.\<close>

lemma drain:
  "closed q \<Longrightarrow> n = length (contents q) \<Longrightarrow>
     fst (take_one (((snd \<circ> take_one) ^^ n) q)) = Some None"
proof (induction n arbitrary: q)
  case 0
  then show ?case by (simp add: take_closed)
next
  case (Suc n)
  then obtain x xs where c: "contents q = x # xs" by (cases "contents q") auto
  have "closed (snd (take_one q))" "n = length (contents (snd (take_one q)))"
    using take_task [OF c] Suc.prems c by auto
  from Suc.IH [OF this] show ?case by (simp add: funpow_Suc_right del: funpow.simps)
qed

end

definition pop_view :: "SubmissionQueue \<Rightarrow> SubmissionTask option option \<times> SubmissionQueue" where
  "pop_view q = (case queue_pop q of
     (Blocked, q') \<Rightarrow> (None, q') | (Closed, q') \<Rightarrow> (Some None, q') | (Popped t, q') \<Rightarrow> (Some (Some t), q'))"

interpretation sq: closable_queue queue_push pop_view queue_shutdown q_tasks q_shutdown
  by unfold_locales
    (auto simp: queue_push_def pop_view_def queue_pop_def queue_shutdown_def split: list.splits)

section \<open>Histories of the queue\<close>

datatype queue_event = EvPush SubmissionTask | EvPop | EvShutdown

text \<open>A history's state: accepted tasks and delivered tasks in order, and the queue.\<close>

fun queue_history ::
  "queue_event list \<Rightarrow> SubmissionTask list \<times> SubmissionTask list \<times> SubmissionQueue
     \<Rightarrow> SubmissionTask list \<times> SubmissionTask list \<times> SubmissionQueue" where
  "queue_history [] h = h"
| "queue_history (EvPush t # es) (acc, del, q) =
     queue_history es (if fst (queue_push t q) then acc @ [t] else acc, del, snd (queue_push t q))"
| "queue_history (EvPop # es) (acc, del, q) =
     queue_history es
       (acc, case fst (queue_pop q) of Popped t \<Rightarrow> del @ [t] | _ \<Rightarrow> del, snd (queue_pop q))"
| "queue_history (EvShutdown # es) (acc, del, q) = queue_history es (acc, del, queue_shutdown q)"

lemma take_event_pop:
  "sq.take_event (acc, del, q) =
     (acc, case fst (queue_pop q) of Popped t \<Rightarrow> del @ [t] | _ \<Rightarrow> del, snd (queue_pop q))"
  by (cases "queue_pop q") (auto simp: sq.take_event_def pop_view_def split: pop_result.splits)

lemma queue_history_fifo: "sq.fifo_ok h \<Longrightarrow> sq.fifo_ok (queue_history es h)"
proof (induction es h rule: queue_history.induct)
  case (2 t es acc del q)
  then show ?case using sq.fifo_put [of "(acc, del, q)" t] by (simp add: sq.put_event_def)
next
  case (3 es acc del q)
  then show ?case using sq.fifo_take [of "(acc, del, q)"] by (simp add: take_event_pop)
qed (simp_all add: sq.fifo_shut)

text \<open>
  C19. The queue neither loses, duplicates nor reorders tasks: along every interleaving of
  pushes, pops and a shutdown, the accepted tasks are the delivered ones followed by those
  still queued.
\<close>

theorem queue_fifo:
  "case queue_history es ([], [], empty_queue) of (acc, del, q) \<Rightarrow> acc = del @ q_tasks q"
  using queue_history_fifo [of "([], [], empty_queue)" es]
  by (simp add: sq.fifo_ok_def empty_queue_def)

text \<open>
  After a shutdown no task is accepted any more, no consumer waits, and a consumer that
  keeps popping receives every task that was queued and is then told to exit.
\<close>

theorem queue_shutdown_drains:
  "\<not> fst (queue_push t (queue_shutdown q)) \<and> fst (queue_pop (queue_shutdown q)) \<noteq> Blocked \<and>
   fst (queue_pop (((snd \<circ> queue_pop) ^^ queue_size q) (queue_shutdown q))) = Closed"
proof -
  have eq: "snd \<circ> pop_view = snd \<circ> queue_pop"
    by (auto simp: fun_eq_iff pop_view_def split: prod.splits pop_result.splits)
  have "fst (pop_view q') = Some None \<longleftrightarrow> fst (queue_pop q') = Closed" for q'
    by (auto simp: pop_view_def split: prod.splits pop_result.splits)
  with sq.drain [of "queue_shutdown q" "queue_size q"]
  have "fst (queue_pop (((snd \<circ> queue_pop) ^^ queue_size q) (queue_shutdown q))) = Closed"
    by (simp add: eq sq.shut_closed sq.shut_contents queue_size_def)
  then show ?thesis
    by (auto simp: queue_push_def queue_pop_def queue_shutdown_def split: list.splits)
qed

end
