(* ===== verification/JudgeWorkerPool.thy ===== *)
theory JudgeWorkerPool
  imports SubmissionQueue "HOL-Library.Multiset"
begin

text \<open>
  \<open>src/dispatch/JudgeWorkerPool.cpp\<close>: the worker threads and the three ways to end them. The pool
  is a transition system: a worker is at one of the points of \<open>workerLoop\<close>, the thread that owns the
  pool at one of the points of \<open>stop\<close> or \<open>graceful_shutdown\<close>, and one step moves one of them. The
  lists of accepted and processed tasks and of notifications are history variables.
\<close>

section \<open>State\<close>

datatype worker =
    Waiting
  | Got SubmissionTask
  | Running SubmissionTask
  | Done SubmissionTask
  | Exited

datatype owner =
    Idle
  | StopShutdown
  | StopJoin
  | Joined
  | ReturnedUnjoined

datatype notification = Started SubmissionTask | Finished SubmissionTask

record JudgeWorkerPool =
  pool_queue :: SubmissionQueue
  pool_stopped :: bool
  pool_workers :: "worker list"
  pool_owner :: owner
  pool_accepted :: "SubmissionTask list"
  pool_processed :: "SubmissionTask list"
  pool_notified :: "notification list"

definition new_pool :: "nat \<Rightarrow> JudgeWorkerPool" where
  "new_pool worker_count =
     \<lparr>pool_queue = empty_queue, pool_stopped = False, pool_workers = replicate worker_count Waiting, pool_owner = Idle,
      pool_accepted = [], pool_processed = [], pool_notified = []\<rparr>"

section \<open>Steps\<close>

text \<open>
  One step of a worker: \<open>waitTask\<close> (which blocks while the queue is open and empty), the first
  notification, \<open>processSubmission\<close>, the second notification.
\<close>

fun worker_next :: "worker \<Rightarrow> JudgeWorkerPool \<Rightarrow> (worker \<times> JudgeWorkerPool) option" where
  "worker_next Waiting p =
     (case queue_pop (pool_queue p) of
        (Blocked, q) \<Rightarrow> None
      | (Closed, q) \<Rightarrow> Some (Exited, p\<lparr>pool_queue := q\<rparr>)
      | (Popped t, q) \<Rightarrow> Some (Got t, p\<lparr>pool_queue := q\<rparr>))"
| "worker_next (Got t) p =
     Some (Running t, if pool_stopped p then p else p\<lparr>pool_notified := pool_notified p @ [Started t]\<rparr>)"
| "worker_next (Running t) p = Some (Done t, p\<lparr>pool_processed := pool_processed p @ [t]\<rparr>)"
| "worker_next (Done t) p =
     Some (Waiting, if pool_stopped p then p else p\<lparr>pool_notified := pool_notified p @ [Finished t]\<rparr>)"
| "worker_next Exited p = None"

definition worker_step :: "nat \<Rightarrow> JudgeWorkerPool \<Rightarrow> JudgeWorkerPool option" where
  "worker_step w p =
     (if w < length (pool_workers p)
      then map_option (\<lambda>(x, p'). p'\<lparr>pool_workers := (pool_workers p)[w := x]\<rparr>) (worker_next (pool_workers p ! w) p)
      else None)"

definition pool_submit :: "SubmissionTask \<Rightarrow> JudgeWorkerPool \<Rightarrow> JudgeWorkerPool" where
  "pool_submit t p =
     (case queue_push t (pool_queue p) of
        (ok, q) \<Rightarrow> p\<lparr>pool_queue := q, pool_accepted := pool_accepted p @ (if ok then [t] else [])\<rparr>)"

text \<open>\<open>stop\<close>: the compare-and-exchange, then \<open>shutdownQueue\<close>, then the joins.\<close>

definition stop_begin :: "JudgeWorkerPool \<Rightarrow> JudgeWorkerPool" where
  "stop_begin p = (if pool_stopped p then p\<lparr>pool_owner := ReturnedUnjoined\<rparr> else p\<lparr>pool_stopped := True, pool_owner := StopShutdown\<rparr>)"

definition stop_shutdown :: "JudgeWorkerPool \<Rightarrow> JudgeWorkerPool" where
  "stop_shutdown p = p\<lparr>pool_queue := queue_shutdown (pool_queue p), pool_owner := StopJoin\<rparr>"

definition all_exited :: "JudgeWorkerPool \<Rightarrow> bool" where
  "all_exited p \<longleftrightarrow> list_all ((=) Exited) (pool_workers p)"

text \<open>\<open>graceful_shutdown\<close> stores true and then calls \<open>stop\<close>.\<close>

definition graceful_shutdown :: "JudgeWorkerPool \<Rightarrow> JudgeWorkerPool" where
  "graceful_shutdown p = stop_begin (p\<lparr>pool_stopped := True\<rparr>)"

inductive pool_step :: "JudgeWorkerPool \<Rightarrow> JudgeWorkerPool \<Rightarrow> bool" where
  worker: "worker_step w p = Some p' \<Longrightarrow> pool_step p p'"
| submit: "pool_step p (pool_submit t p)"
| stop: "pool_owner p = Idle \<Longrightarrow> pool_step p (stop_begin p)"
| shutdown: "pool_owner p = StopShutdown \<Longrightarrow> pool_step p (stop_shutdown p)"
| join: "pool_owner p = StopJoin \<Longrightarrow> all_exited p \<Longrightarrow> pool_step p (p\<lparr>pool_owner := Joined\<rparr>)"
| graceful: "pool_owner p = Idle \<Longrightarrow> pool_step p (graceful_shutdown p)"

inductive pool_reachable :: "nat \<Rightarrow> JudgeWorkerPool \<Rightarrow> bool" for n where
  start: "pool_reachable n (new_pool n)"
| step: "pool_reachable n p \<Longrightarrow> pool_step p p' \<Longrightarrow> pool_reachable n p'"

inductive_cases worker_stepE: "pool_step p p'"

section \<open>No task is lost or processed twice\<close>

fun in_hand :: "worker \<Rightarrow> SubmissionTask list" where
  "in_hand (Got t) = [t]"
| "in_hand (Running t) = [t]"
| "in_hand _ = []"

definition tasks_kept :: "JudgeWorkerPool \<Rightarrow> bool" where
  "tasks_kept p \<longleftrightarrow>
     mset (pool_accepted p) =
       mset (pool_processed p) + mset (q_tasks (pool_queue p)) + mset (concat (map in_hand (pool_workers p)))"

lemma in_hand_update:
  "w < length ws \<Longrightarrow>
     mset (concat (map in_hand (ws[w := x]))) + mset (in_hand (ws ! w)) = mset (concat (map in_hand ws)) + mset (in_hand x)"
proof (induction ws arbitrary: w)
  case (Cons y ws)
  then show ?case by (cases w) (auto simp: ac_simps)
qed simp

lemma worker_step_cases:
  assumes "worker_step w p = Some p'"
  obtains (exit) "w < length (pool_workers p)" "pool_workers p ! w = Waiting" "q_tasks (pool_queue p) = []"
      "q_shutdown (pool_queue p)" "p' = p\<lparr>pool_workers := (pool_workers p)[w := Exited]\<rparr>"
  | (pop) t rest where "w < length (pool_workers p)" "pool_workers p ! w = Waiting" "q_tasks (pool_queue p) = t # rest"
      "p' = p\<lparr>pool_queue := (pool_queue p)\<lparr>q_tasks := rest\<rparr>, pool_workers := (pool_workers p)[w := Got t]\<rparr>"
  | (started) t ns where "w < length (pool_workers p)" "pool_workers p ! w = Got t"
      "p' = p\<lparr>pool_notified := ns, pool_workers := (pool_workers p)[w := Running t]\<rparr>"
  | (processed) t where "w < length (pool_workers p)" "pool_workers p ! w = Running t"
      "p' = p\<lparr>pool_processed := pool_processed p @ [t], pool_workers := (pool_workers p)[w := Done t]\<rparr>"
  | (finished) t ns where "w < length (pool_workers p)" "pool_workers p ! w = Done t"
      "p' = p\<lparr>pool_notified := ns, pool_workers := (pool_workers p)[w := Waiting]\<rparr>"
proof -
  from assms have w: "w < length (pool_workers p)" by (simp add: worker_step_def split: if_splits)
  show thesis
  proof (cases "pool_workers p ! w")
    case Waiting
    with assms w show thesis
      by (cases "q_tasks (pool_queue p)")
        (auto simp: worker_step_def queue_pop_def split: if_splits intro: exit pop)
  next
    case (Got t)
    with assms w have "p' = p\<lparr>pool_notified := (if pool_stopped p then pool_notified p else pool_notified p @ [Started t]),
        pool_workers := (pool_workers p)[w := Running t]\<rparr>" by (auto simp: worker_step_def)
    then show thesis by (rule started [OF w Got])
  next
    case (Running t)
    with assms w show thesis by (auto simp: worker_step_def intro: processed)
  next
    case (Done t)
    with assms w have "p' = p\<lparr>pool_notified := (if pool_stopped p then pool_notified p else pool_notified p @ [Finished t]),
        pool_workers := (pool_workers p)[w := Waiting]\<rparr>" by (auto simp: worker_step_def)
    then show thesis by (rule finished [OF w Done])
  next
    case Exited
    with assms w show thesis by (simp add: worker_step_def)
  qed
qed

lemma tasks_kept_worker: "worker_step w p = Some p' \<Longrightarrow> tasks_kept p \<Longrightarrow> tasks_kept p'"
proof (erule worker_step_cases)
  fix t rest
  assume "w < length (pool_workers p)" "pool_workers p ! w = Waiting" "q_tasks (pool_queue p) = t # rest"
    "p' = p\<lparr>pool_queue := (pool_queue p)\<lparr>q_tasks := rest\<rparr>, pool_workers := (pool_workers p)[w := Got t]\<rparr>" "tasks_kept p"
  then show "tasks_kept p'" using in_hand_update [of w "pool_workers p" "Got t"] by (simp add: tasks_kept_def)
next
  fix t
  assume "w < length (pool_workers p)" "pool_workers p ! w = Running t"
    "p' = p\<lparr>pool_processed := pool_processed p @ [t], pool_workers := (pool_workers p)[w := Done t]\<rparr>" "tasks_kept p"
  then show "tasks_kept p'" using in_hand_update [of w "pool_workers p" "Done t"] by (simp add: tasks_kept_def)
next
  assume "w < length (pool_workers p)" "pool_workers p ! w = Waiting"
    "p' = p\<lparr>pool_workers := (pool_workers p)[w := Exited]\<rparr>" "tasks_kept p"
  then show "tasks_kept p'" using in_hand_update [of w "pool_workers p" Exited] by (simp add: tasks_kept_def)
next
  fix t ns
  assume "w < length (pool_workers p)" "pool_workers p ! w = Got t"
    "p' = p\<lparr>pool_notified := ns, pool_workers := (pool_workers p)[w := Running t]\<rparr>" "tasks_kept p"
  then show "tasks_kept p'" using in_hand_update [of w "pool_workers p" "Running t"] by (simp add: tasks_kept_def)
next
  fix t ns
  assume "w < length (pool_workers p)" "pool_workers p ! w = Done t"
    "p' = p\<lparr>pool_notified := ns, pool_workers := (pool_workers p)[w := Waiting]\<rparr>" "tasks_kept p"
  then show "tasks_kept p'" using in_hand_update [of w "pool_workers p" Waiting] by (simp add: tasks_kept_def)
qed

lemma tasks_kept_step: "pool_step p p' \<Longrightarrow> tasks_kept p \<Longrightarrow> tasks_kept p'"
  by (erule pool_step.cases)
    (auto simp: tasks_kept_worker, auto simp: tasks_kept_def pool_submit_def queue_push_def stop_begin_def
      stop_shutdown_def queue_shutdown_def graceful_shutdown_def)

lemma tasks_kept_reachable: "pool_reachable n p \<Longrightarrow> tasks_kept p"
proof (induction rule: pool_reachable.induct)
  case start
  then show ?case by (induction n) (simp_all add: tasks_kept_def new_pool_def empty_queue_def)
next
  case (step p p')
  then show ?case using tasks_kept_step by blast
qed

text \<open>A worker leaves its loop only through a shut-down, drained queue.\<close>

definition exits_drained :: "JudgeWorkerPool \<Rightarrow> bool" where
  "exits_drained p \<longleftrightarrow> Exited \<in> set (pool_workers p) \<longrightarrow> q_shutdown (pool_queue p) \<and> q_tasks (pool_queue p) = []"

lemma exits_drained_step: "pool_step p p' \<Longrightarrow> exits_drained p \<Longrightarrow> exits_drained p'"
proof (erule pool_step.cases)
  fix w q q'
  assume "p = q" "p' = q'" and w: "worker_step w q = Some q'" and e: "exits_drained p"
  then have e: "exits_drained q" by simp
  have upd: "Exited \<in> set ((pool_workers q)[w := x]) \<Longrightarrow> x = Exited \<or> Exited \<in> set (pool_workers q)" for x
    using set_update_subset_insert [of "pool_workers q" w x] by auto
  from w show "exits_drained p'" unfolding \<open>p' = q'\<close>
    by (cases rule: worker_step_cases) (use e upd in \<open>auto simp: exits_drained_def\<close>)
qed (auto simp: exits_drained_def pool_submit_def queue_push_def stop_begin_def stop_shutdown_def queue_shutdown_def
    graceful_shutdown_def)

lemma exits_drained_reachable: "pool_reachable n p \<Longrightarrow> exits_drained p"
proof (induction rule: pool_reachable.induct)
  case start
  then show ?case by (simp add: exits_drained_def new_pool_def)
qed (rule exits_drained_step)

lemma joined_step:
  "pool_step p p' \<Longrightarrow> (pool_owner p = Joined \<longrightarrow> all_exited p) \<Longrightarrow> (pool_owner p' = Joined \<longrightarrow> all_exited p')"
proof (erule pool_step.cases)
  fix w q q'
  assume "p = q" "p' = q'" "worker_step w q = Some q'" "pool_owner p = Joined \<longrightarrow> all_exited p"
  then show "pool_owner p' = Joined \<longrightarrow> all_exited p'"
    by (elim worker_step_cases) (auto simp: all_exited_def list_all_length)
qed (auto simp: pool_submit_def queue_push_def stop_begin_def stop_shutdown_def graceful_shutdown_def all_exited_def)

lemma joined_reachable: "pool_reachable n p \<Longrightarrow> pool_owner p = Joined \<Longrightarrow> all_exited p"
  by (induction rule: pool_reachable.induct) (auto simp: new_pool_def dest: joined_step)

text \<open>
  C17. No task is lost and none is processed twice: in every reachable state the accepted tasks are,
  with their multiplicity, those processed, those in the queue and those a worker holds; and once
  \<open>stop\<close> has joined the workers, exactly the accepted tasks have been processed.
\<close>

theorem pool_processes_each_task_once:
  assumes "pool_reachable n p"
  shows "mset (pool_accepted p) =
      mset (pool_processed p) + mset (q_tasks (pool_queue p)) + mset (concat (map in_hand (pool_workers p))) \<and>
    (pool_owner p = Joined \<and> 0 < length (pool_workers p) \<longrightarrow> mset (pool_processed p) = mset (pool_accepted p))"
proof -
  have kept: "tasks_kept p" using assms by (rule tasks_kept_reachable)
  moreover have "mset (pool_processed p) = mset (pool_accepted p)"
    if "pool_owner p = Joined" "0 < length (pool_workers p)"
  proof -
    have ex: "\<forall>x \<in> set (pool_workers p). x = Exited"
      using joined_reachable [OF assms that(1)] by (auto simp: all_exited_def list_all_iff)
    with that(2) have "q_tasks (pool_queue p) = []"
      using exits_drained_reachable [OF assms] by (cases "pool_workers p") (auto simp: exits_drained_def)
    moreover from ex have "concat (map in_hand (pool_workers p)) = []" by force
    ultimately show ?thesis using kept by (simp add: tasks_kept_def)
  qed
  ultimately show ?thesis by (simp add: tasks_kept_def)
qed

section \<open>Stopping\<close>

fun worker_rank :: "worker \<Rightarrow> nat" where
  "worker_rank Waiting = 1"
| "worker_rank (Got _) = 4"
| "worker_rank (Running _) = 3"
| "worker_rank (Done _) = 2"
| "worker_rank Exited = 0"

definition stop_measure :: "JudgeWorkerPool \<Rightarrow> nat" where
  "stop_measure p = 4 * length (q_tasks (pool_queue p)) + sum_list (map worker_rank (pool_workers p))"

lemma rank_update:
  "w < length ws \<Longrightarrow> sum_list (map worker_rank (ws[w := x])) + worker_rank (ws ! w) = sum_list (map worker_rank ws) + worker_rank x"
proof (induction ws arbitrary: w)
  case (Cons y ws)
  then show ?case by (cases w) auto
qed simp

lemma stop_measure_decreases: "worker_step w p = Some p' \<Longrightarrow> stop_measure p' < stop_measure p"
proof (erule worker_step_cases)
  fix t rest
  assume "w < length (pool_workers p)" "pool_workers p ! w = Waiting" "q_tasks (pool_queue p) = t # rest"
    "p' = p\<lparr>pool_queue := (pool_queue p)\<lparr>q_tasks := rest\<rparr>, pool_workers := (pool_workers p)[w := Got t]\<rparr>"
  then show ?thesis using rank_update [of w "pool_workers p" "Got t"] by (simp add: stop_measure_def)
next
  fix t
  assume "w < length (pool_workers p)" "pool_workers p ! w = Running t"
    "p' = p\<lparr>pool_processed := pool_processed p @ [t], pool_workers := (pool_workers p)[w := Done t]\<rparr>"
  then show ?thesis using rank_update [of w "pool_workers p" "Done t"] by (simp add: stop_measure_def)
next
  assume "w < length (pool_workers p)" "pool_workers p ! w = Waiting" "p' = p\<lparr>pool_workers := (pool_workers p)[w := Exited]\<rparr>"
  then show ?thesis using rank_update [of w "pool_workers p" Exited] by (simp add: stop_measure_def)
next
  fix t ns
  assume "w < length (pool_workers p)" "pool_workers p ! w = Got t"
    "p' = p\<lparr>pool_notified := ns, pool_workers := (pool_workers p)[w := Running t]\<rparr>"
  then show ?thesis using rank_update [of w "pool_workers p" "Running t"] by (simp add: stop_measure_def)
next
  fix t ns
  assume "w < length (pool_workers p)" "pool_workers p ! w = Done t"
    "p' = p\<lparr>pool_notified := ns, pool_workers := (pool_workers p)[w := Waiting]\<rparr>"
  then show ?thesis using rank_update [of w "pool_workers p" Waiting] by (simp add: stop_measure_def)
qed

text \<open>The points of \<open>stop\<close>: the flag is set when it is called, and the queue is shut down when it joins.\<close>

definition stop_points :: "nat \<Rightarrow> JudgeWorkerPool \<Rightarrow> bool" where
  "stop_points n p \<longleftrightarrow>
     length (pool_workers p) = n \<and> (pool_owner p = Idle \<longrightarrow> \<not> pool_stopped p) \<and>
     (pool_owner p \<in> {StopJoin, Joined} \<longrightarrow> q_shutdown (pool_queue p))"

lemma worker_step_keeps:
  assumes "worker_step w p = Some p'"
  shows "pool_owner p' = pool_owner p" "pool_accepted p' = pool_accepted p" "pool_stopped p' = pool_stopped p"
    "length (pool_workers p') = length (pool_workers p)" "q_shutdown (pool_queue p') = q_shutdown (pool_queue p)"
  using assms by (cases rule: worker_step_cases; simp)+

lemma stop_points_step: "pool_step p p' \<Longrightarrow> stop_points n p \<Longrightarrow> stop_points n p'"
proof (erule pool_step.cases)
  fix w q q'
  assume "p = q" "p' = q'" "worker_step w q = Some q'" "stop_points n p"
  then show "stop_points n p'" using worker_step_keeps [of w q q'] by (simp add: stop_points_def)
qed (auto simp: stop_points_def pool_submit_def queue_push_def stop_begin_def stop_shutdown_def queue_shutdown_def graceful_shutdown_def)

lemma stop_points_reachable: "pool_reachable n p \<Longrightarrow> stop_points n p"
proof (induction rule: pool_reachable.induct)
  case start
  then show ?case by (simp add: stop_points_def new_pool_def)
qed (rule stop_points_step)

text \<open>The workers in some order, each entry one step of that worker; None when it cannot make one.\<close>

fun worker_run :: "nat list \<Rightarrow> JudgeWorkerPool \<Rightarrow> JudgeWorkerPool option" where
  "worker_run [] p = Some p"
| "worker_run (w # ws) p = (case worker_step w p of None \<Rightarrow> None | Some p' \<Rightarrow> worker_run ws p')"

lemma worker_run_keeps:
  assumes "worker_run ws p = Some r" "pool_reachable n p"
  shows "length ws + stop_measure r \<le> stop_measure p \<and> pool_reachable n r \<and> pool_owner r = pool_owner p \<and>
    pool_accepted r = pool_accepted p"
  using assms
proof (induction ws arbitrary: p)
  case (Cons w ws)
  then obtain p' where s: "worker_step w p = Some p'" and rest: "worker_run ws p' = Some r" by (auto split: option.splits)
  have "pool_reachable n p'" using Cons.prems(2) pool_step.worker [OF s] by (rule pool_reachable.step)
  from Cons.IH [OF rest this] stop_measure_decreases [OF s] worker_step_keeps [OF s] show ?case by simp
qed simp

lemma stuck_workers_exited:
  assumes "q_shutdown (pool_queue p)" "\<nexists>w p'. worker_step w p = Some p'"
  shows "all_exited p"
proof (rule ccontr)
  assume "\<not> all_exited p"
  then obtain w where w: "w < length (pool_workers p)" "pool_workers p ! w \<noteq> Exited"
    by (auto simp: all_exited_def list_all_length)
  have "\<exists>x p'. worker_next (pool_workers p ! w) p = Some (x, p')"
    using w(2) assms(1) by (cases "pool_workers p ! w") (auto simp: queue_pop_def split: list.splits)
  then obtain x p' where "worker_next (pool_workers p ! w) p = Some (x, p')" by blast
  then have "worker_step w p = Some (p'\<lparr>pool_workers := (pool_workers p)[w := x]\<rparr>)" using w(1) by (simp add: worker_step_def)
  with assms(2) show False by blast
qed

lemma exited_drained:
  assumes "pool_reachable n p" "0 < n" "all_exited p"
  shows "q_tasks (pool_queue p) = [] \<and> mset (pool_processed p) = mset (pool_accepted p)"
proof -
  have ex: "\<forall>x \<in> set (pool_workers p). x = Exited" using assms(3) by (auto simp: all_exited_def list_all_iff)
  have "pool_workers p \<noteq> []" using stop_points_reachable [OF assms(1)] assms(2) by (auto simp: stop_points_def)
  then have "Exited \<in> set (pool_workers p)" using ex by (cases "pool_workers p") auto
  then have q: "q_tasks (pool_queue p) = []" using exits_drained_reachable [OF assms(1)] by (simp add: exits_drained_def)
  moreover from ex have "concat (map in_hand (pool_workers p)) = []" by force
  ultimately show ?thesis using tasks_kept_reachable [OF assms(1)] by (simp add: tasks_kept_def)
qed

text \<open>
  C18. \<open>stop\<close> drains the queue and joins, provided that each processing of a task returns (one step of a
  worker here). Called on a pool with workers that was not stopped before, it sets the flag, then shuts
  the queue down, then joins. From there on no task is accepted any more, and however the workers are
  scheduled they make at most as many steps as the measure of the state says; as long as \<open>stop\<close> cannot
  finish joining some worker can make a step, and when none can, all have left their loops, the queue is
  empty, every accepted task has been processed once, and the join completes.
\<close>

theorem stop_drains_and_joins:
  assumes "pool_reachable n p" and "0 < n"
  shows "(pool_owner p = Idle \<longrightarrow> pool_owner (stop_begin p) = StopShutdown) \<and>
    (pool_owner p = StopShutdown \<longrightarrow> pool_owner (stop_shutdown p) = StopJoin) \<and>
    (pool_owner p = StopJoin \<longrightarrow> pool_submit t p = p \<and>
      (\<forall>ws r. worker_run ws p = Some r \<longrightarrow> length ws \<le> stop_measure p \<and>
         ((\<exists>w r'. worker_step w r = Some r') \<or>
          all_exited r \<and> q_tasks (pool_queue r) = [] \<and> mset (pool_processed r) = mset (pool_accepted p) \<and>
          pool_step r (r\<lparr>pool_owner := Joined\<rparr>))))"
proof (intro conjI impI allI)
  note points = stop_points_reachable [OF assms(1), unfolded stop_points_def]
  show "pool_owner (stop_begin p) = StopShutdown" if "pool_owner p = Idle"
    using points that by (simp add: stop_begin_def)
  show "pool_owner (stop_shutdown p) = StopJoin" by (simp add: stop_shutdown_def)
  assume owner: "pool_owner p = StopJoin"
  then have shut: "q_shutdown (pool_queue p)" using points by simp
  then show "pool_submit t p = p" by (simp add: pool_submit_def queue_push_def)
  fix ws r
  assume run: "worker_run ws p = Some r"
  note keeps = worker_run_keeps [OF run assms(1)]
  then show "length ws \<le> stop_measure p" by simp
  show "(\<exists>w r'. worker_step w r = Some r') \<or>
      all_exited r \<and> q_tasks (pool_queue r) = [] \<and> mset (pool_processed r) = mset (pool_accepted p) \<and>
      pool_step r (r\<lparr>pool_owner := Joined\<rparr>)"
  proof (cases "\<exists>w r'. worker_step w r = Some r'")
    case stuck: False
    have "q_shutdown (pool_queue r)"
      using stop_points_reachable [of n r] keeps owner by (simp add: stop_points_def)
    then have ex: "all_exited r" using stuck by (rule stuck_workers_exited)
    with exited_drained [of n r] keeps assms(2) owner pool_step.join [of r]
    show ?thesis by simp
  qed simp
qed

section \<open>Graceful shutdown\<close>

text \<open>What holds of the pool from a graceful shutdown on.\<close>

definition left_running :: "JudgeWorkerPool \<Rightarrow> bool" where
  "left_running p \<longleftrightarrow> pool_owner p = ReturnedUnjoined \<and> \<not> q_shutdown (pool_queue p) \<and> Exited \<notin> set (pool_workers p)"

lemma left_running_step: "pool_step p p' \<Longrightarrow> left_running p \<Longrightarrow> left_running p'"
proof (erule pool_step.cases)
  fix w q q'
  assume "p = q" "p' = q'" and w: "worker_step w q = Some q'" and l: "left_running p"
  then have l: "left_running q" by simp
  have upd: "x \<noteq> Exited \<Longrightarrow> Exited \<notin> set ((pool_workers q)[w := x])" for x
    using set_update_subset_insert [of "pool_workers q" w x] l by (auto simp: left_running_def)
  from w show "left_running p'" unfolding \<open>p' = q'\<close>
    by (cases rule: worker_step_cases) (use l upd in \<open>auto simp: left_running_def\<close>)
qed (auto simp: left_running_def pool_submit_def queue_push_def)

definition open_idle :: "JudgeWorkerPool \<Rightarrow> bool" where
  "open_idle p \<longleftrightarrow> (pool_owner p = Idle \<longrightarrow> \<not> q_shutdown (pool_queue p))"

lemma open_idle_step: "pool_step p p' \<Longrightarrow> open_idle p \<Longrightarrow> open_idle p'"
proof (erule pool_step.cases)
  fix w q q'
  assume "p = q" "p' = q'" "worker_step w q = Some q'" "open_idle p"
  then show "open_idle p'" by (elim worker_step_cases) (auto simp: open_idle_def)
qed (auto simp: open_idle_def pool_submit_def queue_push_def stop_begin_def stop_shutdown_def graceful_shutdown_def)

lemma open_idle_reachable: "pool_reachable n p \<Longrightarrow> pool_owner p = Idle \<Longrightarrow> \<not> q_shutdown (pool_queue p)"
proof -
  have "pool_reachable n p \<Longrightarrow> open_idle p"
  proof (induction rule: pool_reachable.induct)
    case start
    then show ?case by (simp add: open_idle_def new_pool_def empty_queue_def)
  qed (rule open_idle_step)
  then show "pool_reachable n p \<Longrightarrow> pool_owner p = Idle \<Longrightarrow> \<not> q_shutdown (pool_queue p)"
    by (simp add: open_idle_def)
qed

text \<open>
  \<open>graceful_shutdown\<close> does not shut anything down: it sets the flag that \<open>stop\<close> tests, so \<open>stop\<close>
  returns at once. From then on, for ever, the queue is open (it still accepts tasks), no worker
  has left its loop and none has been joined.
\<close>

theorem graceful_shutdown_never_stops:
  assumes "pool_reachable n p" and "pool_owner p = Idle" and "rtranclp pool_step (graceful_shutdown p) p'"
  shows "pool_owner p' = ReturnedUnjoined \<and> \<not> q_shutdown (pool_queue p') \<and> Exited \<notin> set (pool_workers p') \<and>
    fst (queue_push t (pool_queue p'))"
proof -
  have "Exited \<notin> set (pool_workers p)"
    using exits_drained_reachable [OF assms(1)] open_idle_reachable [OF assms(1,2)] by (auto simp: exits_drained_def)
  then have "left_running (graceful_shutdown p)"
    using open_idle_reachable [OF assms(1,2)] by (simp add: left_running_def graceful_shutdown_def stop_begin_def)
  with assms(3) have "left_running p'" by (induction rule: rtranclp_induct) (auto intro: left_running_step)
  then show ?thesis by (simp add: left_running_def queue_push_def)
qed

section \<open>Witnesses\<close>

definition demo_task :: SubmissionTask where
  "demo_task = \<lparr>task_submission_id = 1, task_request = \<lparr>req_uuid = 1, req_pid = ''7'', req_language = CPP, req_code = ''x''\<rparr>,
     task_reply_channel_id = ''0:1''\<rparr>"

theorem pool_processes_each_task_once_witness:
  "mset (pool_accepted (pool_submit demo_task (new_pool 2))) = {#demo_task#}"
proof -
  have "pool_reachable 2 (pool_submit demo_task (new_pool 2))" by (rule pool_reachable.step [OF pool_reachable.start pool_step.submit])
  from pool_processes_each_task_once [OF this] show ?thesis
    by (simp add: pool_submit_def new_pool_def empty_queue_def queue_push_def numeral_2_eq_2)
qed

theorem stop_drains_and_joins_witness:
  "\<exists>r. worker_run [0, 1, 0, 0, 0, 0] (stop_shutdown (stop_begin (pool_submit demo_task (new_pool 2)))) = Some r \<and>
     all_exited r \<and> pool_processed r = [demo_task]"
proof -
  let ?i = "pool_submit demo_task (new_pool 2)" and ?ws = "[0, 1, 0, 0, 0, 0]"
  let ?p = "stop_shutdown (stop_begin ?i)"
  have i: "pool_reachable 2 ?i" by (rule pool_reachable.step [OF pool_reachable.start pool_step.submit])
  have "pool_owner ?i = Idle" by code_simp
  from pool_reachable.step [OF i pool_step.stop [OF this]] have b: "pool_reachable 2 (stop_begin ?i)" .
  have "pool_owner (stop_begin ?i) = StopShutdown" by code_simp
  from pool_reachable.step [OF b pool_step.shutdown [OF this]] have p: "pool_reachable 2 ?p" .
  have "map_option all_exited (worker_run ?ws ?p) = Some True" by code_simp
  then obtain r where r: "worker_run ?ws ?p = Some r" "all_exited r" by auto
  have none: "\<nexists>w r'. worker_step w r = Some r'"
    using r(2) by (auto simp: worker_step_def all_exited_def list_all_length)
  have owner: "pool_owner ?p = StopJoin" and acc: "pool_accepted ?p = [demo_task]" by code_simp+
  from stop_drains_and_joins [OF p zero_less_numeral, of demo_task] owner
  have "\<forall>ws r. worker_run ws ?p = Some r \<longrightarrow> (\<exists>w r'. worker_step w r = Some r') \<or> mset (pool_processed r) = mset (pool_accepted ?p)"
    by blast
  from this [rule_format, OF r(1)] none acc have "pool_processed r = [demo_task]" by simp
  with r show ?thesis by blast
qed

theorem graceful_shutdown_never_stops_witness:
  "pool_owner (graceful_shutdown (new_pool 2)) = ReturnedUnjoined \<and> \<not> q_shutdown (pool_queue (graceful_shutdown (new_pool 2)))"
proof -
  have "pool_owner (new_pool 2) = Idle" by (simp add: new_pool_def)
  from graceful_shutdown_never_stops [OF pool_reachable.start this rtranclp.rtrancl_refl] show ?thesis by blast
qed

end
