(* ===== verification/FileSystem.thy ===== *)
theory FileSystem
  imports Prelude "HOL-Library.Sublist"
begin

text \<open>
  What the sources use of \<open>std::filesystem\<close> and of file streams. A file system is the list of its
  nodes by absolute path (in the unspecified order in which directories are listed), the set of
  paths that the process may not create, open for writing or remove, and the paths whose status the
  operating system does not tell (a directory on the way that may not be searched, a name that is
  too long), with the text of the exception that this raises.
\<close>

type_synonym path = string

datatype FsNode = Directory | RegularFile string nat

record FileSystem =
  fs_nodes :: "(path \<times> FsNode) list"
  fs_denied :: "path \<Rightarrow> bool"
  fs_status_error :: "path \<Rightarrow> string option"

section \<open>Paths\<close>

text \<open>\<open>operator/\<close>: an absolute right operand replaces the left one.\<close>

definition path_join :: "path \<Rightarrow> path \<Rightarrow> path" where
  "path_join a b =
     (if b \<noteq> [] \<and> hd b = CHR ''/'' then b
      else if a = [] \<or> last a = CHR ''/'' then a @ b
      else a @ ''/'' @ b)"

text \<open>\<open>filename()\<close> and \<open>parent_path()\<close> of a path that does not end in a slash.\<close>

definition filename :: "path \<Rightarrow> string" where
  "filename p = rev (takeWhile (\<lambda>ch. ch \<noteq> CHR ''/'') (rev p))"

definition parent_path :: "path \<Rightarrow> path" where
  "parent_path p =
     (let d = rev (dropWhile (\<lambda>ch. ch \<noteq> CHR ''/'') (rev p)) in if length d \<le> 1 then d else butlast d)"

definition below :: "path \<Rightarrow> path \<Rightarrow> bool" where
  "below dir p \<longleftrightarrow> p = dir \<or> prefix (dir @ ''/'') p"

text \<open>The directories that \<open>create_directories\<close> goes through, from the root down.\<close>

fun ancestors_from :: "path \<Rightarrow> string \<Rightarrow> path list" where
  "ancestors_from done [] = (if done = [] then [] else [done])"
| "ancestors_from done (ch # rest) =
     (if ch = CHR ''/'' \<and> done \<noteq> [] then done # ancestors_from (done @ [ch]) rest
      else ancestors_from (done @ [ch]) rest)"

definition path_ancestors :: "path \<Rightarrow> path list" where
  "path_ancestors p = ancestors_from [] p"

section \<open>Operations\<close>

definition fs_node :: "FileSystem \<Rightarrow> path \<Rightarrow> FsNode option" where
  "fs_node fs p = (if p = ''/'' then Some Directory else map_of (fs_nodes fs) p)"

definition fs_has :: "FileSystem \<Rightarrow> path \<Rightarrow> bool" where
  "fs_has fs p \<longleftrightarrow> fs_node fs p \<noteq> None"

text \<open>\<open>std::filesystem::exists\<close> without an error code: the left summand is the exception.\<close>

definition fs_exists :: "FileSystem \<Rightarrow> path \<Rightarrow> string + bool" where
  "fs_exists fs p = (case fs_status_error fs p of Some what \<Rightarrow> Inl what | None \<Rightarrow> Inr (fs_has fs p))"

text \<open>The condition \<open>exists(a) && exists(b) && ...\<close>, or its negation with \<open>||\<close>: it stops at the first that fails.\<close>

fun all_exist :: "FileSystem \<Rightarrow> path list \<Rightarrow> string + bool" where
  "all_exist fs [] = Inr True"
| "all_exist fs (p # ps) =
     (case fs_exists fs p of
        Inl what \<Rightarrow> Inl what
      | Inr found \<Rightarrow> if found then all_exist fs ps else Inr False)"

definition set_node :: "path \<Rightarrow> FsNode \<Rightarrow> FileSystem \<Rightarrow> FileSystem" where
  "set_node p n fs = fs\<lparr>fs_nodes := AList.update p n (fs_nodes fs)\<rparr>"

text \<open>
  The entries of a directory, and a directory tree in the order in which it is removed: what is in a
  directory comes before the directory. The first argument bounds the depth.
\<close>

definition entries_in :: "path list \<Rightarrow> path \<Rightarrow> path list" where
  "entries_in ps dir =
     remdups (map (\<lambda>p. dir @ ''/'' @ takeWhile (\<lambda>ch. ch \<noteq> CHR ''/'') (drop (Suc (length dir)) p))
       (filter (prefix (dir @ ''/'')) ps))"

fun tree_order :: "nat \<Rightarrow> path list \<Rightarrow> path \<Rightarrow> path list" where
  "tree_order 0 ps dir = [dir]"
| "tree_order (Suc n) ps dir = concat (map (tree_order n ps) (entries_in ps dir)) @ [dir]"

text \<open>
  \<open>remove_all\<close> with an error code that the callers ignore: it stops at the first entry that may not be
  removed, and what it has not reached stays.
\<close>

definition removal_order :: "path \<Rightarrow> FileSystem \<Rightarrow> path list" where
  "removal_order dir fs =
     (let ps = map fst (fs_nodes fs) in
      filter (\<lambda>p. p \<in> set ps) (tree_order (foldr (\<lambda>p n. max (length p) n) ps 0) ps dir))"

definition remove_all :: "path \<Rightarrow> FileSystem \<Rightarrow> FileSystem" where
  "remove_all dir fs =
     (let gone = takeWhile (\<lambda>p. \<not> fs_denied fs p) (removal_order dir fs) in
      fs\<lparr>fs_nodes := filter (\<lambda>(p, n). p \<notin> set gone) (fs_nodes fs)\<rparr>)"

text \<open>True when no error is reported.\<close>

fun make_dirs :: "path list \<Rightarrow> FileSystem \<Rightarrow> bool \<times> FileSystem" where
  "make_dirs [] fs = (True, fs)"
| "make_dirs (d # ds) fs =
     (case fs_node fs d of
        Some Directory \<Rightarrow> make_dirs ds fs
      | Some (RegularFile _ _) \<Rightarrow> (False, fs)
      | None \<Rightarrow> if fs_denied fs d then (False, fs) else make_dirs ds (set_node d Directory fs))"

definition create_directories :: "path \<Rightarrow> FileSystem \<Rightarrow> bool \<times> FileSystem" where
  "create_directories p fs = make_dirs (path_ancestors p) fs"

text \<open>\<open>std::ofstream(path)\<close>, and the text written before it is closed; False when it does not open.\<close>

definition write_file :: "path \<Rightarrow> string \<Rightarrow> FileSystem \<Rightarrow> bool \<times> FileSystem" where
  "write_file p content fs =
     (if fs_denied fs p \<or> fs_node fs (parent_path p) \<noteq> Some Directory \<or> fs_node fs p = Some Directory
      then (False, fs)
      else (True, set_node p (RegularFile content
              (case fs_node fs p of Some (RegularFile _ mode) \<Rightarrow> mode | _ \<Rightarrow> 420)) fs))"

definition chmod :: "path \<Rightarrow> nat \<Rightarrow> FileSystem \<Rightarrow> FileSystem" where
  "chmod p mode fs =
     (case fs_node fs p of Some (RegularFile content _) \<Rightarrow> set_node p (RegularFile content mode) fs | _ \<Rightarrow> fs)"

text \<open>A stream that does not open, or that reads a directory, gives the empty text.\<close>

definition read_file :: "path \<Rightarrow> FileSystem \<Rightarrow> string" where
  "read_file p fs = (case fs_node fs p of Some (RegularFile content _) \<Rightarrow> content | _ \<Rightarrow> [])"

text \<open>\<open>directory_iterator\<close>: the paths directly in a directory, with their kind.\<close>

definition dir_entries :: "path \<Rightarrow> FileSystem \<Rightarrow> (path \<times> FsNode) list" where
  "dir_entries dir fs = filter (\<lambda>(p, n). p \<noteq> dir \<and> parent_path p = dir) (fs_nodes fs)"

section \<open>Facts\<close>

lemma fs_node_set [simp]: "p \<noteq> ''/'' \<Longrightarrow> fs_node (set_node p n fs) p = Some n"
  by (simp add: fs_node_def set_node_def update_conv)

lemma fs_node_set_other: "q \<noteq> p \<Longrightarrow> fs_node (set_node p n fs) q = fs_node fs q"
  by (simp add: fs_node_def set_node_def update_conv)

lemma fs_node_set_has: "fs_has fs q \<Longrightarrow> fs_has (set_node p n fs) q"
  by (cases "q = p") (auto simp: fs_has_def fs_node_def set_node_def update_conv)

lemma fs_exists_Inr: "fs_exists fs p = Inr b \<longleftrightarrow> fs_status_error fs p = None \<and> b = fs_has fs p"
  by (auto simp: fs_exists_def split: option.splits)

lemma all_exist_Inr_True: "all_exist fs ps = Inr True \<longleftrightarrow> (\<forall>p \<in> set ps. fs_exists fs p = Inr True)"
  by (induction ps) (auto split: sum.splits)

lemma tree_order_complete:
  "below dir p \<Longrightarrow> p \<in> set ps \<Longrightarrow> length p \<le> length dir + n \<Longrightarrow> p \<in> set (tree_order n ps dir)"
proof (induction n arbitrary: dir)
  case 0
  then show ?case by (auto simp: below_def dest!: prefix_length_le)
next
  case (Suc n)
  show ?case
  proof (cases "p = dir")
    case False
    with Suc.prems(1) obtain r where p: "p = dir @ ''/'' @ r" by (auto simp: below_def prefix_def)
    let ?t = "takeWhile (\<lambda>ch. ch \<noteq> CHR ''/'') r"
    let ?e = "dir @ ''/'' @ ?t"
    have e: "?e \<in> set (entries_in ps dir)" using Suc.prems(2) unfolding p entries_in_def
      by (auto simp: image_iff intro!: bexI [of _ "dir @ ''/'' @ r"])
    have "below ?e p"
    proof (cases "dropWhile (\<lambda>ch. ch \<noteq> CHR ''/'') r")
      case Nil
      then have "?t = r" by (metis append_Nil2 takeWhile_dropWhile_id)
      then show ?thesis unfolding below_def p by metis
    next
      case (Cons ch cs)
      then have "ch = CHR ''/''" using hd_dropWhile [of "\<lambda>ch. ch \<noteq> CHR ''/''" r] by simp
      with Cons have "r = ?t @ ''/'' @ cs" using takeWhile_dropWhile_id [of "\<lambda>ch. ch \<noteq> CHR ''/''" r] by simp
      then have "p = (?e @ ''/'') @ cs" unfolding p by simp
      then have "prefix (?e @ ''/'') p" by (rule prefixI)
      then show ?thesis unfolding below_def by blast
    qed
    moreover have "length p \<le> length ?e + n" using Suc.prems(3) by simp
    ultimately have "p \<in> set (tree_order n ps ?e)" using Suc.IH Suc.prems(2) by blast
    with e show ?thesis by (auto simp del: append_Cons)
  qed simp
qed

lemma removal_order_complete: "below dir p \<Longrightarrow> p \<in> fst ` set (fs_nodes fs) \<Longrightarrow> p \<in> set (removal_order dir fs)"
proof -
  assume b: "below dir p" and p: "p \<in> fst ` set (fs_nodes fs)"
  have "q \<in> set qs \<Longrightarrow> length q \<le> foldr (\<lambda>p n. max (length p) n) qs 0" for q :: path and qs
    by (induction qs) auto
  from this [of p "map fst (fs_nodes fs)"] p
  show ?thesis using tree_order_complete [OF b, of "map fst (fs_nodes fs)"]
    by (simp add: removal_order_def Let_def trans_le_add2)
qed

lemma tree_order_below: "p \<in> set (tree_order n ps dir) \<Longrightarrow> below dir p"
proof (induction n arbitrary: dir)
  case (Suc n)
  show ?case
  proof (cases "p = dir")
    case False
    with Suc.prems obtain e where e: "e \<in> set (entries_in ps dir)" and p: "p \<in> set (tree_order n ps e)" by auto
    from e have "prefix (dir @ ''/'') e" by (auto simp: entries_in_def)
    moreover have "prefix e p" using Suc.IH [OF p] by (auto simp: below_def intro: append_prefixD)
    ultimately show ?thesis by (auto simp: below_def intro: prefix_order.trans)
  qed (simp add: below_def)
qed (simp add: below_def)

text \<open>What is removed: everything below the directory when nothing there is protected, and nothing outside.\<close>

lemma remove_all_gone:
  assumes "\<forall>q. below dir q \<longrightarrow> \<not> fs_denied fs q" and "below dir p" and "p \<noteq> ''/''"
  shows "\<not> fs_has (remove_all dir fs) p"
proof -
  have all: "takeWhile (\<lambda>p. \<not> fs_denied fs p) (removal_order dir fs) = removal_order dir fs"
    using assms(1) tree_order_below by (auto simp: takeWhile_eq_all_conv removal_order_def Let_def)
  have "p \<notin> fst ` set (fs_nodes (remove_all dir fs))"
    using removal_order_complete [OF assms(2), of fs] unfolding remove_all_def Let_def all by force
  then show ?thesis using assms(3) by (simp add: fs_has_def fs_node_def map_of_eq_None_iff)
qed

lemma remove_all_outside: "\<not> below dir p \<Longrightarrow> fs_node (remove_all dir fs) p = fs_node fs p"
proof -
  assume "\<not> below dir p"
  then have "p \<notin> set (removal_order dir fs)" using tree_order_below by (auto simp: removal_order_def Let_def)
  then have "p \<notin> set (takeWhile (\<lambda>p. \<not> fs_denied fs p) (removal_order dir fs))" by (meson set_takeWhileD)
  moreover have "p \<notin> A \<Longrightarrow> map_of (filter (\<lambda>(q, n). q \<notin> A) xs) p = map_of xs p" for A and xs :: "(path \<times> FsNode) list"
    by (induction xs) auto
  ultimately show ?thesis by (simp add: fs_node_def remove_all_def Let_def)
qed

lemma remove_all_denied [simp]: "fs_denied (remove_all dir fs) = fs_denied fs"
  by (simp add: remove_all_def Let_def)

lemma denied_set [simp]: "fs_denied (set_node p n fs) = fs_denied fs"
  by (simp add: set_node_def)

lemma write_file_reads: "write_file p content fs = (True, fs') \<Longrightarrow> p \<noteq> ''/'' \<Longrightarrow> read_file p fs' = content"
  by (auto simp: write_file_def read_file_def split: if_splits)

lemma write_file_exists: "write_file p content fs = (True, fs') \<Longrightarrow> fs_has fs' p"
proof -
  assume "write_file p content fs = (True, fs')"
  then have "fs' = set_node p (RegularFile content
              (case fs_node fs p of Some (RegularFile _ mode) \<Rightarrow> mode | _ \<Rightarrow> 420)) fs"
    by (auto simp: write_file_def split: if_splits)
  then show ?thesis by (simp add: fs_has_def fs_node_def set_node_def update_conv)
qed

lemma make_dirs_creates:
  "make_dirs ds fs = (True, fs') \<Longrightarrow> ''/'' \<notin> set ds \<Longrightarrow>
     (\<forall>d \<in> set ds. fs_node fs' d = Some Directory) \<and>
     (\<forall>p. fs_node fs p = Some Directory \<longrightarrow> fs_node fs' p = Some Directory)"
proof (induction ds fs rule: make_dirs.induct)
  case (1 fs)
  then show ?case by simp
next
  case (2 d ds fs)
  show ?case
  proof (cases "fs_node fs d")
    case None
    with "2.prems" have denied: "\<not> fs_denied fs d" and run: "make_dirs ds (set_node d Directory fs) = (True, fs')"
      by (auto split: if_splits)
    from "2.IH"(1) [OF None denied run] "2.prems"(2)
    have IH: "\<forall>d \<in> set ds. fs_node fs' d = Some Directory"
      "\<And>p. fs_node (set_node d Directory fs) p = Some Directory \<Longrightarrow> fs_node fs' p = Some Directory"
      by auto
    then have "fs_node fs' d = Some Directory" using "2.prems"(2) fs_node_set [of d Directory fs] by auto
    moreover have "fs_node fs p = Some Directory \<Longrightarrow> fs_node (set_node d Directory fs) p = Some Directory" for p
      using None by (cases "p = d") (simp_all add: fs_node_set_other)
    ultimately show ?thesis using IH by auto
  next
    case (Some n)
    with 2 show ?thesis by (cases n) auto
  qed
qed

end
