(* ===== verification/Json.thy ===== *)
theory Json
  imports Complex_Main "HOL-Library.Char_ord" "HOL-Library.List_Lexorder" Prelude
begin

text \<open>
  The part of the vendored JSON library (\<open>src/json.hpp\<close>) that the server's own code calls:
  the value type, member tests and access, and the typed reads \<open>get<T>\<close> with their
  conversions. An object is an association list; \<open>std::map\<close> keeps its members sorted by
  key, which \<open>obj_insert\<close> does. A C++ exception is the left summand of a result.
\<close>

datatype json =
    JNull
  | JBoolean bool
  | JInteger int
  | JUnsigned nat
  | JFloat rat
  | JString string
  | JArray "json list"
  | JObject "(string \<times> json) list"

datatype json_error = TypeError | OutOfRange

fun is_object :: "json \<Rightarrow> bool" where
  "is_object (JObject _) = True"
| "is_object _ = False"

fun is_string :: "json \<Rightarrow> bool" where
  "is_string (JString _) = True"
| "is_string _ = False"

fun json_contains :: "json \<Rightarrow> string \<Rightarrow> bool" where
  "json_contains (JObject ms) key = (map_of ms key \<noteq> None)"
| "json_contains _ key = False"

fun json_at :: "json \<Rightarrow> string \<Rightarrow> json_error + json" where
  "json_at (JObject ms) key = (case map_of ms key of None \<Rightarrow> Inl OutOfRange | Some v \<Rightarrow> Inr v)"
| "json_at _ key = Inl TypeError"

text \<open>
  Conversion of a \<open>double\<close> truncates towards zero. Out of the target's range C++ leaves the
  result undefined; the model then reduces it to the target's width.
\<close>

definition double_trunc :: "rat \<Rightarrow> int" where
  "double_trunc q = (if 0 \<le> q then \<lfloor>q\<rfloor> else - \<lfloor>- q\<rfloor>)"

text \<open>The overload for arithmetic types other than the library's own number types.\<close>

fun get_arithmetic :: "(int \<Rightarrow> int) \<Rightarrow> json \<Rightarrow> json_error + int" where
  "get_arithmetic conv (JUnsigned n) = Inr (conv (int n))"
| "get_arithmetic conv (JInteger i) = Inr (conv i)"
| "get_arithmetic conv (JFloat q) = Inr (conv (double_trunc q))"
| "get_arithmetic conv (JBoolean b) = Inr (conv (if b then 1 else 0))"
| "get_arithmetic conv _ = Inl TypeError"

definition get_int :: "json \<Rightarrow> json_error + int" where
  "get_int = get_arithmetic wrap32"

definition get_uint32 :: "json \<Rightarrow> json_error + int" where
  "get_uint32 = get_arithmetic uwrap32"

text \<open>
  The overload for the library's own unsigned type (\<open>uint64_t\<close>, also \<open>size_t\<close>): a boolean is
  refused there.
\<close>

fun get_uint64 :: "json \<Rightarrow> json_error + nat" where
  "get_uint64 (JUnsigned n) = Inr n"
| "get_uint64 (JInteger i) = Inr (nat (i mod 2 ^ 64))"
| "get_uint64 (JFloat q) = Inr (nat (double_trunc q mod 2 ^ 64))"
| "get_uint64 _ = Inl TypeError"

fun get_string :: "json \<Rightarrow> json_error + string" where
  "get_string (JString s) = Inr s"
| "get_string _ = Inl TypeError"

fun get_bool :: "json \<Rightarrow> json_error + bool" where
  "get_bool (JBoolean b) = Inr b"
| "get_bool _ = Inl TypeError"

text \<open>Members are kept in increasing key order; an existing key keeps its first value.\<close>

fun obj_insert :: "string \<Rightarrow> json \<Rightarrow> (string \<times> json) list \<Rightarrow> (string \<times> json) list" where
  "obj_insert k v [] = [(k, v)]"
| "obj_insert k v ((k', v') # ms) =
     (if k < k' then (k, v) # (k', v') # ms
      else if k = k' then (k', v') # ms
      else (k', v') # obj_insert k v ms)"

definition json_object :: "(string \<times> json) list \<Rightarrow> json" where
  "json_object ps = JObject (foldl (\<lambda>ms (k, v). obj_insert k v ms) [] ps)"

lemma map_of_obj_insert:
  "map_of (obj_insert k v ms) = (map_of ms)(k \<mapsto> (case map_of ms k of None \<Rightarrow> v | Some w \<Rightarrow> w))"
  if "sorted (keys ms)"
  using that
proof (induction k v ms rule: obj_insert.induct)
  case (1 k v)
  then show ?case by simp
next
  case (2 k v k' v' ms)
  show ?case
  proof (cases "k < k'")
    case True
    with 2 have "map_of ms k = None"
      by (force simp: map_of_eq_None_iff)
    with True show ?thesis by (auto simp: fun_eq_iff)
  next
    case False
    with 2 show ?thesis by (auto simp: fun_eq_iff split: option.splits)
  qed
qed

lemma keys_obj_insert: "set (keys (obj_insert k v ms)) = insert k (set (keys ms))"
  by (induction k v ms rule: obj_insert.induct) auto

lemma sorted_obj_insert: "sorted (keys ms) \<Longrightarrow> sorted (keys (obj_insert k v ms))"
proof (induction k v ms rule: obj_insert.induct)
  case (1 k v)
  then show ?case by simp
next
  case (2 k v k' v' ms)
  then show ?case
    using keys_obj_insert [of k v ms] by (auto simp: not_less less_imp_le)
qed

lemma foldl_obj_insert:
  "sorted (keys ms) \<Longrightarrow>
     sorted (keys (foldl (\<lambda>ms (k, v). obj_insert k v ms) ms ps)) \<and>
     map_of (foldl (\<lambda>ms (k, v). obj_insert k v ms) ms ps) = map_of ps ++ map_of ms"
proof (induction ps arbitrary: ms)
  case Nil
  then show ?case by simp
next
  case (Cons p ps)
  obtain k v where p: "p = (k, v)" by (cases p)
  from Cons.IH [OF sorted_obj_insert [OF Cons.prems, of k v]]
  show ?case using map_of_obj_insert [OF Cons.prems, of k v]
    by (auto simp: p fun_eq_iff map_add_def split: option.splits)
qed

text \<open>A constructed object has the members of its initialiser list.\<close>

lemma json_at_object [simp]:
  "json_at (json_object ps) k = (case map_of ps k of None \<Rightarrow> Inl OutOfRange | Some v \<Rightarrow> Inr v)"
  using foldl_obj_insert [of "[]" ps] by (simp add: json_object_def)

lemma json_contains_object [simp]: "json_contains (json_object ps) k \<longleftrightarrow> k \<in> set (keys ps)"
  using foldl_obj_insert [of "[]" ps]
  by (simp add: json_object_def map_of_eq_None_iff del: set_map) (simp add: image_iff)

lemma is_object_object [simp]: "is_object (json_object ps)"
  by (simp add: json_object_def)

lemma json_contains_at: "json_contains j k \<longleftrightarrow> (\<exists>v. json_at j k = Inr v)"
  by (cases j) (auto split: option.splits)

lemma get_int_range: "get_int j = Inr n \<Longrightarrow> - 2147483648 \<le> n \<and> n \<le> 2147483647"
  using wrap32_range by (cases j) (auto simp: get_int_def)

lemma get_uint32_range: "get_uint32 j = Inr n \<Longrightarrow> 0 \<le> n \<and> n < 4294967296"
  using uwrap32_range by (cases j) (auto simp: get_uint32_def)

end
