(* ===== verification/Config.thy ===== *)
theory Config
  imports Json
begin

text \<open>
  \<open>src/common/Config.h\<close> and \<open>Config.cpp\<close>: the configuration is the parsed JSON document
  (\<open>config_data_\<close>), and every getter reads one member of one section with a default. The
  getters never throw: a missing section, a missing member or a member of the wrong type
  gives the default.
\<close>

section \<open>Reading members\<close>

definition configSection :: "json \<Rightarrow> string \<Rightarrow> json" where
  "configSection config_data name =
     (case json_at config_data name of
        Inr v \<Rightarrow> if json_contains config_data name \<and> is_object v then v else JObject []
      | Inl _ \<Rightarrow> JObject [])"

definition config_get :: "(json \<Rightarrow> json_error + 'a) \<Rightarrow> json \<Rightarrow> string \<Rightarrow> 'a \<Rightarrow> 'a" where
  "config_get rd subObject key defaultValue =
     (if json_contains subObject key
      then (case json_at subObject key of
              Inl _ \<Rightarrow> defaultValue
            | Inr v \<Rightarrow> (case rd v of Inl _ \<Rightarrow> defaultValue | Inr x \<Rightarrow> x))
      else defaultValue)"

text \<open>
  \<open>loadFromFile\<close>: \<open>content\<close> is the file's text, None when it cannot be opened; \<open>parse\<close> is the
  JSON library's parser, None when it throws. A parse error resets the document to null.
\<close>

definition loadFromFile :: "(string \<Rightarrow> json option) \<Rightarrow> string option \<Rightarrow> json \<Rightarrow> bool \<times> json" where
  "loadFromFile parse content config_data =
     (case content of
        None \<Rightarrow> (False, config_data)
      | Some txt \<Rightarrow> (case parse txt of None \<Rightarrow> (False, JNull) | Some j \<Rightarrow> (True, j)))"

section \<open>The getters\<close>

definition getServerHost :: "json \<Rightarrow> string" where
  "getServerHost c = config_get get_string (configSection c ''server'') ''host'' ''0.0.0.0''"

definition getServerPort :: "json \<Rightarrow> int" where
  "getServerPort c = config_get get_int (configSection c ''server'') ''port'' 8080"

definition getConnectionTimeoutMs :: "json \<Rightarrow> int" where
  "getConnectionTimeoutMs c = config_get get_int (configSection c ''server'') ''connection_timeout_ms'' 30000"

definition getWorkerThreadCount :: "json \<Rightarrow> int" where
  "getWorkerThreadCount c = config_get get_int (configSection c ''testing'') ''worker_thread_count'' 4"

definition getMaxConcurrentTests :: "json \<Rightarrow> int" where
  "getMaxConcurrentTests c = config_get get_int (configSection c ''testing'') ''max_concurrent_tests'' 4"

definition getTestDataPath :: "json \<Rightarrow> string" where
  "getTestDataPath c = config_get get_string (configSection c ''testing'') ''test_data_path'' ''./testData''"

definition getResultRetentionSeconds :: "json \<Rightarrow> int" where
  "getResultRetentionSeconds c = config_get get_int (configSection c ''testing'') ''result_retention_seconds'' 600"

definition getMaxStoredResults :: "json \<Rightarrow> int" where
  "getMaxStoredResults c = config_get get_int (configSection c ''testing'') ''max_stored_results'' 1000"

definition getKeepRunnerWorkDir :: "json \<Rightarrow> bool" where
  "getKeepRunnerWorkDir c = config_get get_bool (configSection c ''testing'') ''keep_work_dir'' False"

definition getBufferSize :: "json \<Rightarrow> nat" where
  "getBufferSize c = config_get get_uint64 (configSection c ''performance'') ''buffer_size'' 8192"

definition getLogFilePath :: "json \<Rightarrow> string" where
  "getLogFilePath c = config_get get_string (configSection c ''logging'') ''file_path'' ''application.log''"

definition getLogLevel :: "json \<Rightarrow> string" where
  "getLogLevel c = config_get get_string (configSection c ''logging'') ''level'' ''INFO''"

definition getSjudgeRunUid :: "json \<Rightarrow> int" where
  "getSjudgeRunUid c = config_get get_uint32 (configSection c ''sjudge'') ''run_uid'' 0"

definition getSjudgeRunGid :: "json \<Rightarrow> int" where
  "getSjudgeRunGid c = config_get get_uint32 (configSection c ''sjudge'') ''run_gid'' 0"

definition getSjudgeClearSupplementaryGroups :: "json \<Rightarrow> bool" where
  "getSjudgeClearSupplementaryGroups c =
     config_get get_bool (configSection c ''sjudge'') ''clear_supplementary_groups'' False"

definition getSjudgeEnableSeccomp :: "json \<Rightarrow> bool" where
  "getSjudgeEnableSeccomp c = config_get get_bool (configSection c ''sjudge'') ''enable_seccomp'' False"

definition getSjudgeSeccompDenyNetwork :: "json \<Rightarrow> bool" where
  "getSjudgeSeccompDenyNetwork c =
     config_get get_bool (configSection c ''sjudge'') ''seccomp_deny_network'' True"

definition getSjudgeSeccompDenyProcessSpawn :: "json \<Rightarrow> bool" where
  "getSjudgeSeccompDenyProcessSpawn c =
     config_get get_bool (configSection c ''sjudge'') ''seccomp_deny_process_spawn'' True"

definition getSjudgeCgroupPath :: "json \<Rightarrow> string" where
  "getSjudgeCgroupPath c = config_get get_string (configSection c ''sjudge'') ''cgroup_path'' ''''"

definition getSjudgeCgroupMemoryMaxBytes :: "json \<Rightarrow> nat" where
  "getSjudgeCgroupMemoryMaxBytes c =
     config_get get_uint64 (configSection c ''sjudge'') ''cgroup_memory_max_bytes'' 0"

definition getSjudgeCgroupPidsMax :: "json \<Rightarrow> int" where
  "getSjudgeCgroupPidsMax c = config_get get_uint32 (configSection c ''sjudge'') ''cgroup_pids_max'' 0"

definition getSjudgeCgroupCpuMaxQuotaUs :: "json \<Rightarrow> nat" where
  "getSjudgeCgroupCpuMaxQuotaUs c =
     config_get get_uint64 (configSection c ''sjudge'') ''cgroup_cpu_max_quota_us'' 0"

definition getSjudgeCgroupCpuMaxPeriodUs :: "json \<Rightarrow> nat" where
  "getSjudgeCgroupCpuMaxPeriodUs c =
     config_get get_uint64 (configSection c ''sjudge'') ''cgroup_cpu_max_period_us'' 0"

section \<open>What the getters return\<close>

lemma configSection_object: "is_object (configSection c s)"
  by (auto simp: configSection_def split: sum.splits)

lemma config_get_value:
  "json_at s k = Inr v \<Longrightarrow> rd v = Inr x \<Longrightarrow> config_get rd s k d = x"
  using json_contains_at [of s k] by (auto simp: config_get_def)

lemma config_get_default:
  "(\<And>v. json_at s k = Inr v \<Longrightarrow> \<exists>e. rd v = Inl e) \<Longrightarrow> config_get rd s k d = d"
  by (force simp: config_get_def split: sum.splits)

lemma config_get_cases:
  "config_get rd s k d = d \<or> (\<exists>v. json_at s k = Inr v \<and> rd v = Inr (config_get rd s k d))"
  by (auto simp: config_get_def split: sum.splits)

lemma getServerPort_range: "- 2147483648 \<le> getServerPort c \<and> getServerPort c \<le> 2147483647"
proof -
  consider "getServerPort c = 8080" | v where "get_int v = Inr (getServerPort c)"
    using config_get_cases [of get_int] unfolding getServerPort_def by metis
  then show ?thesis
  proof cases
    case 1
    then show ?thesis by simp
  next
    case 2
    then show ?thesis by (rule get_int_range)
  qed
qed

end
