(* ===== verification/JudgeTypes.thy ===== *)
theory JudgeTypes
  imports Prelude
begin

text \<open>
  \<open>sjudge/JudgeTypes.h\<close> and \<open>sjudge/ConfigValidator.cpp\<close>: the configuration and the result of one
  run of a program under the sandbox, and the result codes. The limits keep their C++ widths:
  \<open>uint32_t\<close> is \<open>32 word\<close>, \<open>uint64_t\<close> is \<open>64 word\<close>.
\<close>

type_synonym uint32 = "32 word"

type_synonym uint64 = "64 word"

definition SJUDGE_UNLIMITED :: uint64 where
  "SJUDGE_UNLIMITED = 0"

record judge_config =
  max_cpu_time_ms :: uint32
  max_real_time_ms :: uint32
  max_memory_bytes :: uint64
  max_stack_bytes :: uint64
  max_output_bytes :: uint64
  cwd :: string
  exe_path :: string
  input_path :: string
  output_path :: string
  error_path :: string
  log_path :: string
  args :: "string list"
  env :: "string list"
  enable_seccomp :: bool
  seccomp_deny_network :: bool
  seccomp_deny_process_spawn :: bool
  run_uid :: uint32
  run_gid :: uint32
  clear_supplementary_groups :: bool
  cgroup_path :: string
  cgroup_memory_max_bytes :: uint64
  cgroup_pids_max :: uint32
  cgroup_cpu_max_quota_us :: uint64
  cgroup_cpu_max_period_us :: uint64

definition default_config :: judge_config where
  "default_config =
     \<lparr>max_cpu_time_ms = 0, max_real_time_ms = 0, max_memory_bytes = 0, max_stack_bytes = 0,
      max_output_bytes = 0, cwd = [], exe_path = ''1'', input_path = ''/dev/stdin'',
      output_path = ''/dev/stdout'', error_path = ''/dev/stderr'', log_path = ''judger_log.txt'',
      args = [], env = [], enable_seccomp = False, seccomp_deny_network = True,
      seccomp_deny_process_spawn = True, run_uid = 0, run_gid = 0,
      clear_supplementary_groups = False, cgroup_path = [], cgroup_memory_max_bytes = 0,
      cgroup_pids_max = 0, cgroup_cpu_max_quota_us = 0, cgroup_cpu_max_period_us = 100000\<rparr>"

text \<open>
  \<open>enum judgeResult_id\<close>: verdicts and infrastructure errors share one enumeration. The
  enumerators are prefixed, since \<open>SYSTEM_ERROR\<close> is also a submission verdict.
\<close>

datatype judgeResult_id =
    J_SUCCESS
  | J_CPU_TIME_LIMIT_EXCEEDED
  | J_REAL_TIME_LIMIT_EXCEEDED
  | J_MEMORY_LIMIT_EXCEEDED
  | J_RUNTIME_ERROR
  | J_SYSTEM_ERROR
  | J_WAIT_FAILED
  | J_INVALID_CONFIG
  | J_FORK_FAILED
  | J_PTHREAD_FAILED
  | J_ROOT_REQUIRED
  | J_LOAD_SECCOMP_FAILED
  | J_SETRLIMIT_FAILED
  | J_CGROUP_FAILED
  | J_DUP2_FAILED
  | J_SETUID_FAILED
  | J_EXECVE_FAILED
  | J_SPJ_ERROR
  | J_COMPILE_FAIL

text \<open>The value of an enumerator: declared from 0 upwards, without gaps.\<close>

fun judge_code :: "judgeResult_id \<Rightarrow> int" where
  "judge_code J_SUCCESS = 0"
| "judge_code J_CPU_TIME_LIMIT_EXCEEDED = 1"
| "judge_code J_REAL_TIME_LIMIT_EXCEEDED = 2"
| "judge_code J_MEMORY_LIMIT_EXCEEDED = 3"
| "judge_code J_RUNTIME_ERROR = 4"
| "judge_code J_SYSTEM_ERROR = 5"
| "judge_code J_WAIT_FAILED = 6"
| "judge_code J_INVALID_CONFIG = 7"
| "judge_code J_FORK_FAILED = 8"
| "judge_code J_PTHREAD_FAILED = 9"
| "judge_code J_ROOT_REQUIRED = 10"
| "judge_code J_LOAD_SECCOMP_FAILED = 11"
| "judge_code J_SETRLIMIT_FAILED = 12"
| "judge_code J_CGROUP_FAILED = 13"
| "judge_code J_DUP2_FAILED = 14"
| "judge_code J_SETUID_FAILED = 15"
| "judge_code J_EXECVE_FAILED = 16"
| "judge_code J_SPJ_ERROR = 17"
| "judge_code J_COMPILE_FAIL = 18"

record judge_result =
  jr_cpu_time_ms :: int
  jr_real_time_ms :: int
  jr_memory_bytes :: int
  jr_signal :: int
  jr_exit_code :: int
  jr_error :: int
  jr_result :: int

definition default_judge_result :: judge_result where
  "default_judge_result =
     \<lparr>jr_cpu_time_ms = 0, jr_real_time_ms = 0, jr_memory_bytes = 0, jr_signal = 0, jr_exit_code = 0,
      jr_error = 0, jr_result = judge_code J_SYSTEM_ERROR\<rparr>"

text \<open>\<open>validate_judge_config\<close>: the boolean it returns and the \<open>error_code\<close> it writes.\<close>

definition validate_judge_config :: "judge_config \<Rightarrow> bool \<times> int" where
  "validate_judge_config config =
     (if exe_path config = [] then (False, judge_code J_INVALID_CONFIG) else (True, 0))"

lemma judge_code_inject [simp]: "judge_code a = judge_code b \<longleftrightarrow> a = b"
  by (cases a; cases b) simp_all

lemma judge_code_range: "0 \<le> judge_code a \<and> judge_code a \<le> 18"
  by (cases a) simp_all

end
