(* ===== verification/ChildSetup.thy ===== *)
theory ChildSetup
  imports JudgeTypes
begin

text \<open>
  \<open>sjudge/ChildSetup.cpp\<close> with \<open>CgroupSupport.cpp\<close>, \<open>Privilege.cpp\<close> and \<open>SeccompPolicy.cpp\<close>: what the
  forked child does before it becomes the user's program. The child is a function of the
  kernel, which decides from the calls made so far whether the next call succeeds; its run is the
  list of calls it makes and, when it gives up, the code it passes to \<open>_exit\<close>.

  The specification is a plan: a straight list of calls, each with the exit code of its failure
  (None for a call whose result nobody looks at). The refinement lemma says that the child is the
  interpreter of that plan, and the safety properties are read off the plan.
\<close>

section \<open>Calls and their composition\<close>

datatype Rlimit = RLIMIT_STACK | RLIMIT_AS | RLIMIT_FSIZE | RLIMIT_CPU

datatype Syscall =
    Chdir string
  | OpenRead string
  | OpenTrunc string
  | Dup2 int
  | CloseFd
  | Setrlimit Rlimit uint64
  | IsDirectory string
  | OpenControl string
  | WriteControl string string
  | Setgroups
  | Setgid uint32
  | Setuid uint32
  | SeccompInit
  | SeccompKill string
  | SeccompLoad
  | Execve string "string list"

type_synonym kernel = "Syscall list \<Rightarrow> Syscall \<Rightarrow> bool"

text \<open>A step appends its calls to the trace and gives the code of \<open>_exit\<close>, None when it returns.\<close>

type_synonym child_step = "Syscall list \<Rightarrow> int option \<times> Syscall list"

definition skip_step :: child_step where
  "skip_step tr = (None, tr)"

definition then_step :: "child_step \<Rightarrow> child_step \<Rightarrow> child_step" where
  "then_step a b tr = (case a tr of (None, tr') \<Rightarrow> b tr' | (Some c, tr') \<Rightarrow> (Some c, tr'))"

text \<open>Calls joined by \<open>&&\<close> (or by \<open>||\<close> on their failures): they stop at the first that fails.\<close>

fun all_succeed :: "kernel \<Rightarrow> Syscall list \<Rightarrow> Syscall list \<Rightarrow> bool \<times> Syscall list" where
  "all_succeed k [] tr = (True, tr)"
| "all_succeed k (c # cs) tr = (if k tr c then all_succeed k cs (tr @ [c]) else (False, tr @ [c]))"

definition or_exit :: "(Syscall list \<Rightarrow> bool \<times> Syscall list) \<Rightarrow> int \<Rightarrow> child_step" where
  "or_exit op code tr = (case op tr of (ok, tr') \<Rightarrow> (if ok then None else Some code, tr'))"

text \<open>A call whose result is not looked at.\<close>

definition ignored :: "Syscall \<Rightarrow> child_step" where
  "ignored c tr = (None, tr @ [c])"

section \<open>The steps\<close>

definition change_working_directory_or_exit :: "kernel \<Rightarrow> judge_config \<Rightarrow> child_step" where
  "change_working_directory_or_exit k config =
     (if cwd config \<noteq> [] then or_exit (all_succeed k [Chdir (cwd config)]) (judge_code J_SYSTEM_ERROR)
      else skip_step)"

definition redirect_fd_or_exit :: "kernel \<Rightarrow> Syscall \<Rightarrow> int \<Rightarrow> child_step" where
  "redirect_fd_or_exit k open_call target_fd =
     then_step (or_exit (all_succeed k [open_call, Dup2 target_fd]) (judge_code J_DUP2_FAILED)) (ignored CloseFd)"

definition redirect_standard_streams_or_exit :: "kernel \<Rightarrow> judge_config \<Rightarrow> child_step" where
  "redirect_standard_streams_or_exit k config =
     then_step (redirect_fd_or_exit k (OpenRead (input_path config)) 0)
       (if output_path config = error_path config then
          then_step (or_exit (all_succeed k [OpenTrunc (output_path config), Dup2 1, Dup2 2]) (judge_code J_DUP2_FAILED))
            (ignored CloseFd)
        else
          then_step (redirect_fd_or_exit k (OpenTrunc (output_path config)) 1)
            (redirect_fd_or_exit k (OpenTrunc (error_path config)) 2))"

definition apply_limit_or_exit :: "kernel \<Rightarrow> Rlimit \<Rightarrow> uint64 \<Rightarrow> child_step" where
  "apply_limit_or_exit k resource value =
     (if value = 0 then skip_step
      else or_exit (all_succeed k [Setrlimit resource value]) (judge_code J_SETRLIMIT_FAILED))"

text \<open>\<open>(config.max_cpu_time_ms + 999) / 1000\<close> is computed in \<open>uint32_t\<close> and then widened.\<close>

definition cpu_seconds :: "judge_config \<Rightarrow> uint64" where
  "cpu_seconds config = ucast ((max_cpu_time_ms config + 999) div 1000)"

definition apply_resource_limits_or_exit :: "kernel \<Rightarrow> judge_config \<Rightarrow> child_step" where
  "apply_resource_limits_or_exit k config =
     then_step (apply_limit_or_exit k RLIMIT_STACK (max_stack_bytes config))
       (then_step (apply_limit_or_exit k RLIMIT_AS (max_memory_bytes config))
         (then_step (apply_limit_or_exit k RLIMIT_FSIZE (max_output_bytes config))
           (if max_cpu_time_ms config > 0 then apply_limit_or_exit k RLIMIT_CPU (cpu_seconds config)
            else skip_step)))"

text \<open>
  \<open>write_control_file\<close>: opening is checked; the text stays in the stream's buffer, so \<open>good()\<close> is
  still true after \<open><<\<close>, and the write itself happens in the destructor, unchecked.
\<close>

definition write_control_file :: "kernel \<Rightarrow> string \<Rightarrow> string \<Rightarrow> Syscall list \<Rightarrow> bool \<times> Syscall list" where
  "write_control_file k path content tr =
     (if k tr (OpenControl path) then (True, tr @ [OpenControl path, WriteControl path content])
      else (False, tr @ [OpenControl path]))"

definition write_optional_limit :: "kernel \<Rightarrow> string \<Rightarrow> string \<Rightarrow> nat \<Rightarrow> Syscall list \<Rightarrow> bool \<times> Syscall list" where
  "write_optional_limit k dir file value tr =
     (if value = 0 then (True, tr) else write_control_file k (dir @ ''/'' @ file) (nat_to_string value) tr)"

definition cpu_period :: "judge_config \<Rightarrow> uint64" where
  "cpu_period config = (if cgroup_cpu_max_period_us config > 0 then cgroup_cpu_max_period_us config else 100000)"

definition cpu_max_text :: "judge_config \<Rightarrow> string" where
  "cpu_max_text config =
     nat_to_string (unat (cgroup_cpu_max_quota_us config)) @ '' '' @ nat_to_string (unat (cpu_period config))"

text \<open>\<open>apply_cgroup_if_configured\<close> followed by \<open>_exit(error_code)\<close> when it fails; \<open>pid\<close> is \<open>getpid()\<close>.\<close>

definition apply_cgroup_or_exit :: "kernel \<Rightarrow> int \<Rightarrow> judge_config \<Rightarrow> child_step" where
  "apply_cgroup_or_exit k pid config =
     (let dir = cgroup_path config; failed = judge_code J_CGROUP_FAILED in
      if dir = [] then skip_step
      else
        then_step (or_exit (all_succeed k [IsDirectory dir]) failed)
          (then_step (or_exit (write_optional_limit k dir ''memory.max'' (unat (cgroup_memory_max_bytes config))) failed)
            (then_step (or_exit (write_optional_limit k dir ''pids.max'' (unat (cgroup_pids_max config))) failed)
              (then_step
                (if cgroup_cpu_max_quota_us config > 0 then
                   or_exit (write_control_file k (dir @ ''/cpu.max'') (cpu_max_text config)) failed
                 else skip_step)
                (or_exit (write_control_file k (dir @ ''/cgroup.procs'') (int_to_string pid)) failed)))))"

definition drop_privileges_or_exit :: "kernel \<Rightarrow> judge_config \<Rightarrow> child_step" where
  "drop_privileges_or_exit k config =
     (let failed = judge_code J_SETUID_FAILED in
      if run_uid config = 0 \<and> run_gid config = 0 \<and> \<not> clear_supplementary_groups config then skip_step
      else
        then_step
          (if clear_supplementary_groups config then or_exit (all_succeed k [Setgroups]) failed else skip_step)
          (then_step
            (if run_gid config \<noteq> 0 then or_exit (all_succeed k [Setgid (run_gid config)]) failed else skip_step)
            (if run_uid config \<noteq> 0 then or_exit (all_succeed k [Setuid (run_uid config)]) failed else skip_step)))"

definition deny_network_syscalls :: "Syscall list" where
  "deny_network_syscalls =
     map SeccompKill
       [''socket'', ''connect'', ''accept'', ''accept4'', ''bind'', ''listen'', ''sendto'', ''recvfrom'',
        ''sendmsg'', ''recvmsg'', ''shutdown'']"

definition deny_process_spawn_syscalls :: "Syscall list" where
  "deny_process_spawn_syscalls = map SeccompKill [''clone'', ''fork'', ''vfork'', ''clone3'']"

text \<open>
  \<open>apply_seccomp_if_enabled\<close>, with \<open>_exit(error_code)\<close> on failure. \<open>seccomp_release\<close> only frees the
  filter's memory and is left out.
\<close>

definition apply_seccomp_policy_or_exit :: "kernel \<Rightarrow> judge_config \<Rightarrow> child_step" where
  "apply_seccomp_policy_or_exit k config =
     (let failed = judge_code J_LOAD_SECCOMP_FAILED in
      if \<not> enable_seccomp config then skip_step
      else
        then_step (or_exit (all_succeed k [SeccompInit]) failed)
          (then_step
            (if seccomp_deny_network config then or_exit (all_succeed k deny_network_syscalls) failed else skip_step)
            (then_step
              (if seccomp_deny_process_spawn config
               then or_exit (all_succeed k deny_process_spawn_syscalls) failed else skip_step)
              (or_exit (all_succeed k [SeccompLoad]) failed))))"

definition build_argv :: "judge_config \<Rightarrow> string list" where
  "build_argv config = (if args config = [] then [exe_path config] else args config)"

text \<open>A successful \<open>execve\<close> does not return; the child's run then ends with no exit code.\<close>

definition exec_program_or_exit :: "kernel \<Rightarrow> judge_config \<Rightarrow> child_step" where
  "exec_program_or_exit k config =
     or_exit (all_succeed k [Execve (exe_path config) (build_argv config)]) (judge_code J_EXECVE_FAILED)"

definition run_child_process_or_exit :: "kernel \<Rightarrow> int \<Rightarrow> judge_config \<Rightarrow> int option \<times> Syscall list" where
  "run_child_process_or_exit k pid config =
     then_step (change_working_directory_or_exit k config)
       (then_step (redirect_standard_streams_or_exit k config)
         (then_step (apply_resource_limits_or_exit k config)
           (then_step (apply_cgroup_or_exit k pid config)
             (then_step (drop_privileges_or_exit k config)
               (then_step (apply_seccomp_policy_or_exit k config)
                 (exec_program_or_exit k config)))))) []"

section \<open>The plan of a child\<close>

type_synonym plan = "(Syscall \<times> int option) list"

fun run_plan :: "kernel \<Rightarrow> plan \<Rightarrow> child_step" where
  "run_plan k [] tr = (None, tr)"
| "run_plan k ((c, None) # ps) tr = run_plan k ps (tr @ [c])"
| "run_plan k ((c, Some code) # ps) tr = (if k tr c then run_plan k ps (tr @ [c]) else (Some code, tr @ [c]))"

definition checked :: "judgeResult_id \<Rightarrow> Syscall list \<Rightarrow> plan" where
  "checked e cs = map (\<lambda>c. (c, Some (judge_code e))) cs"

definition redirect_plan :: "judge_config \<Rightarrow> plan" where
  "redirect_plan config =
     checked J_DUP2_FAILED [OpenRead (input_path config), Dup2 0] @ [(CloseFd, None)] @
     (if output_path config = error_path config then
        checked J_DUP2_FAILED [OpenTrunc (output_path config), Dup2 1, Dup2 2] @ [(CloseFd, None)]
      else
        checked J_DUP2_FAILED [OpenTrunc (output_path config), Dup2 1] @ [(CloseFd, None)] @
        checked J_DUP2_FAILED [OpenTrunc (error_path config), Dup2 2] @ [(CloseFd, None)])"

definition limit_plan :: "judge_config \<Rightarrow> plan" where
  "limit_plan config =
     checked J_SETRLIMIT_FAILED
       (map (\<lambda>(r, v). Setrlimit r v)
         (filter (\<lambda>(r, v). v \<noteq> 0)
           [(RLIMIT_STACK, max_stack_bytes config), (RLIMIT_AS, max_memory_bytes config),
            (RLIMIT_FSIZE, max_output_bytes config),
            (RLIMIT_CPU, if max_cpu_time_ms config > 0 then cpu_seconds config else 0)]))"

definition control_plan :: "string \<Rightarrow> string \<Rightarrow> plan" where
  "control_plan path content = checked J_CGROUP_FAILED [OpenControl path] @ [(WriteControl path content, None)]"

definition cgroup_plan :: "int \<Rightarrow> judge_config \<Rightarrow> plan" where
  "cgroup_plan pid config =
     (let dir = cgroup_path config in
      if dir = [] then []
      else
        checked J_CGROUP_FAILED [IsDirectory dir] @
        (if cgroup_memory_max_bytes config = 0 then []
         else control_plan (dir @ ''/memory.max'') (nat_to_string (unat (cgroup_memory_max_bytes config)))) @
        (if cgroup_pids_max config = 0 then []
         else control_plan (dir @ ''/pids.max'') (nat_to_string (unat (cgroup_pids_max config)))) @
        (if cgroup_cpu_max_quota_us config = 0 then [] else control_plan (dir @ ''/cpu.max'') (cpu_max_text config)) @
        control_plan (dir @ ''/cgroup.procs'') (int_to_string pid))"

definition privilege_plan :: "judge_config \<Rightarrow> plan" where
  "privilege_plan config =
     checked J_SETUID_FAILED
       ((if clear_supplementary_groups config then [Setgroups] else []) @
        (if run_gid config \<noteq> 0 then [Setgid (run_gid config)] else []) @
        (if run_uid config \<noteq> 0 then [Setuid (run_uid config)] else []))"

definition seccomp_plan :: "judge_config \<Rightarrow> plan" where
  "seccomp_plan config =
     (if enable_seccomp config then
        checked J_LOAD_SECCOMP_FAILED [SeccompInit] @
        checked J_LOAD_SECCOMP_FAILED (if seccomp_deny_network config then deny_network_syscalls else []) @
        checked J_LOAD_SECCOMP_FAILED (if seccomp_deny_process_spawn config then deny_process_spawn_syscalls else []) @
        checked J_LOAD_SECCOMP_FAILED [SeccompLoad]
      else [])"

definition setup_plan :: "int \<Rightarrow> judge_config \<Rightarrow> plan" where
  "setup_plan pid config =
     checked J_SYSTEM_ERROR (if cwd config \<noteq> [] then [Chdir (cwd config)] else []) @
     redirect_plan config @ limit_plan config @ cgroup_plan pid config @ privilege_plan config @
     seccomp_plan config"

definition child_plan :: "int \<Rightarrow> judge_config \<Rightarrow> plan" where
  "child_plan pid config =
     setup_plan pid config @ checked J_EXECVE_FAILED [Execve (exe_path config) (build_argv config)]"

section \<open>The child interprets its plan\<close>

lemma run_plan_append: "run_plan k (p @ q) = then_step (run_plan k p) (run_plan k q)"
proof
  fix tr
  show "run_plan k (p @ q) tr = then_step (run_plan k p) (run_plan k q) tr"
    by (induction k p tr rule: run_plan.induct) (simp_all add: then_step_def)
qed

lemma run_plan_Nil: "run_plan k [] = skip_step"
  by (simp add: fun_eq_iff skip_step_def)

lemma skip_then [simp]: "then_step skip_step a = a" "then_step a skip_step = a"
  by (auto simp: fun_eq_iff then_step_def skip_step_def split: prod.splits option.splits)

lemma then_assoc: "then_step (then_step a b) c = then_step a (then_step b c)"
  by (auto simp: fun_eq_iff then_step_def split: prod.splits option.splits)

lemma run_plan_checked: "run_plan k (checked e cs) = or_exit (all_succeed k cs) (judge_code e)"
proof
  fix tr
  show "run_plan k (checked e cs) tr = or_exit (all_succeed k cs) (judge_code e) tr"
    by (induction cs arbitrary: tr) (simp_all add: checked_def or_exit_def)
qed

lemma run_plan_ignored: "run_plan k ((c, None) # p) = then_step (ignored c) (run_plan k p)"
  by (simp add: fun_eq_iff ignored_def then_step_def)

lemma or_exit_control: "or_exit (write_control_file k path content) (judge_code J_CGROUP_FAILED) = run_plan k (control_plan path content)"
  by (simp add: fun_eq_iff or_exit_def write_control_file_def control_plan_def checked_def)

lemma or_exit_optional:
  "or_exit (write_optional_limit k dir file v) (judge_code J_CGROUP_FAILED) =
     run_plan k (if v = 0 then [] else control_plan (dir @ ''/'' @ file) (nat_to_string v))"
  using or_exit_control [of k "dir @ ''/'' @ file" "nat_to_string v"]
  by (simp add: fun_eq_iff or_exit_def write_optional_limit_def)

lemmas plan_simps = run_plan_append run_plan_Nil run_plan_checked run_plan_ignored then_assoc

lemma all_succeed_Nil: "or_exit (all_succeed k []) e = skip_step"
  by (simp add: fun_eq_iff or_exit_def skip_step_def)

lemma checked_append: "checked e (cs @ ds) = checked e cs @ checked e ds"
  by (simp add: checked_def)

lemma steps_are_plans:
  "change_working_directory_or_exit k config =
     run_plan k (checked J_SYSTEM_ERROR (if cwd config \<noteq> [] then [Chdir (cwd config)] else []))"
  "redirect_standard_streams_or_exit k config = run_plan k (redirect_plan config)"
  "exec_program_or_exit k config =
     run_plan k (checked J_EXECVE_FAILED [Execve (exe_path config) (build_argv config)])"
  by (simp_all add: change_working_directory_or_exit_def redirect_standard_streams_or_exit_def
      redirect_plan_def redirect_fd_or_exit_def exec_program_or_exit_def plan_simps all_succeed_Nil)

lemma apply_limit_is_plan:
  "apply_limit_or_exit k r v = run_plan k (checked J_SETRLIMIT_FAILED (if v = 0 then [] else [Setrlimit r v]))"
  by (simp add: apply_limit_or_exit_def plan_simps all_succeed_Nil)

lemma limits_are_plan: "apply_resource_limits_or_exit k config = run_plan k (limit_plan config)"
proof -
  have "limit_plan config =
      checked J_SETRLIMIT_FAILED (if max_stack_bytes config = 0 then [] else [Setrlimit RLIMIT_STACK (max_stack_bytes config)]) @
      checked J_SETRLIMIT_FAILED (if max_memory_bytes config = 0 then [] else [Setrlimit RLIMIT_AS (max_memory_bytes config)]) @
      checked J_SETRLIMIT_FAILED (if max_output_bytes config = 0 then [] else [Setrlimit RLIMIT_FSIZE (max_output_bytes config)]) @
      (if max_cpu_time_ms config > 0
       then checked J_SETRLIMIT_FAILED (if cpu_seconds config = 0 then [] else [Setrlimit RLIMIT_CPU (cpu_seconds config)])
       else [])"
    by (simp add: limit_plan_def checked_def)
  then show ?thesis
    by (simp add: apply_resource_limits_or_exit_def apply_limit_is_plan run_plan_append run_plan_Nil)
qed

lemma cgroup_is_plan: "apply_cgroup_or_exit k pid config = run_plan k (cgroup_plan pid config)"
  by (simp add: apply_cgroup_or_exit_def cgroup_plan_def Let_def or_exit_control or_exit_optional
      run_plan_append run_plan_Nil run_plan_checked [symmetric] word_gt_0 unat_eq_0 del: judge_code.simps)

lemma privileges_are_plan: "drop_privileges_or_exit k config = run_plan k (privilege_plan config)"
  by (auto simp: drop_privileges_or_exit_def privilege_plan_def Let_def checked_append plan_simps all_succeed_Nil)

lemma seccomp_is_plan: "apply_seccomp_policy_or_exit k config = run_plan k (seccomp_plan config)"
  by (simp add: apply_seccomp_policy_or_exit_def seccomp_plan_def Let_def checked_append plan_simps all_succeed_Nil)

lemma child_is_plan: "run_child_process_or_exit k pid config = run_plan k (child_plan pid config) []"
  by (simp add: run_child_process_or_exit_def child_plan_def setup_plan_def steps_are_plans limits_are_plan
      cgroup_is_plan privileges_are_plan seccomp_is_plan run_plan_append then_assoc del: append_assoc)

section \<open>What a run looks like\<close>

text \<open>A run is a prefix of the plan that stops right after the first checked call that failed.\<close>

definition plan_ok :: "kernel \<Rightarrow> plan \<Rightarrow> Syscall list \<Rightarrow> nat \<Rightarrow> bool" where
  "plan_ok k p tr n \<longleftrightarrow> (\<forall>i < n. snd (p ! i) \<noteq> None \<longrightarrow> k (tr @ map fst (take i p)) (fst (p ! i)))"

lemma plan_ok_Cons:
  "plan_ok k (x # p) tr (Suc n) \<longleftrightarrow> (snd x \<noteq> None \<longrightarrow> k tr (fst x)) \<and> plan_ok k p (tr @ [fst x]) n"
proof -
  have "(\<forall>i < Suc n. Q i) \<longleftrightarrow> Q 0 \<and> (\<forall>i < n. Q (Suc i))" for Q
    using less_Suc_eq_0_disj by auto
  then show ?thesis by (simp add: plan_ok_def)
qed

lemma plan_ok_le: "plan_ok k p tr n \<Longrightarrow> m \<le> n \<Longrightarrow> plan_ok k p tr m"
  unfolding plan_ok_def by (meson less_le_trans)

lemma run_plan_completed: "run_plan k p tr = (None, tr') \<longleftrightarrow> plan_ok k p tr (length p) \<and> tr' = tr @ map fst p"
proof (induction k p tr rule: run_plan.induct)
  case (1 k tr)
  then show ?case by (auto simp: plan_ok_def)
next
  case (2 k c ps tr)
  then show ?case by (simp add: plan_ok_Cons)
next
  case (3 k c code ps tr)
  then show ?case by (simp add: plan_ok_Cons)
qed

lemma run_plan_failed:
  "run_plan k p tr = (Some code, tr') \<longleftrightarrow>
     (\<exists>n < length p. plan_ok k p tr n \<and> snd (p ! n) = Some code \<and>
        \<not> k (tr @ map fst (take n p)) (fst (p ! n)) \<and> tr' = tr @ map fst (take (Suc n) p))"
  (is "?L k p tr \<longleftrightarrow> (\<exists>n < length p. ?R k p tr n)")
proof (induction k p tr rule: run_plan.induct)
  case (1 k tr)
  then show ?case by simp
next
  case (2 k c ps tr)
  have "(\<exists>n < length ((c, None) # ps). ?R k ((c, None) # ps) tr n) \<longleftrightarrow>
      ?R k ((c, None) # ps) tr 0 \<or> (\<exists>n < length ps. ?R k ((c, None) # ps) tr (Suc n))"
    using less_Suc_eq_0_disj by auto
  with 2 show ?case by (simp add: plan_ok_Cons)
next
  case (3 k c e ps tr)
  have "(\<exists>n < length ((c, Some e) # ps). ?R k ((c, Some e) # ps) tr n) \<longleftrightarrow>
      ?R k ((c, Some e) # ps) tr 0 \<or> (\<exists>n < length ps. ?R k ((c, Some e) # ps) tr (Suc n))"
    using less_Suc_eq_0_disj by auto
  moreover have "plan_ok k ((c, Some e) # ps) tr 0" by (simp add: plan_ok_def)
  ultimately show ?case using 3 by (cases "k tr c") (auto simp: plan_ok_Cons)
qed

text \<open>
  The child performs the plan of its configuration: chdir, the redirections, the resource
  limits, the cgroup, the privilege drop (supplementary groups, gid, uid), the system-call filter,
  then \<open>execve\<close>, in that order and each only when configured. It starts the program exactly when every
  checked call succeeds; otherwise it stops at the first checked call that fails and exits with
  the code of that call.
\<close>

theorem child_follows_plan:
  "(run_child_process_or_exit k pid config = (None, tr) \<longleftrightarrow>
      plan_ok k (child_plan pid config) [] (length (child_plan pid config)) \<and> tr = map fst (child_plan pid config)) \<and>
   (run_child_process_or_exit k pid config = (Some code, tr) \<longleftrightarrow>
      (\<exists>n < length (child_plan pid config).
         plan_ok k (child_plan pid config) [] n \<and> snd (child_plan pid config ! n) = Some code \<and>
         \<not> k (map fst (take n (child_plan pid config))) (fst (child_plan pid config ! n)) \<and>
         tr = map fst (take (Suc n) (child_plan pid config))))"
  by (simp add: child_is_plan run_plan_completed run_plan_failed)

lemma child_trace_prefix:
  "run_child_process_or_exit k pid config = (r, tr) \<Longrightarrow> \<exists>n. tr = map fst (take n (child_plan pid config))"
proof (cases r)
  case None
  assume "run_child_process_or_exit k pid config = (r, tr)"
  with None have "tr = map fst (take (length (child_plan pid config)) (child_plan pid config))"
    by (simp add: child_is_plan run_plan_completed)
  then show ?thesis by blast
next
  case (Some code)
  assume "run_child_process_or_exit k pid config = (r, tr)"
  with Some show ?thesis by (auto simp: child_is_plan run_plan_failed)
qed

section \<open>Safety of the started program\<close>

lemma fst_checked [simp]: "map fst (checked e cs) = cs"
  by (simp add: checked_def comp_def)

lemma set_checked [simp]: "set (checked e cs) = (\<lambda>c. (c, Some (judge_code e))) ` set cs"
  by (auto simp: checked_def)

lemma fst_control [simp]: "map fst (control_plan path content) = [OpenControl path, WriteControl path content]"
  by (simp add: control_plan_def)

text \<open>The calls that a configuration demands before the program starts.\<close>

definition control_calls :: "string \<Rightarrow> string \<Rightarrow> Syscall set" where
  "control_calls path content = {OpenControl path, WriteControl path content}"

definition confined :: "int \<Rightarrow> judge_config \<Rightarrow> Syscall set \<Rightarrow> bool" where
  "confined pid config calls \<longleftrightarrow>
     {OpenRead (input_path config), Dup2 0, OpenTrunc (output_path config), Dup2 1,
      OpenTrunc (error_path config), Dup2 2} \<subseteq> calls \<and>
     (cwd config \<noteq> [] \<longrightarrow> Chdir (cwd config) \<in> calls) \<and>
     (max_stack_bytes config \<noteq> 0 \<longrightarrow> Setrlimit RLIMIT_STACK (max_stack_bytes config) \<in> calls) \<and>
     (max_memory_bytes config \<noteq> 0 \<longrightarrow> Setrlimit RLIMIT_AS (max_memory_bytes config) \<in> calls) \<and>
     (max_output_bytes config \<noteq> 0 \<longrightarrow> Setrlimit RLIMIT_FSIZE (max_output_bytes config) \<in> calls) \<and>
     (max_cpu_time_ms config \<noteq> 0 \<and> cpu_seconds config \<noteq> 0 \<longrightarrow> Setrlimit RLIMIT_CPU (cpu_seconds config) \<in> calls) \<and>
     (cgroup_path config \<noteq> [] \<longrightarrow>
        control_calls (cgroup_path config @ ''/cgroup.procs'') (int_to_string pid) \<subseteq> calls \<and>
        (cgroup_memory_max_bytes config \<noteq> 0 \<longrightarrow>
           control_calls (cgroup_path config @ ''/memory.max'') (nat_to_string (unat (cgroup_memory_max_bytes config))) \<subseteq> calls) \<and>
        (cgroup_pids_max config \<noteq> 0 \<longrightarrow>
           control_calls (cgroup_path config @ ''/pids.max'') (nat_to_string (unat (cgroup_pids_max config))) \<subseteq> calls) \<and>
        (cgroup_cpu_max_quota_us config \<noteq> 0 \<longrightarrow>
           control_calls (cgroup_path config @ ''/cpu.max'') (cpu_max_text config) \<subseteq> calls)) \<and>
     (clear_supplementary_groups config \<longrightarrow> Setgroups \<in> calls) \<and>
     (run_gid config \<noteq> 0 \<longrightarrow> Setgid (run_gid config) \<in> calls) \<and>
     (run_uid config \<noteq> 0 \<longrightarrow> Setuid (run_uid config) \<in> calls) \<and>
     (enable_seccomp config \<longrightarrow> SeccompLoad \<in> calls \<and>
        (seccomp_deny_network config \<longrightarrow> set deny_network_syscalls \<subseteq> calls) \<and>
        (seccomp_deny_process_spawn config \<longrightarrow> set deny_process_spawn_syscalls \<subseteq> calls))"

lemma map_fst_cgroup:
  assumes "cgroup_path config \<noteq> []"
  shows "control_calls (cgroup_path config @ ''/cgroup.procs'') (int_to_string pid) \<subseteq> fst ` set (cgroup_plan pid config)"
    "cgroup_memory_max_bytes config \<noteq> 0 \<Longrightarrow>
       control_calls (cgroup_path config @ ''/memory.max'') (nat_to_string (unat (cgroup_memory_max_bytes config)))
         \<subseteq> fst ` set (cgroup_plan pid config)"
    "cgroup_pids_max config \<noteq> 0 \<Longrightarrow>
       control_calls (cgroup_path config @ ''/pids.max'') (nat_to_string (unat (cgroup_pids_max config)))
         \<subseteq> fst ` set (cgroup_plan pid config)"
    "cgroup_cpu_max_quota_us config \<noteq> 0 \<Longrightarrow>
       control_calls (cgroup_path config @ ''/cpu.max'') (cpu_max_text config) \<subseteq> fst ` set (cgroup_plan pid config)"
  using assms by (simp_all add: cgroup_plan_def Let_def control_plan_def control_calls_def image_Un)

lemma confined_plan: "confined pid config (set (map fst (setup_plan pid config)))"
proof -
  let ?C = "set (map fst (setup_plan pid config))"
  have "{OpenRead (input_path config), Dup2 0, OpenTrunc (output_path config), Dup2 1,
      OpenTrunc (error_path config), Dup2 2} \<subseteq> ?C"
    by (simp add: setup_plan_def redirect_plan_def)
  moreover have sub: "fst ` set (cgroup_plan pid config) \<subseteq> ?C" by (auto simp: setup_plan_def image_Un)
  have "cgroup_path config \<noteq> [] \<longrightarrow>
        control_calls (cgroup_path config @ ''/cgroup.procs'') (int_to_string pid) \<subseteq> ?C \<and>
        (cgroup_memory_max_bytes config \<noteq> 0 \<longrightarrow>
           control_calls (cgroup_path config @ ''/memory.max'') (nat_to_string (unat (cgroup_memory_max_bytes config))) \<subseteq> ?C) \<and>
        (cgroup_pids_max config \<noteq> 0 \<longrightarrow>
           control_calls (cgroup_path config @ ''/pids.max'') (nat_to_string (unat (cgroup_pids_max config))) \<subseteq> ?C) \<and>
        (cgroup_cpu_max_quota_us config \<noteq> 0 \<longrightarrow>
           control_calls (cgroup_path config @ ''/cpu.max'') (cpu_max_text config) \<subseteq> ?C)"
    by (intro impI conjI; rule subset_trans [OF _ sub]; rule map_fst_cgroup; assumption)
  moreover have "max_stack_bytes config \<noteq> 0 \<longrightarrow> Setrlimit RLIMIT_STACK (max_stack_bytes config) \<in> ?C"
    "max_memory_bytes config \<noteq> 0 \<longrightarrow> Setrlimit RLIMIT_AS (max_memory_bytes config) \<in> ?C"
    "max_output_bytes config \<noteq> 0 \<longrightarrow> Setrlimit RLIMIT_FSIZE (max_output_bytes config) \<in> ?C"
    "max_cpu_time_ms config \<noteq> 0 \<and> cpu_seconds config \<noteq> 0 \<longrightarrow> Setrlimit RLIMIT_CPU (cpu_seconds config) \<in> ?C"
    by (simp_all add: setup_plan_def limit_plan_def word_gt_0)
  moreover have "clear_supplementary_groups config \<longrightarrow> Setgroups \<in> ?C"
    "run_gid config \<noteq> 0 \<longrightarrow> Setgid (run_gid config) \<in> ?C"
    "run_uid config \<noteq> 0 \<longrightarrow> Setuid (run_uid config) \<in> ?C"
    by (simp_all add: setup_plan_def privilege_plan_def)
  moreover have "enable_seccomp config \<longrightarrow> SeccompLoad \<in> ?C \<and>
        (seccomp_deny_network config \<longrightarrow> set deny_network_syscalls \<subseteq> ?C) \<and>
        (seccomp_deny_process_spawn config \<longrightarrow> set deny_process_spawn_syscalls \<subseteq> ?C)"
    by (auto simp: setup_plan_def seccomp_plan_def image_iff)
  moreover have "cwd config \<noteq> [] \<longrightarrow> Chdir (cwd config) \<in> ?C"
    by (simp add: setup_plan_def)
  ultimately show ?thesis unfolding confined_def by (intro conjI)
qed

text \<open>The phase of a child's preparation a call belongs to.\<close>

fun phase :: "Syscall \<Rightarrow> nat" where
  "phase (Chdir _) = 0"
| "phase (OpenRead _) = 1"
| "phase (OpenTrunc _) = 1"
| "phase (Dup2 _) = 1"
| "phase CloseFd = 1"
| "phase (Setrlimit _ _) = 2"
| "phase (IsDirectory _) = 3"
| "phase (OpenControl _) = 3"
| "phase (WriteControl _ _) = 3"
| "phase Setgroups = 4"
| "phase (Setgid _) = 5"
| "phase (Setuid _) = 6"
| "phase SeccompInit = 7"
| "phase (SeccompKill _) = 7"
| "phase SeccompLoad = 7"
| "phase (Execve _ _) = 8"

abbreviation in_phases :: "nat set \<Rightarrow> plan \<Rightarrow> bool" where
  "in_phases N p \<equiv> list_all (\<lambda>x. phase (fst x) \<in> N) p"

lemma plan_phases:
  "in_phases {1} (redirect_plan config)"
  "in_phases {2} (limit_plan config)"
  "in_phases {3} (cgroup_plan pid config)"
  "in_phases {4, 5, 6} (privilege_plan config)"
  "in_phases {7} (seccomp_plan config)"
  by (simp_all add: redirect_plan_def limit_plan_def cgroup_plan_def control_plan_def privilege_plan_def
      seccomp_plan_def deny_network_syscalls_def deny_process_spawn_syscalls_def checked_def Let_def)

lemma in_phasesD: "in_phases N p \<Longrightarrow> c \<in> set (map fst p) \<Longrightarrow> phase c \<in> N"
  by (auto simp: list_all_iff)

lemmas plan_phaseD = plan_phases [THEN in_phasesD]

fun is_exec :: "Syscall \<Rightarrow> bool" where
  "is_exec (Execve _ _) = True"
| "is_exec _ = False"

lemma is_exec_phase: "is_exec c \<longleftrightarrow> phase c = 8"
  by (cases c) simp_all

lemma in_phases_mono: "in_phases N p \<Longrightarrow> N \<subseteq> M \<Longrightarrow> in_phases M p"
  by (auto simp: list_all_iff)

lemma setup_phase: "c \<in> set (map fst (setup_plan pid config)) \<Longrightarrow> phase c < 8"
proof -
  have "in_phases {..<8} (setup_plan pid config)"
    unfolding setup_plan_def list_all_append
    using plan_phases(1,2,4,5) [of config, THEN in_phases_mono, of "{..<8}"] plan_phases(3) [of pid config, THEN in_phases_mono, of "{..<8}"]
    by (simp add: checked_def)
  then show "c \<in> set (map fst (setup_plan pid config)) \<Longrightarrow> phase c < 8"
    using in_phasesD by fastforce
qed

lemma setup_no_exec: "c \<in> set (map fst (setup_plan pid config)) \<Longrightarrow> \<not> is_exec c"
  using setup_phase by (fastforce simp: is_exec_phase)

text \<open>
  The calls whose result the code looks at: all but closing a descriptor that has been duplicated and
  the write to a control file, which happens in the destructor of a stream.
\<close>

fun result_seen :: "Syscall \<Rightarrow> bool" where
  "result_seen CloseFd = False"
| "result_seen (WriteControl _ _) = False"
| "result_seen _ = True"

definition seen_checked :: "plan \<Rightarrow> bool" where
  "seen_checked p \<longleftrightarrow> list_all (\<lambda>(c, e). result_seen c \<longrightarrow> e \<noteq> None) p"

lemma seen_checked_simps [simp]:
  "seen_checked (p @ q) \<longleftrightarrow> seen_checked p \<and> seen_checked q" "seen_checked (checked e cs)" "seen_checked []"
  "seen_checked ((c, code) # p) \<longleftrightarrow> (result_seen c \<longrightarrow> code \<noteq> None) \<and> seen_checked p"
  by (auto simp: seen_checked_def list_all_iff checked_def)

lemma setup_seen_checked: "seen_checked (setup_plan pid config)"
  by (simp add: setup_plan_def redirect_plan_def limit_plan_def cgroup_plan_def control_plan_def privilege_plan_def
      seccomp_plan_def Let_def)

text \<open>A run that gets past a part of the plan has seen its calls succeed.\<close>

lemma run_past_ok:
  assumes "run_plan k (p @ q) [] = (r, tr)" "length p < length tr" "seen_checked p"
  shows "\<forall>i < length p. result_seen (map fst p ! i) \<longrightarrow> k (take i (map fst p)) (map fst p ! i)"
proof -
  have "plan_ok k (p @ q) [] (length p)"
  proof (cases r)
    case None
    with assms(1) have "plan_ok k (p @ q) [] (length (p @ q))" by (simp add: run_plan_completed)
    then show ?thesis by (rule plan_ok_le) simp
  next
    case (Some code)
    with assms(1) obtain n where "n < length (p @ q)" "plan_ok k (p @ q) [] n" "tr = map fst (take (Suc n) (p @ q))"
      by (auto simp: run_plan_failed)
    moreover from this assms(2) have "length p \<le> n" by simp
    ultimately show ?thesis using plan_ok_le by blast
  qed
  then have "snd (p ! i) \<noteq> None \<longrightarrow> k (map fst (take i p)) (fst (p ! i))" if "i < length p" for i
    using that by (auto simp: plan_ok_def nth_append)
  moreover have "result_seen (fst (p ! i)) \<longrightarrow> snd (p ! i) \<noteq> None" if "i < length p" for i
    using assms(3) that by (simp add: seen_checked_def list_all_length case_prod_unfold)
  ultimately show ?thesis by (simp add: take_map)
qed



text \<open>Privileges are dropped last: what needs them comes before \<open>setuid\<close>.\<close>

definition after_setuid :: "Syscall \<Rightarrow> bool" where
  "after_setuid c \<longleftrightarrow> phase c = 7 \<or> phase c = 8"

fun is_setuid :: "Syscall \<Rightarrow> bool" where
  "is_setuid (Setuid _) = True"
| "is_setuid _ = False"

text \<open>The part of the plan before \<open>setuid\<close> and the part after it.\<close>

definition plan_before_setuid :: "int \<Rightarrow> judge_config \<Rightarrow> Syscall list" where
  "plan_before_setuid pid config =
     map fst (checked J_SYSTEM_ERROR (if cwd config \<noteq> [] then [Chdir (cwd config)] else []) @
       redirect_plan config @ limit_plan config @ cgroup_plan pid config) @
     (if clear_supplementary_groups config then [Setgroups] else []) @
     (if run_gid config \<noteq> 0 then [Setgid (run_gid config)] else [])"

lemma plan_split_setuid:
  "map fst (child_plan pid config) =
     plan_before_setuid pid config @ (if run_uid config \<noteq> 0 then [Setuid (run_uid config)] else []) @
     map fst (seccomp_plan config) @ [Execve (exe_path config) (build_argv config)]"
  by (simp add: child_plan_def setup_plan_def plan_before_setuid_def privilege_plan_def)

lemma before_no_setuid: "c \<in> set (plan_before_setuid pid config) \<Longrightarrow> \<not> is_setuid c"
proof -
  define p where "p = checked J_SYSTEM_ERROR (if cwd config \<noteq> [] then [Chdir (cwd config)] else []) @
       redirect_plan config @ limit_plan config @ cgroup_plan pid config"
  have "in_phases {..<6} p"
    unfolding p_def list_all_append
    using plan_phases(1,2) [of config, THEN in_phases_mono, of "{..<6}"] plan_phases(3) [of pid config, THEN in_phases_mono, of "{..<6}"]
    by (simp add: checked_def)
  moreover assume "c \<in> set (plan_before_setuid pid config)"
  then have "c \<in> set (map fst p) \<or> phase c = 4 \<or> phase c = 5"
    unfolding plan_before_setuid_def p_def [symmetric] set_append Un_iff by (auto split: if_splits)
  ultimately have "phase c < 6" using in_phasesD by fastforce
  then show ?thesis by (cases c) simp_all
qed

lemma seccomp_after_setuid: "c \<in> set (map fst (seccomp_plan config)) \<Longrightarrow> after_setuid c"
  using plan_phaseD(5) by (auto simp: after_setuid_def)

text \<open>
  C6. The child changes its user id at most once and last: after \<open>setuid\<close> it only loads the
  system-call filter and executes the program, so no resource limit, cgroup file, group change
  or redirection is attempted with the dropped privileges, and the groups are dropped before.
\<close>

theorem privileges_dropped_last:
  assumes "run_child_process_or_exit k pid config = (r, before @ Setuid uid # rest)"
  shows "uid = run_uid config \<and> (\<forall>c \<in> set before. \<not> is_setuid c) \<and> (\<forall>c \<in> set rest. after_setuid c) \<and>
    before = plan_before_setuid pid config"
proof -
  let ?B = "plan_before_setuid pid config"
    and ?A = "map fst (seccomp_plan config) @ [Execve (exe_path config) (build_argv config)]"
  define P where "P = map fst (child_plan pid config)"
  from child_trace_prefix [OF assms] obtain n where n: "before @ Setuid uid # rest = take n P"
    unfolding P_def by (metis take_map)
  define remaining where "remaining = drop n P"
  have P: "P = before @ Setuid uid # (rest @ remaining)"
    using append_take_drop_id [of n P] unfolding n [symmetric] remaining_def [symmetric] by simp
  have A: "\<forall>c \<in> set ?A. after_setuid c" using seccomp_after_setuid by (auto simp: after_setuid_def)
  then have noA: "Setuid uid \<notin> set ?A" by (force simp: after_setuid_def)
  have noB: "Setuid uid \<notin> set ?B" using before_no_setuid by force
  have "Setuid uid \<in> set P" by (simp add: P)
  with noA noB have uid: "run_uid config \<noteq> 0" "uid = run_uid config"
    unfolding P_def plan_split_setuid by (auto split: if_splits)
  then have "?B @ Setuid uid # ?A = before @ Setuid uid # (rest @ remaining)"
    using P by (simp add: P_def plan_split_setuid)
  then have "?B = before \<and> ?A = rest @ remaining" using append_Cons_eq_iff [OF noB noA] by blast
  then have "before = ?B" and "set rest \<subseteq> set ?A" by auto
  with uid A before_no_setuid show ?thesis by blast
qed

theorem privileges_dropped_last_witness:
  "plan_before_setuid 7 (default_config\<lparr>run_uid := 5, run_gid := 6\<rparr>) =
     [OpenRead ''/dev/stdin'', Dup2 0, CloseFd, OpenTrunc ''/dev/stdout'', Dup2 1, CloseFd,
      OpenTrunc ''/dev/stderr'', Dup2 2, CloseFd, Setgid 6]"
proof -
  let ?r = "run_child_process_or_exit (\<lambda>tr c. True) 7 (default_config\<lparr>run_uid := 5, run_gid := 6\<rparr>)"
  let ?before = "[OpenRead ''/dev/stdin'', Dup2 0, CloseFd, OpenTrunc ''/dev/stdout'', Dup2 1, CloseFd,
      OpenTrunc ''/dev/stderr'', Dup2 2, CloseFd, Setgid 6]"
  have r: "?r = (None, ?before @ Setuid 5 # [Execve ''1'' [''1'']])" by code_simp
  from privileges_dropped_last [OF r] show ?thesis by simp
qed

text \<open>A kernel that refuses every write to a cgroup control file.\<close>

fun is_control_write :: "Syscall \<Rightarrow> bool" where
  "is_control_write (WriteControl _ _) = True"
| "is_control_write _ = False"

abbreviation writes_unchecked :: "plan \<Rightarrow> bool" where
  "writes_unchecked p \<equiv> list_all (\<lambda>(c, e). is_control_write c \<longrightarrow> e = None) p"

lemma phases_unchecked: "in_phases N p \<Longrightarrow> 3 \<notin> N \<Longrightarrow> writes_unchecked p"
proof -
  have "is_control_write c \<Longrightarrow> phase c = 3" for c by (cases c) simp_all
  moreover assume "in_phases N p" and "3 \<notin> N"
  ultimately show ?thesis by (force simp: list_all_iff)
qed

lemma control_writes_unchecked: "writes_unchecked (child_plan pid config)"
proof -
  have "writes_unchecked (cgroup_plan pid config)"
    by (simp add: cgroup_plan_def control_plan_def checked_def Let_def)
  moreover have "writes_unchecked (checked J_SYSTEM_ERROR (if cwd config \<noteq> [] then [Chdir (cwd config)] else []))"
    "writes_unchecked (checked J_EXECVE_FAILED [Execve (exe_path config) (build_argv config)])"
    by (simp_all add: checked_def)
  ultimately show ?thesis
    unfolding child_plan_def setup_plan_def list_all_append
    using plan_phases(1,2,4,5) [THEN phases_unchecked] by simp
qed

text \<open>
  A failing write to a cgroup control file goes unnoticed: with a kernel that lets every call
  succeed except those writes, the child still starts the program, for every configuration, so it
  can run outside the cgroup it was to join.
\<close>

theorem cgroup_write_failure_unnoticed:
  "fst (run_child_process_or_exit (\<lambda>tr c. \<not> is_control_write c) pid config) = None"
proof -
  let ?k = "\<lambda>tr c. \<not> is_control_write c" and ?p = "child_plan pid config"
  have "plan_ok ?k ?p [] (length ?p)"
    using control_writes_unchecked [of pid config] by (auto simp: plan_ok_def list_all_length case_prod_unfold)
  then have "run_plan ?k ?p [] = (None, map fst ?p)" by (simp add: run_plan_completed)
  then show ?thesis by (simp add: child_is_plan)
qed

text \<open>
  The CPU limit in seconds is the millisecond limit rounded up, as long as the 32-bit sum
  with 999 does not wrap; for the last 999 values of the type it wraps, and no CPU limit is set.
\<close>

theorem cpu_rlimit_rounds_up:
  "unat (cpu_seconds config) =
     (if unat (max_cpu_time_ms config) < 4294966297 then (unat (max_cpu_time_ms config) + 999) div 1000 else 0)"
proof -
  let ?m = "unat (max_cpu_time_ms config)"
  have m: "?m < 4294967296" using unsigned_less [of "max_cpu_time_ms config"] by simp
  have sum: "unat (max_cpu_time_ms config + 999) = (?m + 999) mod 4294967296"
    by (simp add: unat_word_ariths)
  have div: "unat ((max_cpu_time_ms config + 999) div 1000) = ((?m + 999) mod 4294967296) div 1000"
    by (simp add: unat_div sum)
  then have "unat (cpu_seconds config) = ((?m + 999) mod 4294967296) div 1000"
    by (simp add: cpu_seconds_def unsigned_ucast_eq take_bit_nat_eq_self)
  moreover have "((?m + 999) mod 4294967296) div 1000 = (if ?m < 4294966297 then (?m + 999) div 1000 else 0)"
  proof (cases "?m < 4294966297")
    case False
    with m have "(?m + 999) mod 4294967296 = ?m + 999 - 4294967296" by (simp add: mod_if)
    with m False show ?thesis by simp
  qed simp
  ultimately show ?thesis by simp
qed

end
