(* ===== verification/ParentMonitor.thy ===== *)
theory ParentMonitor
  imports JudgeTypes
begin

unbundle bit_operations_syntax

text \<open>
  \<open>sjudge/ParentMonitor.cpp\<close>: the parent's polling loop. What the parent observes of the child is a
  parameter (\<open>child_process\<close>): the answer of the i-th non-blocking \<open>wait4\<close>, the milliseconds elapsed
  at that poll, and the answer and time of the blocking \<open>wait4\<close> after a kill in that round. The loop
  is a partial function: None is a loop that never ends.
\<close>

record rusage =
  ru_utime_sec :: int
  ru_utime_usec :: int
  ru_maxrss :: int

datatype wait_answer = WaitError | StillRunning | Ended int rusage

record child_process =
  cp_poll :: "nat \<Rightarrow> wait_answer"
  cp_elapsed :: "nat \<Rightarrow> int"
  cp_reap :: "nat \<Rightarrow> (int \<times> rusage) option"
  cp_reap_elapsed :: "nat \<Rightarrow> int"

record monitor_result =
  mr_wait_status :: int
  mr_signal :: int
  mr_exit_code :: int
  mr_real_time_ms :: int
  mr_cpu_time_ms :: int
  mr_memory_bytes :: int
  mr_timed_out :: bool
  mr_error :: int

definition default_monitor_result :: monitor_result where
  "default_monitor_result =
     \<lparr>mr_wait_status = 0, mr_signal = 0, mr_exit_code = 0, mr_real_time_ms = 0, mr_cpu_time_ms = 0,
      mr_memory_bytes = 0, mr_timed_out = False, mr_error = 0\<rparr>"

text \<open>The calls the parent makes on the child.\<close>

datatype ParentCall = Wait4NoHang | Usleep | KillChild | Wait4Block

section \<open>Wait statuses\<close>

definition WTERMSIG :: "int \<Rightarrow> int" where
  "WTERMSIG status = status AND 127"

definition WIFEXITED :: "int \<Rightarrow> bool" where
  "WIFEXITED status \<longleftrightarrow> WTERMSIG status = 0"

definition WEXITSTATUS :: "int \<Rightarrow> int" where
  "WEXITSTATUS status = drop_bit 8 (status AND 65280)"

text \<open>\<open>((signed char)((status & 0x7f) + 1) >> 1) > 0\<close>\<close>

definition WIFSIGNALED :: "int \<Rightarrow> bool" where
  "WIFSIGNALED status \<longleftrightarrow> 0 < drop_bit 1 (signed_take_bit 7 (WTERMSIG status + 1))"

definition SIGKILL :: int where "SIGKILL = 9"

definition timeval_to_ms :: "int \<Rightarrow> int \<Rightarrow> int" where
  "timeval_to_ms sec usec = wrap32 (sec * 1000 + usec div 1000)"

section \<open>The loop\<close>

text \<open>\<open>elapsed\<close> is the count of milliseconds that the clock shows when the result is filled in.\<close>

definition fill_result_from_wait_status :: "monitor_result \<Rightarrow> int \<Rightarrow> rusage \<Rightarrow> int \<Rightarrow> monitor_result" where
  "fill_result_from_wait_status result status usage elapsed =
     result\<lparr>mr_wait_status := status,
            mr_signal := if WIFSIGNALED status then WTERMSIG status else 0,
            mr_exit_code := if WIFEXITED status then WEXITSTATUS status else 0,
            mr_cpu_time_ms := timeval_to_ms (ru_utime_sec usage) (ru_utime_usec usage),
            mr_real_time_ms := wrap32 elapsed,
            mr_memory_bytes := ru_maxrss usage * 1024\<rparr>"

text \<open>The limit is compared after a conversion to \<open>int\<close>.\<close>

definition real_time_limit_exceeded :: "int \<Rightarrow> uint32 \<Rightarrow> bool" where
  "real_time_limit_exceeded elapsed_ms real_time_limit_ms \<longleftrightarrow>
     real_time_limit_ms > 0 \<and> elapsed_ms > sint real_time_limit_ms"

definition collect_killed_child :: "(int \<times> rusage) option \<Rightarrow> int \<Rightarrow> monitor_result \<Rightarrow> monitor_result" where
  "collect_killed_child answer elapsed result =
     (case answer of
        None \<Rightarrow> result\<lparr>mr_error := judge_code J_WAIT_FAILED\<rparr>
      | Some (status, usage) \<Rightarrow>
          let filled = fill_result_from_wait_status result status usage elapsed in
          if mr_signal filled = 0 then filled\<lparr>mr_signal := SIGKILL\<rparr> else filled)"

partial_function (option) monitor_loop ::
  "child_process \<Rightarrow> uint32 \<Rightarrow> nat \<Rightarrow> monitor_result \<Rightarrow> ParentCall list \<Rightarrow> (monitor_result \<times> ParentCall list) option" where
  "monitor_loop p limit i result calls =
     (case cp_poll p i of
        Ended status usage \<Rightarrow>
          Some (fill_result_from_wait_status result status usage (cp_elapsed p i), calls @ [Wait4NoHang])
      | WaitError \<Rightarrow> Some (result\<lparr>mr_error := judge_code J_WAIT_FAILED\<rparr>, calls @ [Wait4NoHang])
      | StillRunning \<Rightarrow>
          (if real_time_limit_exceeded (wrap32 (cp_elapsed p i)) limit then
             Some (collect_killed_child (cp_reap p i) (cp_reap_elapsed p i)
                     (result\<lparr>mr_real_time_ms := wrap32 (cp_elapsed p i), mr_timed_out := True\<rparr>),
                   calls @ [Wait4NoHang, KillChild, Wait4Block])
           else
             monitor_loop p limit (Suc i) (result\<lparr>mr_real_time_ms := wrap32 (cp_elapsed p i)\<rparr>)
               (calls @ [Wait4NoHang, Usleep])))"

declare monitor_loop.simps [code]

definition monitor_child_process :: "child_process \<Rightarrow> uint32 \<Rightarrow> (monitor_result \<times> ParentCall list) option" where
  "monitor_child_process p real_time_limit_ms = monitor_loop p real_time_limit_ms 0 default_monitor_result []"

section \<open>When the loop ends\<close>

text \<open>The round in which the loop ends: the child has ended, \<open>wait4\<close> failed, or the time is over.\<close>

definition stops_at :: "child_process \<Rightarrow> uint32 \<Rightarrow> nat \<Rightarrow> bool" where
  "stops_at p limit i \<longleftrightarrow>
     cp_poll p i \<noteq> StillRunning \<or> real_time_limit_exceeded (wrap32 (cp_elapsed p i)) limit"

definition first_stop :: "child_process \<Rightarrow> uint32 \<Rightarrow> nat \<Rightarrow> bool" where
  "first_stop p limit n \<longleftrightarrow> stops_at p limit n \<and> (\<forall>i < n. \<not> stops_at p limit i)"

text \<open>The result of a loop that ends in round \<open>i\<close>, from the result the earlier rounds left.\<close>

definition final_result :: "child_process \<Rightarrow> nat \<Rightarrow> monitor_result \<Rightarrow> monitor_result" where
  "final_result p i result =
     (case cp_poll p i of
        Ended status usage \<Rightarrow> fill_result_from_wait_status result status usage (cp_elapsed p i)
      | WaitError \<Rightarrow> result\<lparr>mr_error := judge_code J_WAIT_FAILED\<rparr>
      | StillRunning \<Rightarrow>
          collect_killed_child (cp_reap p i) (cp_reap_elapsed p i)
            (result\<lparr>mr_real_time_ms := wrap32 (cp_elapsed p i), mr_timed_out := True\<rparr>))"

definition final_calls :: "child_process \<Rightarrow> nat \<Rightarrow> ParentCall list" where
  "final_calls p i =
     (if cp_poll p i = StillRunning then [Wait4NoHang, KillChild, Wait4Block] else [Wait4NoHang])"

lemma monitor_loop_stop:
  "stops_at p limit i \<Longrightarrow> monitor_loop p limit i result calls = Some (final_result p i result, calls @ final_calls p i)"
  by (subst monitor_loop.simps)
    (auto simp: stops_at_def final_result_def final_calls_def split: wait_answer.splits)

lemma monitor_loop_continue:
  "\<not> stops_at p limit i \<Longrightarrow>
     monitor_loop p limit i result calls =
       monitor_loop p limit (Suc i) (result\<lparr>mr_real_time_ms := wrap32 (cp_elapsed p i)\<rparr>)
         (calls @ [Wait4NoHang, Usleep])"
  by (subst monitor_loop.simps) (simp add: stops_at_def)

fun wait_calls :: "nat \<Rightarrow> ParentCall list" where
  "wait_calls 0 = []"
| "wait_calls (Suc n) = Wait4NoHang # Usleep # wait_calls n"

lemma monitor_loop_at:
  assumes "stops_at p limit (i + n)" and "\<forall>j < n. \<not> stops_at p limit (i + j)"
  shows "\<exists>t. monitor_loop p limit i result calls =
      Some (final_result p (i + n) (result\<lparr>mr_real_time_ms := t\<rparr>), calls @ wait_calls n @ final_calls p (i + n))"
  using assms
proof (induction n arbitrary: i result calls)
  case 0
  then have "monitor_loop p limit i result calls =
      Some (final_result p i (result\<lparr>mr_real_time_ms := mr_real_time_ms result\<rparr>), calls @ final_calls p i)"
    by (simp add: monitor_loop_stop)
  then show ?case by (intro exI [of _ "mr_real_time_ms result"]) simp
next
  case (Suc n)
  from Suc.prems(2) have "\<not> stops_at p limit i" by (metis add.right_neutral zero_less_Suc)
  moreover from Suc.prems have "stops_at p limit (Suc i + n)" "\<forall>j < n. \<not> stops_at p limit (Suc i + j)"
    by (auto simp: add_Suc_right [symmetric] simp del: add_Suc_right)
  note Suc.IH [OF this, of "result\<lparr>mr_real_time_ms := wrap32 (cp_elapsed p i)\<rparr>" "calls @ [Wait4NoHang, Usleep]"]
  ultimately show ?case by (simp add: monitor_loop_continue)
qed

lemma monitor_first_stop:
  assumes "first_stop p limit n"
  shows "\<exists>t. monitor_child_process p limit =
      Some (final_result p n (default_monitor_result\<lparr>mr_real_time_ms := t\<rparr>), wait_calls n @ final_calls p n)"
  using monitor_loop_at [of p limit 0 n default_monitor_result "[]"] assms
  by (simp add: monitor_child_process_def first_stop_def)

text \<open>A run that never stops is a fixed point that returns nothing.\<close>

lemma monitor_loop_diverges:
  assumes "monitor_loop p limit i result calls = Some y"
  shows "\<exists>n \<ge> i. stops_at p limit n"
  using _ assms
proof (rule monitor_loop.raw_induct [where P = "\<lambda>p limit i result calls y. \<exists>n \<ge> i. stops_at p limit n"])
  fix loop p limit i result calls y
  assume IH: "\<And>p limit i result calls y. loop p limit i result calls = Some y \<Longrightarrow> \<exists>n \<ge> i. stops_at p limit n"
    and step: "(case cp_poll p i of
        WaitError \<Rightarrow> Some (result\<lparr>mr_error := judge_code J_WAIT_FAILED\<rparr>, calls @ [Wait4NoHang])
      | StillRunning \<Rightarrow>
          if real_time_limit_exceeded (wrap32 (cp_elapsed p i)) limit
          then Some (collect_killed_child (cp_reap p i) (cp_reap_elapsed p i)
                (result\<lparr>mr_real_time_ms := wrap32 (cp_elapsed p i), mr_timed_out := True\<rparr>),
               calls @ [Wait4NoHang, KillChild, Wait4Block])
          else loop p limit (Suc i) (result\<lparr>mr_real_time_ms := wrap32 (cp_elapsed p i)\<rparr>) (calls @ [Wait4NoHang, Usleep])
      | Ended status usage \<Rightarrow>
          Some (fill_result_from_wait_status result status usage (cp_elapsed p i), calls @ [Wait4NoHang])) = Some y"
  show "\<exists>n \<ge> i. stops_at p limit n"
  proof (cases "stops_at p limit i")
    case False
    with step have "loop p limit (Suc i) (result\<lparr>mr_real_time_ms := wrap32 (cp_elapsed p i)\<rparr>)
        (calls @ [Wait4NoHang, Usleep]) = Some y" by (simp add: stops_at_def)
    then have "\<exists>n \<ge> Suc i. stops_at p limit n" by (rule IH)
    then show ?thesis using Suc_leD by blast
  qed blast
qed

lemma first_stop_exists: "stops_at p limit n \<Longrightarrow> \<exists>m. first_stop p limit m"
  unfolding first_stop_def using exists_least_iff [of "stops_at p limit"] by blast

lemma monitor_stops_iff: "(\<exists>r. monitor_child_process p limit = Some r) \<longleftrightarrow> (\<exists>n. stops_at p limit n)"
  using monitor_loop_diverges first_stop_exists monitor_first_stop unfolding monitor_child_process_def by blast

text \<open>
  C8. The monitor returns exactly when some poll finds the child ended, finds an error, or finds
  the elapsed time above a limit that is set: with a limit and a clock that passes it the parent
  never hangs, and without a limit it waits as long as the child runs.
\<close>

theorem monitor_returns_iff:
  "(\<exists>r. monitor_child_process p limit = Some r) \<longleftrightarrow>
     (\<exists>n. cp_poll p n \<noteq> StillRunning \<or> (limit > 0 \<and> wrap32 (cp_elapsed p n) > sint limit))"
  unfolding monitor_stops_iff stops_at_def real_time_limit_exceeded_def ..

theorem monitor_returns_iff_witness:
  "\<exists>r. monitor_child_process \<lparr>cp_poll = (\<lambda>_. StillRunning), cp_elapsed = (\<lambda>i. int i * 2), cp_reap = (\<lambda>_. None),
     cp_reap_elapsed = (\<lambda>i. int i * 2)\<rparr> 3 = Some r"
  unfolding monitor_returns_iff by (intro exI [of _ 2]) (simp add: wrap32_def)

text \<open>
  C7. The child is killed only for its time and always reaped: in the calls of a monitor that
  returns, a kill is sent exactly when the result is marked as timed out, it is sent once, after
  the last poll, and the blocking wait follows it at once.
\<close>

theorem kill_iff_timed_out:
  assumes "monitor_child_process p limit = Some (result, calls)"
  shows "(KillChild \<in> set calls \<longleftrightarrow> mr_timed_out result) \<and>
    (mr_timed_out result \<longrightarrow>
       (\<exists>n. calls = wait_calls n @ [Wait4NoHang, KillChild, Wait4Block] \<and> cp_poll p n = StillRunning \<and>
            real_time_limit_exceeded (wrap32 (cp_elapsed p n)) limit))"
proof -
  from assms have "\<exists>n. stops_at p limit n"
    unfolding monitor_child_process_def by (blast dest: monitor_loop_diverges)
  then obtain n where n: "first_stop p limit n" using first_stop_exists by blast
  from monitor_first_stop [OF this] assms obtain t where
    r: "result = final_result p n (default_monitor_result\<lparr>mr_real_time_ms := t\<rparr>)"
    and calls: "calls = wait_calls n @ final_calls p n" by auto
  have "KillChild \<notin> set (wait_calls n)" by (induction n) simp_all
  moreover have "mr_timed_out result \<longleftrightarrow> cp_poll p n = StillRunning"
    by (simp add: r final_result_def default_monitor_result_def collect_killed_child_def Let_def
        fill_result_from_wait_status_def split: wait_answer.splits option.splits)
  ultimately show ?thesis
    using n calls by (auto simp: final_calls_def first_stop_def stops_at_def)
qed

theorem kill_iff_timed_out_witness:
  "\<exists>result calls.
     monitor_child_process \<lparr>cp_poll = (\<lambda>_. StillRunning), cp_elapsed = (\<lambda>i. int i * 2),
         cp_reap = (\<lambda>_. Some (9, \<lparr>ru_utime_sec = 0, ru_utime_usec = 0, ru_maxrss = 1\<rparr>)), cp_reap_elapsed = (\<lambda>i. int i * 2)\<rparr> 3
       = Some (result, calls) \<and> mr_timed_out result \<and> KillChild \<in> set calls"
proof -
  let ?p = "\<lparr>cp_poll = (\<lambda>_. StillRunning), cp_elapsed = (\<lambda>i. int i * 2),
         cp_reap = (\<lambda>_. Some (9, \<lparr>ru_utime_sec = 0, ru_utime_usec = 0, ru_maxrss = 1\<rparr>)), cp_reap_elapsed = (\<lambda>i. int i * 2)\<rparr>"
  have "map_option (\<lambda>x. mr_timed_out (fst x)) (monitor_child_process ?p 3) = Some True" by code_simp
  then obtain result calls where r: "monitor_child_process ?p 3 = Some (result, calls)" "mr_timed_out result" by auto
  with kill_iff_timed_out [OF r(1)] show ?thesis by blast
qed

section \<open>Exit codes and signals\<close>

text \<open>How the kernel encodes an exit and a death by signal (without core dump).\<close>

definition exit_status :: "int \<Rightarrow> int" where
  "exit_status code = (code mod 256) * 256"

lemma WTERMSIG_mod: "WTERMSIG status = status mod 128"
proof -
  have "status AND 127 = take_bit 7 status" by (simp add: take_bit_eq_mask mask_eq_exp_minus_1)
  then show ?thesis by (simp add: WTERMSIG_def take_bit_eq_mod)
qed

lemma WEXITSTATUS_exit: "0 \<le> code \<Longrightarrow> code < 256 \<Longrightarrow> WEXITSTATUS (exit_status code) = code"
proof -
  assume c: "0 \<le> code" "code < 256"
  have "(65280 :: int) = push_bit 8 (mask 8)" by (simp add: mask_eq_exp_minus_1 push_bit_eq_mult)
  moreover have "exit_status code = push_bit 8 code" using c by (simp add: exit_status_def push_bit_eq_mult)
  ultimately have "WEXITSTATUS (exit_status code) = drop_bit 8 (push_bit 8 (code AND mask 8))"
    by (simp add: WEXITSTATUS_def push_bit_and)
  also have "\<dots> = take_bit 8 code" by (simp add: take_bit_eq_mask drop_bit_eq_div push_bit_eq_mult)
  also have "\<dots> = code" using c by (simp add: take_bit_eq_mod)
  finally show ?thesis .
qed

lemma WTERMSIG_exit: "WTERMSIG (exit_status code) = 0"
  by (simp add: WTERMSIG_mod exit_status_def mult_mod_right [symmetric])

lemma wait_macros_exit:
  "0 \<le> code \<Longrightarrow> code < 256 \<Longrightarrow>
     WIFEXITED (exit_status code) \<and> WEXITSTATUS (exit_status code) = code \<and> \<not> WIFSIGNALED (exit_status code)"
  by (simp add: WIFEXITED_def WTERMSIG_exit WEXITSTATUS_exit WIFSIGNALED_def)

lemma wait_macros_signal:
  assumes "0 < sig" "sig < 127"
  shows "WIFSIGNALED sig \<and> WTERMSIG sig = sig \<and> \<not> WIFEXITED sig"
proof -
  have t: "WTERMSIG sig = sig" using assms by (simp add: WTERMSIG_mod)
  have "signed_take_bit 7 (sig + 1) = sig + 1"
    by (rule signed_take_bit_int_eq_self) (use assms in simp_all)
  then have "0 < drop_bit 1 (signed_take_bit 7 (sig + 1))"
    using assms by (simp add: drop_bit_eq_div)
  with t assms show ?thesis by (simp add: WIFSIGNALED_def WIFEXITED_def)
qed

text \<open>What the result says of a child that exited with a code, or died of a signal.\<close>

lemma fill_exit:
  "0 \<le> code \<Longrightarrow> code < 256 \<Longrightarrow>
     mr_signal (fill_result_from_wait_status r (exit_status code) u e) = 0 \<and>
     mr_exit_code (fill_result_from_wait_status r (exit_status code) u e) = code"
  by (simp add: fill_result_from_wait_status_def wait_macros_exit)

lemma fill_signal:
  "0 < sig \<Longrightarrow> sig < 127 \<Longrightarrow>
     mr_signal (fill_result_from_wait_status r sig u e) = sig \<and> mr_exit_code (fill_result_from_wait_status r sig u e) = 0"
  by (simp add: fill_result_from_wait_status_def wait_macros_signal)

end
