(* ===== verification/Sjudger.thy ===== *)
theory Sjudger
  imports ChildSetup ParentMonitor
begin

text \<open>
  \<open>sjudge/ResultMapper.cpp\<close> and \<open>sjudge/sjudge_call.cpp\<close>: the verdict of a monitored child and
  \<open>run_sjudger\<close>, which forks, lets the child prepare itself, monitors it and maps what it saw. The
  operating system is a parameter: what \<open>fork\<close> returns in the parent, the kernel that answers the
  child's calls, and what the parent observes of a child whose preparation went as it did. The
  result is None when the monitor never returns.
\<close>

definition SIGABRT :: int where "SIGABRT = 6"

definition SIGSEGV :: int where "SIGSEGV = 11"

text \<open>\<open>static_cast<long long>\<close> and \<open>static_cast<int>\<close> of the unsigned limits are \<open>sint\<close>.\<close>

definition map_monitor_result_to_judge_code :: "judge_config \<Rightarrow> monitor_result \<Rightarrow> judgeResult_id" where
  "map_monitor_result_to_judge_code config monitor =
     (if mr_timed_out monitor then J_REAL_TIME_LIMIT_EXCEEDED
      else if max_memory_bytes config > 0 \<and> mr_memory_bytes monitor > sint (max_memory_bytes config)
        then J_MEMORY_LIMIT_EXCEEDED
      else if max_cpu_time_ms config > 0 \<and> mr_cpu_time_ms monitor > sint (max_cpu_time_ms config)
        then J_CPU_TIME_LIMIT_EXCEEDED
      else if max_memory_bytes config > 0 \<and>
          (mr_signal monitor = SIGSEGV \<or> mr_signal monitor = SIGABRT \<or> mr_signal monitor = SIGKILL)
        then J_MEMORY_LIMIT_EXCEEDED
      else if max_memory_bytes config > 0 \<and> mr_exit_code monitor = 127 then J_MEMORY_LIMIT_EXCEEDED
      else if mr_signal monitor \<noteq> 0 \<or> mr_exit_code monitor \<noteq> 0 then J_RUNTIME_ERROR
      else J_SUCCESS)"

definition is_child_setup_error_code :: "int \<Rightarrow> bool" where
  "is_child_setup_error_code exit_code \<longleftrightarrow>
     exit_code \<in> judge_code ` {J_SYSTEM_ERROR, J_WAIT_FAILED, J_INVALID_CONFIG, J_FORK_FAILED,
       J_LOAD_SECCOMP_FAILED, J_SETRLIMIT_FAILED, J_CGROUP_FAILED, J_DUP2_FAILED, J_SETUID_FAILED,
       J_EXECVE_FAILED}"

record sjudge_os =
  os_fork :: int
  os_kernel :: kernel
  os_process :: "int option \<times> Syscall list \<Rightarrow> child_process"

definition run_sjudger :: "sjudge_os \<Rightarrow> judge_config \<Rightarrow> judge_result option" where
  "run_sjudger os config =
     (case validate_judge_config config of
        (False, error_code) \<Rightarrow>
          Some (default_judge_result\<lparr>jr_result := judge_code J_SYSTEM_ERROR, jr_error := error_code\<rparr>)
      | (True, _) \<Rightarrow>
          if os_fork os < 0 then
            Some (default_judge_result\<lparr>jr_result := judge_code J_SYSTEM_ERROR, jr_error := judge_code J_FORK_FAILED\<rparr>)
          else
            let child = run_child_process_or_exit (os_kernel os) (os_fork os) config in
            case monitor_child_process (os_process os child) (max_real_time_ms config) of
              None \<Rightarrow> None
            | Some (monitor, calls) \<Rightarrow>
                let result = default_judge_result\<lparr>jr_cpu_time_ms := mr_cpu_time_ms monitor,
                      jr_real_time_ms := mr_real_time_ms monitor, jr_memory_bytes := mr_memory_bytes monitor,
                      jr_signal := mr_signal monitor, jr_exit_code := mr_exit_code monitor\<rparr> in
                if mr_error monitor \<noteq> 0 then
                  Some (result\<lparr>jr_result := judge_code J_SYSTEM_ERROR, jr_error := mr_error monitor\<rparr>)
                else if jr_signal result = 0 \<and> jr_exit_code result \<noteq> 0 \<and>
                    is_child_setup_error_code (jr_exit_code result) then
                  Some (result\<lparr>jr_result := judge_code J_SYSTEM_ERROR, jr_error := jr_exit_code result\<rparr>)
                else
                  Some (result\<lparr>jr_error := 0,
                    jr_result := judge_code (map_monitor_result_to_judge_code config monitor)\<rparr>))"

section \<open>Facts\<close>

abbreviation recognised :: "plan \<Rightarrow> bool" where
  "recognised p \<equiv> list_all (\<lambda>(c, e). case e of None \<Rightarrow> True | Some code \<Rightarrow> is_child_setup_error_code code) p"

lemma recognised_checked: "is_child_setup_error_code (judge_code e) \<Longrightarrow> recognised (checked e cs)"
  by (simp add: checked_def list_all_iff)

lemma setup_error_codes:
  "is_child_setup_error_code 5" "is_child_setup_error_code 11" "is_child_setup_error_code 12"
  "is_child_setup_error_code 13" "is_child_setup_error_code 14" "is_child_setup_error_code 15"
  "is_child_setup_error_code 16"
  by (simp_all add: is_child_setup_error_code_def)

lemma plans_recognised:
  "recognised (redirect_plan config)" "recognised (limit_plan config)" "recognised (control_plan path content)"
  "recognised (privilege_plan config)" "recognised (seccomp_plan config)"
  by (simp_all add: redirect_plan_def limit_plan_def control_plan_def privilege_plan_def seccomp_plan_def
      recognised_checked setup_error_codes)

lemma cgroup_recognised: "recognised (cgroup_plan pid config)"
  by (simp add: cgroup_plan_def Let_def plans_recognised recognised_checked setup_error_codes)

lemma setup_codes_recognised: "(c, Some code) \<in> set (child_plan pid config) \<Longrightarrow> is_child_setup_error_code code"
proof -
  have "recognised (child_plan pid config)"
    unfolding child_plan_def setup_plan_def list_all_append
    using plans_recognised cgroup_recognised recognised_checked setup_error_codes by simp
  then show "(c, Some code) \<in> set (child_plan pid config) \<Longrightarrow> is_child_setup_error_code code"
    by (force simp: list_all_iff)
qed

lemma child_exit_code:
  "fst (run_child_process_or_exit k pid config) = Some code \<Longrightarrow>
     is_child_setup_error_code code \<and> 0 < code \<and> code < 256"
proof -
  assume "fst (run_child_process_or_exit k pid config) = Some code"
  then obtain tr where "run_plan k (child_plan pid config) [] = (Some code, tr)"
    by (metis child_is_plan prod.collapse)
  then obtain n where "n < length (child_plan pid config)" "snd (child_plan pid config ! n) = Some code"
    by (auto simp: run_plan_failed)
  then have "(fst (child_plan pid config ! n), Some code) \<in> set (child_plan pid config)"
    by (metis nth_mem prod.collapse)
  then have "is_child_setup_error_code code" by (rule setup_codes_recognised)
  then show ?thesis by (auto simp: is_child_setup_error_code_def)
qed

lemma run_sjudger_monitored:
  "exe_path config \<noteq> [] \<Longrightarrow> 0 \<le> os_fork os \<Longrightarrow>
   monitor_child_process (os_process os (run_child_process_or_exit (os_kernel os) (os_fork os) config))
     (max_real_time_ms config) = Some (monitor, calls) \<Longrightarrow>
   run_sjudger os config =
     Some \<lparr>jr_cpu_time_ms = mr_cpu_time_ms monitor, jr_real_time_ms = mr_real_time_ms monitor,
       jr_memory_bytes = mr_memory_bytes monitor, jr_signal = mr_signal monitor, jr_exit_code = mr_exit_code monitor,
       jr_error = (if mr_error monitor \<noteq> 0 then mr_error monitor
         else if mr_signal monitor = 0 \<and> mr_exit_code monitor \<noteq> 0 \<and> is_child_setup_error_code (mr_exit_code monitor)
           then mr_exit_code monitor else 0),
       jr_result = (if mr_error monitor \<noteq> 0 \<or>
           (mr_signal monitor = 0 \<and> mr_exit_code monitor \<noteq> 0 \<and> is_child_setup_error_code (mr_exit_code monitor))
         then judge_code J_SYSTEM_ERROR else judge_code (map_monitor_result_to_judge_code config monitor))\<rparr>"
  by (simp add: run_sjudger_def validate_judge_config_def Let_def default_judge_result_def)

lemma run_sjudger_total:
  assumes "exe_path config = [] \<or> os_fork os < 0 \<or>
    (\<exists>n. stops_at (os_process os (run_child_process_or_exit (os_kernel os) (os_fork os) config)) (max_real_time_ms config) n)"
  shows "\<exists>r. run_sjudger os config = Some r"
proof (cases "exe_path config = [] \<or> os_fork os < 0")
  case True
  then show ?thesis by (auto simp: run_sjudger_def validate_judge_config_def)
next
  case False
  with assms obtain m where "monitor_child_process
      (os_process os (run_child_process_or_exit (os_kernel os) (os_fork os) config)) (max_real_time_ms config) = Some m"
    using monitor_stops_iff by blast
  with False show ?thesis using run_sjudger_monitored by (cases m) fastforce
qed

text \<open>
  \<open>run_sjudger\<close> returns whenever the configuration is invalid, \<open>fork\<close> fails, or the monitor
  returns; in particular when a real-time limit is set and the clock passes it.
\<close>

theorem run_sjudger_returns:
  assumes "exe_path config = [] \<or> os_fork os < 0 \<or>
    (\<exists>n. max_real_time_ms config > 0 \<and>
       wrap32 (cp_elapsed (os_process os (run_child_process_or_exit (os_kernel os) (os_fork os) config)) n)
         > sint (max_real_time_ms config))"
  shows "\<exists>r. run_sjudger os config = Some r"
  using assms by (intro run_sjudger_total) (auto simp: stops_at_def real_time_limit_exceeded_def)

text \<open>An operating system on which nothing fails and the program exits in the given way after some polls.\<close>

definition quiet_process :: "nat \<Rightarrow> int \<Rightarrow> child_process" where
  "quiet_process n status =
     \<lparr>cp_poll = (\<lambda>i. if i < n then StillRunning else Ended status \<lparr>ru_utime_sec = 0, ru_utime_usec = 0, ru_maxrss = 1\<rparr>),
      cp_elapsed = (\<lambda>i. int i), cp_reap = (\<lambda>_. Some (9, \<lparr>ru_utime_sec = 0, ru_utime_usec = 0, ru_maxrss = 1\<rparr>)),
      cp_reap_elapsed = (\<lambda>i. int i)\<rparr>"

definition quiet_os :: "nat \<Rightarrow> int \<Rightarrow> sjudge_os" where
  "quiet_os n status =
     \<lparr>os_fork = 7, os_kernel = (\<lambda>tr c. True),
      os_process = (\<lambda>(r, tr). quiet_process n (case r of Some code \<Rightarrow> exit_status code | None \<Rightarrow> status))\<rparr>"

theorem run_sjudger_returns_witness:
  "\<exists>r. run_sjudger (quiet_os 100 0) (default_config\<lparr>max_real_time_ms := 2\<rparr>) = Some r"
proof (rule run_sjudger_returns, intro disjI2 exI conjI)
  show "0 < max_real_time_ms (default_config\<lparr>max_real_time_ms := 2\<rparr>)" by simp
  show "sint (max_real_time_ms (default_config\<lparr>max_real_time_ms := 2\<rparr>)) <
      wrap32 (cp_elapsed (os_process (quiet_os 100 0) (run_child_process_or_exit (os_kernel (quiet_os 100 0))
        (os_fork (quiet_os 100 0)) (default_config\<lparr>max_real_time_ms := 2\<rparr>))) 3)"
    by (simp add: quiet_os_def quiet_process_def case_prod_unfold wrap32_id)
qed

text \<open>What \<open>wait4\<close> promises of a child that exited: it reports that exit code.\<close>

definition reports_exit :: "child_process \<Rightarrow> int \<Rightarrow> bool" where
  "reports_exit p code \<longleftrightarrow> (\<forall>i status usage. cp_poll p i = Ended status usage \<longrightarrow> status = exit_status code)"

text \<open>
  C25. A failed preparation is never blamed on the user's program: when the child gives up before
  \<open>execve\<close> and the monitor sees it end, the result is \<open>SYSTEM_ERROR\<close> with the code of the failed
  step, for every step.
\<close>

theorem setup_failure_is_system_error:
  assumes "exe_path config \<noteq> []" and "0 \<le> os_fork os"
    and "run_child_process_or_exit (os_kernel os) (os_fork os) config = (Some code, tr)"
    and "reports_exit (os_process os (Some code, tr)) code"
    and "monitor_child_process (os_process os (Some code, tr)) (max_real_time_ms config) = Some (monitor, calls)"
    and "\<not> mr_timed_out monitor" and "mr_error monitor = 0"
  shows "\<exists>r. run_sjudger os config = Some r \<and> jr_result r = judge_code J_SYSTEM_ERROR \<and> jr_error r = code"
proof -
  let ?p = "os_process os (Some code, tr)"
  from assms(5) obtain n where n: "first_stop ?p (max_real_time_ms config) n"
    unfolding monitor_child_process_def using monitor_loop_diverges first_stop_exists by blast
  from monitor_first_stop [OF this] assms(5) obtain t where
    m: "monitor = final_result ?p n (default_monitor_result\<lparr>mr_real_time_ms := t\<rparr>)" by auto
  have code: "is_child_setup_error_code code" "0 < code" "code < 256"
    using child_exit_code [of "os_kernel os" "os_fork os" config code] assms(3) by auto
  obtain status usage where e: "cp_poll ?p n = Ended status usage"
    using assms(6,7) m by (cases "cp_poll ?p n")
      (auto simp: final_result_def collect_killed_child_def fill_result_from_wait_status_def Let_def
        split: option.splits if_splits)
  with assms(4) have "status = exit_status code" unfolding reports_exit_def by blast
  with m e code fill_exit [of code] have "mr_signal monitor = 0 \<and> mr_exit_code monitor = code"
    by (simp add: final_result_def)
  with code assms(7) run_sjudger_monitored [OF assms(1,2), of monitor calls] assms(3,5)
  show ?thesis by simp
qed

theorem setup_failure_is_system_error_witness:
  "\<exists>r. run_sjudger ((quiet_os 2 0)\<lparr>os_kernel := (\<lambda>tr c. c \<noteq> Dup2 1)\<rparr>) default_config = Some r \<and>
     jr_result r = judge_code J_SYSTEM_ERROR \<and> jr_error r = judge_code J_DUP2_FAILED"
proof -
  let ?os = "(quiet_os 2 0)\<lparr>os_kernel := (\<lambda>tr c. c \<noteq> Dup2 1)\<rparr>"
  let ?child = "run_child_process_or_exit (os_kernel ?os) (os_fork ?os) default_config"
  let ?tr = "[OpenRead ''/dev/stdin'', Dup2 0, CloseFd, OpenTrunc ''/dev/stdout'', Dup2 1]"
  let ?m = "monitor_child_process (os_process ?os (Some 14, ?tr)) 0"
  have child: "?child = (Some 14, ?tr)" by code_simp
  have "map_option (\<lambda>(m, _). (mr_timed_out m, mr_error m)) ?m = Some (False, 0)" by code_simp
  then obtain monitor calls where "?m = Some (monitor, calls)" "\<not> mr_timed_out monitor" "mr_error monitor = 0"
    by auto
  moreover have "reports_exit (os_process ?os (Some 14, ?tr)) 14"
    by (simp add: reports_exit_def quiet_os_def quiet_process_def)
  ultimately show ?thesis
    using setup_failure_is_system_error [OF _ _ child, of monitor calls]
    by (simp add: default_config_def quiet_os_def)
qed

section \<open>Verdicts of a program that was started\<close>

lemma monitor_final:
  assumes "monitor_child_process p limit = Some (monitor, calls)"
  obtains n t where "first_stop p limit n" "monitor = final_result p n (default_monitor_result\<lparr>mr_real_time_ms := t\<rparr>)"
proof -
  from assms obtain n where n: "first_stop p limit n"
    unfolding monitor_child_process_def using monitor_loop_diverges first_stop_exists by blast
  from monitor_first_stop [OF this] assms that [OF n] show thesis by auto
qed

lemma timed_out_has_signal:
  assumes "monitor_child_process p limit = Some (monitor, calls)" "mr_timed_out monitor" "mr_error monitor = 0"
  shows "mr_signal monitor \<noteq> 0"
proof -
  from monitor_final [OF assms(1)] obtain n t where
    m: "monitor = final_result p n (default_monitor_result\<lparr>mr_real_time_ms := t\<rparr>)" .
  then have "cp_poll p n = StillRunning" using assms(2)
    by (cases "cp_poll p n") (simp_all add: final_result_def fill_result_from_wait_status_def default_monitor_result_def)
  with m have c: "monitor = collect_killed_child (cp_reap p n) (cp_reap_elapsed p n)
      (default_monitor_result\<lparr>mr_real_time_ms := wrap32 (cp_elapsed p n), mr_timed_out := True\<rparr>)"
    by (simp add: final_result_def)
  then obtain st u where "cp_reap p n = Some (st, u)" using assms(3)
    by (cases "cp_reap p n") (auto simp: collect_killed_child_def)
  with c show ?thesis by (simp add: collect_killed_child_def Let_def SIGKILL_def)
qed


lemma quiet_child: "run_child_process_or_exit (\<lambda>tr c. True) pid config = (None, map fst (child_plan pid config))"
  by (simp add: child_is_plan run_plan_completed plan_ok_def)

lemma quiet_monitor:
  "\<exists>t calls. monitor_child_process (quiet_process n status) 0 =
     Some (final_result (quiet_process n status) n (default_monitor_result\<lparr>mr_real_time_ms := t\<rparr>), calls)"
proof -
  have "first_stop (quiet_process n status) 0 n"
    by (simp add: first_stop_def stops_at_def real_time_limit_exceeded_def quiet_process_def)
  from monitor_first_stop [OF this] show ?thesis by blast
qed

lemma quiet_os_process:
  "os_process (quiet_os n status) (run_child_process_or_exit (os_kernel (quiet_os n status)) (os_fork (quiet_os n status)) config)
     = quiet_process n status"
  by (simp add: quiet_os_def quiet_child)


text \<open>
  The measured real time is compared with its limit only while the program is found running: one that
  is found ended at the next poll is a success whatever time it took, here five seconds with a limit
  of one.
\<close>

definition late_os :: sjudge_os where
  "late_os = (quiet_os 0 0)\<lparr>os_process := \<lambda>_. (quiet_process 0 0)\<lparr>cp_elapsed := \<lambda>_. 5000\<rparr>\<rparr>"

theorem late_exit_is_success:
  "map_option (\<lambda>r. (jr_result r, jr_real_time_ms r)) (run_sjudger late_os (default_config\<lparr>max_real_time_ms := 1000\<rparr>))
     = Some (judge_code J_SUCCESS, 5000)"
  by code_simp

text \<open>
  The exit codes of the preparation are not reserved: a program that was started normally and
  itself exits with one of those codes (5 to 8 and 11 to 16) is reported as a failure of the judge
  and not as a runtime error.
\<close>

theorem exit_code_masquerades:
  assumes "exe_path config \<noteq> []" and "max_real_time_ms config = 0" and "is_child_setup_error_code code"
  shows "fst (run_child_process_or_exit (os_kernel (quiet_os n (exit_status code))) (os_fork (quiet_os n (exit_status code))) config) = None \<and>
    (\<exists>r. run_sjudger (quiet_os n (exit_status code)) config = Some r \<and>
       jr_result r = judge_code J_SYSTEM_ERROR \<and> jr_error r = code)"
proof -
  let ?os = "quiet_os n (exit_status code)" and ?p = "quiet_process n (exit_status code)"
  have code: "0 < code" "code < 256" using assms(3) by (auto simp: is_child_setup_error_code_def)
  note proc = quiet_os_process [of n "exit_status code" config]
  obtain t calls where m: "monitor_child_process ?p 0 =
      Some (final_result ?p n (default_monitor_result\<lparr>mr_real_time_ms := t\<rparr>), calls)"
    using quiet_monitor by blast
  let ?m = "final_result ?p n (default_monitor_result\<lparr>mr_real_time_ms := t\<rparr>)"
  have "mr_signal ?m = 0 \<and> mr_exit_code ?m = code \<and> mr_error ?m = 0"
    using fill_exit [of code] code
    by (simp add: final_result_def quiet_process_def fill_result_from_wait_status_def default_monitor_result_def)
  moreover have "0 \<le> os_fork ?os" by (simp add: quiet_os_def)
  note run_sjudger_monitored [OF assms(1) this, unfolded proc assms(2), OF m]
  ultimately show ?thesis using code assms(3) by (simp add: quiet_os_def quiet_child)
qed

theorem exit_code_masquerades_witness:
  "\<exists>r. run_sjudger (quiet_os 1 (exit_status 12)) default_config = Some r \<and>
     jr_result r = judge_code J_SYSTEM_ERROR \<and> jr_error r = 12"
  using exit_code_masquerades [of default_config 12 1]
  by (simp add: default_config_def setup_error_codes)

text \<open>
  A limit of 2147483648 milliseconds or more turns negative when it is converted to \<open>int\<close>: such a
  CPU limit makes every program that is within its other limits a CPU time-out, and such a
  real-time limit kills the child at the first poll that finds it running.
\<close>

theorem huge_time_limits_always_exceeded:
  assumes "2147483648 \<le> unat limit"
  shows "(max_cpu_time_ms config = limit \<and> \<not> mr_timed_out m \<and> max_memory_bytes config = 0 \<and> 0 \<le> mr_cpu_time_ms m \<longrightarrow>
      map_monitor_result_to_judge_code config m = J_CPU_TIME_LIMIT_EXCEEDED) \<and>
    (0 \<le> elapsed \<longrightarrow> real_time_limit_exceeded elapsed limit)"
proof -
  let ?u = "uint limit"
  have "2147483648 \<le> int (unat limit)" using assms by linarith
  then have u: "2147483648 \<le> ?u" "?u < 4294967296"
    using unsigned_less [of limit, where ?'a = int] by (simp_all add: uint_nat [symmetric] del: of_nat_unat)
  have "(?u + 2147483648) mod 4294967296 = ((?u - 2147483648) + 4294967296) mod 4294967296" by (simp add: add.commute)
  also have "\<dots> = ?u - 2147483648" using u by (subst mod_add_self2) simp
  finally have neg: "sint limit < 0"
    using u by (simp add: sint_uint signed_take_bit_eq_take_bit_shift take_bit_eq_mod)
  have pos: "limit > 0" using assms by (auto simp: word_gt_0)
  from neg pos show ?thesis
    by (auto simp: map_monitor_result_to_judge_code_def real_time_limit_exceeded_def)
qed

theorem huge_time_limits_always_exceeded_witness:
  "real_time_limit_exceeded 0 3000000000 \<and>
   map_monitor_result_to_judge_code (default_config\<lparr>max_cpu_time_ms := 3000000000\<rparr>) default_monitor_result
     = J_CPU_TIME_LIMIT_EXCEEDED"
  using huge_time_limits_always_exceeded [of 3000000000 "default_config\<lparr>max_cpu_time_ms := 3000000000\<rparr>" default_monitor_result 0]
  by (simp add: default_config_def default_monitor_result_def)

end
