(* ===== verification/Runner.thy ===== *)
theory Runner
  imports FileSystem SubmissionTypes Config Sjudger
begin

text \<open>
  \<open>src/runner\<close>: the C++ and Python runners, the execution and comparison helpers they share, and
  the factory. Programs that are not part of the repository are parameters, gathered in
  \<open>RunnerEnv\<close>: the shell behind \<open>system\<close> and \<open>popen\<close> (compilers, the checker), and the operating
  system under \<open>run_sjudger\<close> together with the files the user's program leaves. What never ends, a
  shell command or a judged program, is None.
\<close>

section \<open>Types\<close>

record RunnerPrepareResult =
  prep_ok :: bool
  prep_message :: string

record RunnerCompileResult =
  comp_ok :: bool
  comp_verdict :: SubmissionVerdict
  comp_message :: string

record RunnerCaseInput =
  case_seq_id :: int
  case_input_path :: path
  case_expected_output_path :: path
  case_cpu_time_limit_ms :: int
  case_real_time_limit_ms :: int
  case_memory_limit_kb :: uint64

record RunnerCaseResult =
  rcase_result :: SubmissionCaseResult
  rcase_message :: string

text \<open>
  \<open>env_system\<close> gives the status of \<open>std::system\<close> and the files afterwards, None when the command never
  ends (the call waits for it without a limit); \<open>env_popen\<close> gives likewise the standard output of a
  command, whose absence is a failure of \<open>popen\<close> itself; \<open>env_os\<close> gives the operating system as one run of \<open>run_sjudger\<close> meets it, and the
  files after that run.
\<close>

record RunnerEnv =
  env_tmp :: path
  env_what :: string
  env_config :: json
  env_system :: "string \<Rightarrow> FileSystem \<Rightarrow> (int \<times> FileSystem) option"
  env_popen :: "string \<Rightarrow> FileSystem \<Rightarrow> (string option \<times> FileSystem) option"
  env_os :: "judge_config \<Rightarrow> FileSystem \<Rightarrow> sjudge_os \<times> FileSystem"

text \<open>
  What an operation comes to: None when it never ends, an exception with its text, or a value; with
  the files at that moment.
\<close>

type_synonym 'a io = "(string \<times> FileSystem + 'a \<times> FileSystem) option"

section \<open>Comparing outputs\<close>

definition blank_right :: "char \<Rightarrow> bool" where
  "blank_right ch \<longleftrightarrow> ch = CHR '' '' \<or> ch = CHR 0x09 \<or> ch = CHR 0x0D"

text \<open>The loop that moves \<open>end\<close> to the left while the character before it is blank.\<close>

fun trim_end :: "string \<Rightarrow> nat \<Rightarrow> nat" where
  "trim_end line 0 = 0"
| "trim_end line (Suc e) = (if blank_right (line ! e) then trim_end line e else Suc e)"

definition trim_line_right :: "string \<Rightarrow> string" where
  "trim_line_right line = take (trim_end line (length line)) line"

text \<open>The second loop of \<open>normalize_output_lines\<close>.\<close>

function pop_empty_lines :: "string list \<Rightarrow> string list" where
  "pop_empty_lines lines =
     (if lines \<noteq> [] \<and> last lines = [] then pop_empty_lines (butlast lines) else lines)"
  by auto
termination by (relation "measure length") simp_all

declare pop_empty_lines.simps [simp del]

definition normalize_output_lines :: "path \<Rightarrow> FileSystem \<Rightarrow> string list" where
  "normalize_output_lines p fs = pop_empty_lines (map trim_line_right (getlines [] (read_file p fs)))"

definition checkerPath :: path where
  "checkerPath = ''/judge/checker/fcmp2''"

definition checkerCmd :: "path \<Rightarrow> path \<Rightarrow> path \<Rightarrow> string" where
  "checkerCmd input expected user = checkerPath @ '' '' @ input @ '' '' @ user @ '' '' @ expected"

definition compare_case_output ::
  "RunnerEnv \<Rightarrow> path \<Rightarrow> path \<Rightarrow> path \<Rightarrow> FileSystem \<Rightarrow> SubmissionVerdict io" where
  "compare_case_output renv input expected user fs =
     (case fs_exists fs checkerPath of
        Inl what \<Rightarrow> Some (Inl (what, fs))
      | Inr True \<Rightarrow>
          (case env_system renv (checkerCmd input expected user) fs of
             None \<Rightarrow> None
           | Some (status, fs') \<Rightarrow> Some (Inr (if status = 0 then AC else WA, fs')))
      | Inr False \<Rightarrow>
          Some (Inr (if normalize_output_lines expected fs = normalize_output_lines user fs then AC else WA, fs)))"

section \<open>Running one test case\<close>

definition map_judge_result_to_verdict :: "int \<Rightarrow> SubmissionVerdict" where
  "map_judge_result_to_verdict result_code =
     (if result_code = 0 then AC
      else if result_code = 1 \<or> result_code = 2 then TLE
      else if result_code = 3 then MLE
      else if result_code = 4 then RE
      else if result_code = 5 then SYSTEM_ERROR
      else UNKNOWN)"

text \<open>The configuration that \<open>run_executable_case\<close> builds.\<close>

definition case_config :: "json \<Rightarrow> path \<Rightarrow> RunnerCaseInput \<Rightarrow> path \<Rightarrow> judge_config" where
  "case_config c executable_path test_case user_output_path =
     default_config\<lparr>
       max_cpu_time_ms := (if case_cpu_time_limit_ms test_case > 0 then word_of_int (case_cpu_time_limit_ms test_case) else 0),
       max_real_time_ms := (if case_real_time_limit_ms test_case > 0 then word_of_int (case_real_time_limit_ms test_case) else 0),
       max_memory_bytes := (if case_memory_limit_kb test_case > 0 then case_memory_limit_kb test_case * 1024 else SJUDGE_UNLIMITED),
       cwd := parent_path executable_path,
       exe_path := executable_path,
       args := [executable_path],
       input_path := case_input_path test_case,
       output_path := user_output_path,
       error_path := user_output_path @ ''.err'',
       run_uid := word_of_int (getSjudgeRunUid c),
       run_gid := word_of_int (getSjudgeRunGid c),
       clear_supplementary_groups := getSjudgeClearSupplementaryGroups c,
       enable_seccomp := getSjudgeEnableSeccomp c,
       seccomp_deny_network := getSjudgeSeccompDenyNetwork c,
       seccomp_deny_process_spawn := getSjudgeSeccompDenyProcessSpawn c,
       cgroup_path := getSjudgeCgroupPath c,
       cgroup_memory_max_bytes := of_nat (getSjudgeCgroupMemoryMaxBytes c),
       cgroup_pids_max := word_of_int (getSjudgeCgroupPidsMax c),
       cgroup_cpu_max_quota_us := of_nat (getSjudgeCgroupCpuMaxQuotaUs c),
       cgroup_cpu_max_period_us := of_nat (getSjudgeCgroupCpuMaxPeriodUs c)\<rparr>"

definition case_failure :: "RunnerCaseInput \<Rightarrow> string \<Rightarrow> RunnerCaseResult" where
  "case_failure test_case message =
     \<lparr>rcase_result = default_case_result\<lparr>cr_seq_id := case_seq_id test_case, cr_verdict := SYSTEM_ERROR\<rparr>,
      rcase_message = message\<rparr>"

text \<open>The case result that carries over what \<open>run_sjudger\<close> measured.\<close>

definition measured_case :: "RunnerCaseInput \<Rightarrow> judge_result \<Rightarrow> SubmissionCaseResult" where
  "measured_case test_case r =
     default_case_result\<lparr>
       cr_seq_id := case_seq_id test_case,
       cr_cpu_time_ms := jr_cpu_time_ms r,
       cr_real_time_ms := jr_real_time_ms r,
       cr_memory_kb := (if jr_memory_bytes r > 0 then nat (jr_memory_bytes r div 1024) else 0),
       cr_signal := jr_signal r,
       cr_exit_code := jr_exit_code r,
       cr_error_code := jr_error r,
       cr_verdict := map_judge_result_to_verdict (jr_result r)\<rparr>"

definition run_executable_case ::
  "RunnerEnv \<Rightarrow> path \<Rightarrow> RunnerCaseInput \<Rightarrow> path \<Rightarrow> FileSystem \<Rightarrow> RunnerCaseResult io" where
  "run_executable_case renv executable_path test_case user_output_path fs =
     (case all_exist fs [executable_path, case_input_path test_case, case_expected_output_path test_case] of
        Inl what \<Rightarrow> Some (Inl (what, fs))
      | Inr False \<Rightarrow> Some (Inr (case_failure test_case ''missing executable or case files'', fs))
      | Inr True \<Rightarrow>
        let config = case_config (env_config renv) executable_path test_case user_output_path in
        case env_os renv config fs of
          (os, fs') \<Rightarrow>
            (case run_sjudger os config of
               None \<Rightarrow> None
             | Some r \<Rightarrow>
                 let measured = measured_case test_case r in
                 if jr_result r = judge_code J_SYSTEM_ERROR then
                   Some (Inr (\<lparr>rcase_result = measured, rcase_message = ''failed to execute in-process sjudger''\<rparr>, fs'))
                 else if cr_verdict measured = AC then
                   (case compare_case_output renv (case_input_path test_case)
                       (case_expected_output_path test_case) user_output_path fs' of
                      None \<Rightarrow> None
                    | Some (Inl e) \<Rightarrow> Some (Inl e)
                    | Some (Inr (verdict, fs'')) \<Rightarrow>
                        Some (Inr (\<lparr>rcase_result = measured\<lparr>cr_verdict := verdict\<rparr>,
                               rcase_message = (if verdict = AC then user_output_path else ''output mismatch'')\<rparr>, fs'')))
                 else Some (Inr (\<lparr>rcase_result = measured, rcase_message = []\<rparr>, fs'))))"

section \<open>Paths of a submission\<close>

definition runner_work_dir_for :: "RunnerEnv \<Rightarrow> SubmissionRequest \<Rightarrow> path" where
  "runner_work_dir_for renv request = path_join (env_tmp renv) (''oj_compile_'' @ int_to_string (req_uuid request))"

definition cpp_source_path_for :: "RunnerEnv \<Rightarrow> SubmissionRequest \<Rightarrow> path" where
  "cpp_source_path_for renv request = path_join (runner_work_dir_for renv request) ''solution.cpp''"

definition executable_path_for :: "RunnerEnv \<Rightarrow> SubmissionRequest \<Rightarrow> path" where
  "executable_path_for renv request = path_join (runner_work_dir_for renv request) ''solution''"

definition compile_log_path_for :: "RunnerEnv \<Rightarrow> SubmissionRequest \<Rightarrow> path" where
  "compile_log_path_for renv request = path_join (runner_work_dir_for renv request) ''compile.log''"

definition user_output_path_for :: "RunnerEnv \<Rightarrow> SubmissionRequest \<Rightarrow> RunnerCaseInput \<Rightarrow> path" where
  "user_output_path_for renv request test_case =
     path_join (runner_work_dir_for renv request) (''case_'' @ int_to_string (case_seq_id test_case) @ ''.user.out'')"

definition py_source_path_for :: "RunnerEnv \<Rightarrow> SubmissionRequest \<Rightarrow> path" where
  "py_source_path_for renv request = path_join (runner_work_dir_for renv request) ''solution.py''"

definition wrapper_path_for :: "RunnerEnv \<Rightarrow> SubmissionRequest \<Rightarrow> path" where
  "wrapper_path_for renv request = path_join (runner_work_dir_for renv request) ''run_python.sh''"

definition has_basic_request_fields :: "SubmissionRequest \<Rightarrow> bool" where
  "has_basic_request_fields request \<longleftrightarrow> req_uuid request > 0 \<and> req_code request \<noteq> []"

section \<open>The C++ runner\<close>

text \<open>
  \<open>run_command_capture_stdout\<close> throws when \<open>popen\<close> fails; the caller catches that, and an exception of
  \<open>exists\<close>.
\<close>

definition compile_command :: "path \<Rightarrow> path \<Rightarrow> path \<Rightarrow> string" where
  "compile_command source_file executable_file compile_log_file =
     ''g++ -std=c++17 -O2 -DONLINE_JUDGE  -o '' @ executable_file @ '' '' @ source_file @ '' 2> '' @ compile_log_file"

definition compile_cpp_source_file ::
  "RunnerEnv \<Rightarrow> path \<Rightarrow> path \<Rightarrow> path \<Rightarrow> FileSystem \<Rightarrow> (bool \<times> string \<times> FileSystem) option" where
  "compile_cpp_source_file renv source_file executable_file compile_log_file fs =
     (case env_popen renv (compile_command source_file executable_file compile_log_file) fs of
        None \<Rightarrow> None
      | Some (None, fs') \<Rightarrow> Some (False, [], fs')
      | Some (Some out, fs') \<Rightarrow>
          (case fs_exists fs' executable_file of
             Inl what \<Rightarrow> Some (False, [], fs')
           | Inr found \<Rightarrow> Some (found, out, fs')))"

definition write_source ::
  "path \<Rightarrow> path \<Rightarrow> string \<Rightarrow> string \<Rightarrow> string \<Rightarrow> FileSystem \<Rightarrow> RunnerPrepareResult \<times> FileSystem" where
  "write_source work_dir source_path code dir_error file_error fs =
     (case create_directories work_dir (remove_all work_dir fs) of
        (False, fs') \<Rightarrow> (\<lparr>prep_ok = False, prep_message = dir_error\<rparr>, fs')
      | (True, fs') \<Rightarrow>
          (case write_file source_path code fs' of
             (False, fs'') \<Rightarrow> (\<lparr>prep_ok = False, prep_message = file_error\<rparr>, fs'')
           | (True, fs'') \<Rightarrow> (\<lparr>prep_ok = True, prep_message = source_path\<rparr>, fs'')))"

definition cpp_prepare :: "RunnerEnv \<Rightarrow> SubmissionRequest \<Rightarrow> FileSystem \<Rightarrow> RunnerPrepareResult \<times> FileSystem" where
  "cpp_prepare renv request fs =
     (if \<not> has_basic_request_fields request
      then (\<lparr>prep_ok = False, prep_message = ''cpp runner requires uuid and code''\<rparr>, fs)
      else write_source (runner_work_dir_for renv request) (cpp_source_path_for renv request) (req_code request)
             ''failed to create cpp runner work dir'' ''failed to write cpp source file'' fs)"

definition cpp_compile :: "RunnerEnv \<Rightarrow> SubmissionRequest \<Rightarrow> FileSystem \<Rightarrow> RunnerCompileResult io" where
  "cpp_compile renv request fs =
     (if \<not> has_basic_request_fields request
      then Some (Inr (\<lparr>comp_ok = False, comp_verdict = SYSTEM_ERROR, comp_message = ''cpp runner requires uuid and code''\<rparr>, fs))
      else
        case fs_exists fs (cpp_source_path_for renv request) of
          Inl what \<Rightarrow> Some (Inl (what, fs))
        | Inr False \<Rightarrow>
            Some (Inr (\<lparr>comp_ok = False, comp_verdict = SYSTEM_ERROR, comp_message = ''cpp source file not prepared''\<rparr>, fs))
        | Inr True \<Rightarrow>
            (case compile_cpp_source_file renv (cpp_source_path_for renv request) (executable_path_for renv request)
                    (compile_log_path_for renv request) fs of
               None \<Rightarrow> None
             | Some (ok, out, fs') \<Rightarrow>
                 (case (if ok then fs_exists fs' (executable_path_for renv request) else Inr False) of
                    Inl what \<Rightarrow> Some (Inl (what, fs'))
                  | Inr True \<Rightarrow>
                      Some (Inr (\<lparr>comp_ok = True, comp_verdict = AC, comp_message = executable_path_for renv request\<rparr>, fs'))
                  | Inr False \<Rightarrow>
                      (let log = read_file (compile_log_path_for renv request) fs' in
                       Some (Inr (\<lparr>comp_ok = False, comp_verdict = CE, comp_message = (if log = [] then out else log)\<rparr>,
                         remove_all (runner_work_dir_for renv request) fs'))))))"

definition cpp_runCase ::
  "RunnerEnv \<Rightarrow> SubmissionRequest \<Rightarrow> RunnerCaseInput \<Rightarrow> FileSystem \<Rightarrow> RunnerCaseResult io" where
  "cpp_runCase renv request test_case fs =
     (if \<not> has_basic_request_fields request
      then Some (Inr (case_failure test_case ''cpp runner requires uuid and code'', fs))
      else
        case all_exist fs [executable_path_for renv request, case_input_path test_case, case_expected_output_path test_case] of
          Inl what \<Rightarrow> Some (Inl (what, fs))
        | Inr False \<Rightarrow> Some (Inr (case_failure test_case ''cpp runner missing executable or case files'', fs))
        | Inr True \<Rightarrow> run_executable_case renv (executable_path_for renv request) test_case
             (user_output_path_for renv request test_case) fs)"

section \<open>The Python runner\<close>

fun shell_escape_single_quotes :: "string \<Rightarrow> string" where
  "shell_escape_single_quotes [] = []"
| "shell_escape_single_quotes (ch # rest) =
     (if ch = CHR 0x27 then [CHR 0x27, CHR 0x5C, CHR 0x27, CHR 0x27] else [ch]) @ shell_escape_single_quotes rest"

definition py_compile_command :: "path \<Rightarrow> path \<Rightarrow> string" where
  "py_compile_command source_path compile_log =
     ''python3 -m py_compile '' @ [CHR 0x27] @ shell_escape_single_quotes source_path @ [CHR 0x27] @ '' > '' @ [CHR 0x27] @
     shell_escape_single_quotes compile_log @ [CHR 0x27] @ '' 2>&1''"

definition wrapper_script :: "path \<Rightarrow> string" where
  "wrapper_script source_path =
     ''#!/bin/sh'' @ [CHR 0x0A] @ ''exec python3 '' @ [CHR 0x27] @ shell_escape_single_quotes source_path @ [CHR 0x27, CHR 0x0A]"

definition py_prepare :: "RunnerEnv \<Rightarrow> SubmissionRequest \<Rightarrow> FileSystem \<Rightarrow> RunnerPrepareResult \<times> FileSystem" where
  "py_prepare renv request fs =
     (if \<not> has_basic_request_fields request
      then (\<lparr>prep_ok = False, prep_message = ''python runner requires uuid and code''\<rparr>, fs)
      else write_source (runner_work_dir_for renv request) (py_source_path_for renv request) (req_code request)
             ''failed to create python runner work dir'' ''failed to write python source file'' fs)"

definition py_compile :: "RunnerEnv \<Rightarrow> SubmissionRequest \<Rightarrow> FileSystem \<Rightarrow> RunnerCompileResult io" where
  "py_compile renv request fs =
     (if \<not> has_basic_request_fields request
      then Some (Inr (\<lparr>comp_ok = False, comp_verdict = SYSTEM_ERROR, comp_message = ''python runner requires uuid and code''\<rparr>, fs))
      else
        case fs_exists fs (py_source_path_for renv request) of
          Inl what \<Rightarrow> Some (Inl (what, fs))
        | Inr False \<Rightarrow>
            Some (Inr (\<lparr>comp_ok = False, comp_verdict = SYSTEM_ERROR, comp_message = ''python source file not prepared''\<rparr>, fs))
        | Inr True \<Rightarrow>
            (case env_system renv (py_compile_command (py_source_path_for renv request) (compile_log_path_for renv request)) fs of
               None \<Rightarrow> None
             | Some (status, fs') \<Rightarrow>
                 (case (if status = 0 then Inr True
                        else fs_exists fs' (path_join (runner_work_dir_for renv request) ''__pycache__'')) of
                    Inl what \<Rightarrow> Some (Inl (what, fs'))
                  | Inr True \<Rightarrow>
                      Some (Inr (\<lparr>comp_ok = True, comp_verdict = AC, comp_message = py_source_path_for renv request\<rparr>, fs'))
                  | Inr False \<Rightarrow>
                      Some (Inr (\<lparr>comp_ok = False, comp_verdict = CE,
                        comp_message = read_file (compile_log_path_for renv request) fs'\<rparr>, fs')))))"

definition py_runCase ::
  "RunnerEnv \<Rightarrow> SubmissionRequest \<Rightarrow> RunnerCaseInput \<Rightarrow> FileSystem \<Rightarrow> RunnerCaseResult io" where
  "py_runCase renv request test_case fs =
     (if \<not> has_basic_request_fields request
      then Some (Inr (case_failure test_case ''python runner requires uuid and code'', fs))
      else
        case all_exist fs [py_source_path_for renv request, case_input_path test_case, case_expected_output_path test_case] of
          Inl what \<Rightarrow> Some (Inl (what, fs))
        | Inr False \<Rightarrow> Some (Inr (case_failure test_case ''python runner missing source or case files'', fs))
        | Inr True \<Rightarrow>
            (case write_file (wrapper_path_for renv request) (wrapper_script (py_source_path_for renv request)) fs of
               (False, fs') \<Rightarrow> Some (Inr (case_failure test_case ''failed to create python wrapper script'', fs'))
             | (True, fs') \<Rightarrow>
                 run_executable_case renv (wrapper_path_for renv request) test_case
                   (user_output_path_for renv request test_case) (chmod (wrapper_path_for renv request) 448 fs')))"

section \<open>The interface and the factory\<close>

text \<open>
  \<open>runner_work_dir_for\<close> asks for the temporary directory, which throws when that is not a directory;
  each operation asks for it right after it has checked the request. \<open>env_what\<close> is the text of that
  exception, an exception is the left summand.
\<close>

definition tmp_ready :: "RunnerEnv \<Rightarrow> FileSystem \<Rightarrow> bool" where
  "tmp_ready renv fs \<longleftrightarrow> fs_node fs (env_tmp renv) = Some Directory"

definition or_throw :: "RunnerEnv \<Rightarrow> SubmissionRequest \<Rightarrow> FileSystem \<Rightarrow> 'a io \<Rightarrow> 'a io" where
  "or_throw renv request fs x =
     (if has_basic_request_fields request \<and> \<not> tmp_ready renv fs then Some (Inl (env_what renv, fs)) else x)"

definition prepare_or_throw ::
  "RunnerEnv \<Rightarrow> SubmissionRequest \<Rightarrow> FileSystem \<Rightarrow> RunnerPrepareResult \<times> FileSystem \<Rightarrow>
     string + (RunnerPrepareResult \<times> FileSystem)" where
  "prepare_or_throw renv request fs x =
     (if has_basic_request_fields request \<and> \<not> tmp_ready renv fs then Inl (env_what renv) else Inr x)"

record ILanguageRunner =
  runner_prepare :: "RunnerEnv \<Rightarrow> SubmissionRequest \<Rightarrow> FileSystem \<Rightarrow> string + (RunnerPrepareResult \<times> FileSystem)"
  runner_compile :: "RunnerEnv \<Rightarrow> SubmissionRequest \<Rightarrow> FileSystem \<Rightarrow> RunnerCompileResult io"
  runner_runCase :: "RunnerEnv \<Rightarrow> SubmissionRequest \<Rightarrow> RunnerCaseInput \<Rightarrow> FileSystem \<Rightarrow> RunnerCaseResult io"

definition CppRunner :: ILanguageRunner where
  "CppRunner =
     \<lparr>runner_prepare = (\<lambda>renv q fs. prepare_or_throw renv q fs (cpp_prepare renv q fs)),
      runner_compile = (\<lambda>renv q fs. or_throw renv q fs (cpp_compile renv q fs)),
      runner_runCase = (\<lambda>renv q tc fs. or_throw renv q fs (cpp_runCase renv q tc fs))\<rparr>"

definition PythonRunner :: ILanguageRunner where
  "PythonRunner =
     \<lparr>runner_prepare = (\<lambda>renv q fs. prepare_or_throw renv q fs (py_prepare renv q fs)),
      runner_compile = (\<lambda>renv q fs. or_throw renv q fs (py_compile renv q fs)),
      runner_runCase = (\<lambda>renv q tc fs. or_throw renv q fs (py_runCase renv q tc fs))\<rparr>"

text \<open>None stands for the null pointer.\<close>

fun createRunner :: "SubmissionLanguage \<Rightarrow> ILanguageRunner option" where
  "createRunner CPP = Some CppRunner"
| "createRunner PYTHON = Some PythonRunner"
| "createRunner C = None"

end
