(* ===== verification/RunnerFacts.thy ===== *)
theory RunnerFacts
  imports Runner
begin

text \<open>
  What the runners guarantee: the comparison of outputs ignores trailing white space, a path
  survives the shell quoting, preparation leaves exactly the submitted source, and the verdict of a
  test case is decided by \<open>run_sjudger\<close> and the comparison. The locale \<open>language_runner\<close> states what
  the service relies on of every runner; both runners are interpreted.
\<close>

section \<open>Trailing white space\<close>

lemma trim_end_snoc: "i \<le> length xs \<Longrightarrow> trim_end (xs @ ys) i = trim_end xs i"
  by (induction i) (simp_all add: nth_append)

lemma trim_line_right_snoc:
  "trim_line_right (xs @ [ch]) = (if blank_right ch then trim_line_right xs else xs @ [ch])"
proof -
  have "trim_end xs i \<le> i" for i by (induction i) simp_all
  then have "take (trim_end xs (length xs)) (xs @ [ch]) = take (trim_end xs (length xs)) xs" by simp
  then show ?thesis by (simp add: trim_line_right_def nth_append trim_end_snoc)
qed

lemma trim_line_right_Nil [simp]: "trim_line_right [] = []"
  by (simp add: trim_line_right_def)

lemma trim_line_right_reference: "trim_line_right line = rev (dropWhile blank_right (rev line))"
  by (induction line rule: rev_induct) (simp_all add: trim_line_right_snoc)

lemma pop_empty_lines_snoc: "pop_empty_lines (ls @ [l]) = (if l = [] then pop_empty_lines ls else ls @ [l])"
  by (simp add: pop_empty_lines.simps [of "ls @ [l]"])

text \<open>What one more character does to the list of lines.\<close>

lemma getlines_snoc:
  "\<exists>ls p. getlines cur c = ls @ (if p = [] then [] else [p]) \<and> getlines cur (c @ [CHR 0x0A]) = ls @ [p] \<and>
     (\<forall>ch. ch \<noteq> CHR 0x0A \<longrightarrow> getlines cur (c @ [ch]) = ls @ [p @ [ch]])"
proof (induction cur c rule: getlines.induct)
  case (1 cur)
  then show ?case by (intro exI [of _ "[]"] exI [of _ cur]) simp
next
  case (2 cur ch rest)
  show ?case
  proof (cases "ch = CHR 0x0A")
    case True
    from "2.IH"(1) [OF this] obtain ls p where
      "getlines [] rest = ls @ (if p = [] then [] else [p])" "getlines [] (rest @ [CHR 0x0A]) = ls @ [p]"
      "\<forall>ch. ch \<noteq> CHR 0x0A \<longrightarrow> getlines [] (rest @ [ch]) = ls @ [p @ [ch]]" by blast
    with True show ?thesis by (intro exI [of _ "cur # ls"] exI [of _ p]) simp
  next
    case False
    with "2.IH"(2) [OF this] show ?thesis by simp
  qed
qed

definition normalized :: "string \<Rightarrow> string list" where
  "normalized content = pop_empty_lines (map trim_line_right (getlines [] content))"

lemma normalized_snoc: "blank_right ch \<or> ch = CHR 0x0A \<Longrightarrow> normalized (c @ [ch]) = normalized c"
proof -
  assume ch: "blank_right ch \<or> ch = CHR 0x0A"
  obtain ls p where g: "getlines [] c = ls @ (if p = [] then [] else [p])"
    "getlines [] (c @ [CHR 0x0A]) = ls @ [p]"
    "\<forall>ch. ch \<noteq> CHR 0x0A \<longrightarrow> getlines [] (c @ [ch]) = ls @ [p @ [ch]]"
    using getlines_snoc by blast
  have "normalized c = pop_empty_lines (map trim_line_right ls @ [trim_line_right p])"
    by (simp add: normalized_def g(1) pop_empty_lines_snoc)
  moreover have "normalized (c @ [ch]) = pop_empty_lines (map trim_line_right ls @ [trim_line_right p])"
    using ch g(2,3) by (cases "ch = CHR 0x0A") (simp_all add: normalized_def trim_line_right_snoc)
  ultimately show ?thesis by simp
qed

lemma normalized_append: "\<forall>ch \<in> set w. blank_right ch \<or> ch = CHR 0x0A \<Longrightarrow> normalized (c @ w) = normalized c"
proof (induction w rule: rev_induct)
  case (snoc ch w)
  then show ?case using normalized_snoc [of ch "c @ w"] by simp
qed simp

lemma normalize_reads: "normalize_output_lines p fs = normalized (read_file p fs)"
  by (simp add: normalize_output_lines_def normalized_def)

text \<open>
  Without the checker program, white space at the end of the user's output does not matter:
  an output that is the expected text followed by blanks, carriage returns and newlines is
  accepted, and the verdict is \<open>AC\<close> exactly when the lines agree after their trailing blanks and
  the trailing empty lines are removed.
\<close>

theorem compare_ignores_trailing_space:
  assumes "fs_exists fs checkerPath = Inr False"
  shows "(compare_case_output renv input expected user fs = Some (Inr (AC, fs)) \<longleftrightarrow>
      normalized (read_file expected fs) = normalized (read_file user fs)) \<and>
    (read_file user fs = read_file expected fs @ w \<longrightarrow> (\<forall>ch \<in> set w. blank_right ch \<or> ch = CHR 0x0A) \<longrightarrow>
      compare_case_output renv input expected user fs = Some (Inr (AC, fs)))"
proof -
  have iff: "compare_case_output renv input expected user fs = Some (Inr (AC, fs)) \<longleftrightarrow>
      normalized (read_file expected fs) = normalized (read_file user fs)"
    using assms by (simp add: compare_case_output_def normalize_reads)
  then show ?thesis by (simp add: normalized_append)
qed

definition sample_fs :: FileSystem where
  "sample_fs =
     \<lparr>fs_nodes = [(''/e'', RegularFile (''1 2'' @ [CHR 0x0A]) 420),
                  (''/u'', RegularFile (''1 2'' @ [CHR 0x0A, CHR '' '', CHR 0x0D, CHR 0x0A]) 420)],
      fs_denied = (\<lambda>_. False), fs_status_error = (\<lambda>_. None)\<rparr>"

theorem compare_ignores_trailing_space_witness:
  "compare_case_output \<lparr>env_tmp = [], env_what = [], env_config = JNull, env_system = (\<lambda>_ fs. Some (1, fs)),
     env_popen = (\<lambda>_ fs. Some (None, fs)), env_os = (\<lambda>_ fs. (quiet_os 0 0, fs))\<rparr> ''/i'' ''/e'' ''/u'' sample_fs
   = Some (Inr (AC, sample_fs))"
proof -
  have "fs_exists sample_fs checkerPath = Inr False" by code_simp
  from compare_ignores_trailing_space [OF this, of _ _ "''/e''" "''/u''" "[CHR '' '', CHR 0x0D, CHR 0x0A]"]
  show ?thesis by (simp add: sample_fs_def read_file_def fs_node_def blank_right_def)
qed

section \<open>Shell quoting\<close>

text \<open>
  A shell's reading of one word: inside single quotes every character stands for itself, outside a
  backslash takes the next character literally. None is a word that is not closed.
\<close>

fun shell_word :: "bool \<Rightarrow> string \<Rightarrow> string option" where
  "shell_word quoted [] = (if quoted then None else Some [])"
| "shell_word True (ch # rest) =
     (if ch = CHR 0x27 then shell_word False rest else map_option (Cons ch) (shell_word True rest))"
| "shell_word False (ch # rest) =
     (if ch = CHR 0x27 then shell_word True rest
      else if ch = CHR 0x5C then (case rest of [] \<Rightarrow> None | c # cs \<Rightarrow> map_option (Cons c) (shell_word False cs))
      else map_option (Cons ch) (shell_word False rest))"

lemma shell_word_escaped:
  "shell_word True (shell_escape_single_quotes s @ [CHR 0x27]) = Some s"
  by (induction s) simp_all

text \<open>
  The quoting of the Python runner is sound: whatever characters a path has, the shell reads
  the quoted path back as that path.
\<close>

theorem shell_quote_roundtrip:
  "shell_word False ([CHR 0x27] @ shell_escape_single_quotes s @ [CHR 0x27]) = Some s"
  by (simp add: shell_word_escaped)

section \<open>One test case\<close>

lemma run_sjudger_result_range: "run_sjudger os config = Some r \<Longrightarrow> 0 \<le> jr_result r \<and> jr_result r \<le> 5"
proof -
  have m: "0 \<le> judge_code (map_monitor_result_to_judge_code c m) \<and> judge_code (map_monitor_result_to_judge_code c m) \<le> 5" for c m
    by (simp add: map_monitor_result_to_judge_code_def)
  assume "run_sjudger os config = Some r"
  then show ?thesis using m [of config]
    by (auto simp: run_sjudger_def validate_judge_config_def Let_def split: if_splits option.splits prod.splits)
qed

definition judged :: "SubmissionVerdict \<Rightarrow> bool" where
  "judged v \<longleftrightarrow> v \<in> {AC, WA, TLE, MLE, RE, SYSTEM_ERROR}"

lemma judged_map: "0 \<le> code \<Longrightarrow> code \<le> 5 \<Longrightarrow> judged (map_judge_result_to_verdict code)"
  by (auto simp: judged_def map_judge_result_to_verdict_def)

lemma map_AC_iff: "map_judge_result_to_verdict code = AC \<longleftrightarrow> code = judge_code J_SUCCESS"
  by (simp add: map_judge_result_to_verdict_def)

lemma compare_judged: "compare_case_output renv i e u fs = Some (Inr (v, fs')) \<Longrightarrow> judged v"
  by (auto simp: compare_case_output_def judged_def split: if_splits prod.splits sum.splits bool.splits option.splits)

lemma measured_case_seq [simp]: "cr_seq_id (measured_case tc r) = case_seq_id tc"
  by (simp add: measured_case_def)

lemma measured_case_verdict [simp]: "cr_verdict (measured_case tc r) = map_judge_result_to_verdict (jr_result r)"
  by (simp add: measured_case_def)

lemma case_failure_simps [simp]:
  "cr_seq_id (rcase_result (case_failure tc m)) = case_seq_id tc"
  "cr_verdict (rcase_result (case_failure tc m)) = SYSTEM_ERROR"
  by (simp_all add: case_failure_def)

lemma run_executable_case_judged:
  "run_executable_case renv exe tc out fs = Some (Inr (res, fs')) \<Longrightarrow>
     cr_seq_id (rcase_result res) = case_seq_id tc \<and> judged (cr_verdict (rcase_result res))"
  by (auto simp: run_executable_case_def Let_def judged_def [of SYSTEM_ERROR]
      dest!: run_sjudger_result_range dest: compare_judged intro!: judged_map
      split: if_splits option.splits prod.splits sum.splits bool.splits)

text \<open>The run of the sandbox that a test case makes.\<close>

definition case_run :: "RunnerEnv \<Rightarrow> path \<Rightarrow> RunnerCaseInput \<Rightarrow> path \<Rightarrow> FileSystem \<Rightarrow> judge_result option" where
  "case_run renv exe tc out fs =
     (let config = case_config (env_config renv) exe tc out in run_sjudger (fst (env_os renv config fs)) config)"

text \<open>
  C9. A test case is accepted exactly when the executable and the case files exist, the sandbox
  reports success and the comparison accepts the output that the program left; every other outcome
  is one of the judged verdicts, and the result carries the number of the test case.
\<close>

theorem case_accepted_iff:
  assumes "run_executable_case renv exe tc out fs = Some (Inr (res, fs'))"
  shows "(cr_verdict (rcase_result res) = AC \<longleftrightarrow>
      (\<forall>p \<in> {exe, case_input_path tc, case_expected_output_path tc}. fs_exists fs p = Inr True) \<and>
      (\<exists>r. case_run renv exe tc out fs = Some r \<and> jr_result r = judge_code J_SUCCESS) \<and>
      compare_case_output renv (case_input_path tc) (case_expected_output_path tc) out
        (snd (env_os renv (case_config (env_config renv) exe tc out) fs)) = Some (Inr (AC, fs'))) \<and>
    judged (cr_verdict (rcase_result res)) \<and> cr_seq_id (rcase_result res) = case_seq_id tc"
proof -
  let ?c = "case_config (env_config renv) exe tc out"
  obtain os fs1 where os: "env_os renv ?c fs = (os, fs1)" by (cases "env_os renv ?c fs")
  let ?files = "\<forall>p \<in> {exe, case_input_path tc, case_expected_output_path tc}. fs_exists fs p = Inr True"
  have files: "?files \<longleftrightarrow> all_exist fs [exe, case_input_path tc, case_expected_output_path tc] = Inr True"
    by (simp only: all_exist_Inr_True) simp
  have "cr_verdict (rcase_result res) = AC \<longleftrightarrow> ?files \<and>
      (\<exists>r. case_run renv exe tc out fs = Some r \<and> jr_result r = judge_code J_SUCCESS) \<and>
      compare_case_output renv (case_input_path tc) (case_expected_output_path tc) out fs1 = Some (Inr (AC, fs'))"
    using assms os unfolding files
    by (auto simp: run_executable_case_def case_run_def Let_def map_AC_iff
        split: if_splits option.splits prod.splits sum.splits bool.splits simp del: all_exist.simps)
  with run_executable_case_judged [OF assms] os show ?thesis by simp
qed

definition sample_env :: RunnerEnv where
  "sample_env =
     \<lparr>env_tmp = ''/tmp'', env_what = ''no temporary directory'', env_config = JNull, env_system = (\<lambda>_ fs. Some (0, fs)),
      env_popen = (\<lambda>_ fs. Some (None, fs)),
      env_os = (\<lambda>_ fs. (quiet_os 0 0, fs))\<rparr>"

definition sample_case :: RunnerCaseInput where
  "sample_case =
     \<lparr>case_seq_id = 1, case_input_path = ''/e'', case_expected_output_path = ''/e'', case_cpu_time_limit_ms = 1000,
      case_real_time_limit_ms = 1000, case_memory_limit_kb = 1048576\<rparr>"

theorem case_accepted_iff_witness:
  "\<exists>res fs'. run_executable_case sample_env ''/e'' sample_case ''/u'' sample_fs = Some (Inr (res, fs')) \<and>
     judged (cr_verdict (rcase_result res)) \<and> cr_verdict (rcase_result res) = AC"
proof -
  have "case run_executable_case sample_env ''/e'' sample_case ''/u'' sample_fs of
      Some (Inr (res, _)) \<Rightarrow> cr_verdict (rcase_result res) = AC | _ \<Rightarrow> False" by code_simp
  then obtain res fs' where
    r: "run_executable_case sample_env ''/e'' sample_case ''/u'' sample_fs = Some (Inr (res, fs'))"
      "cr_verdict (rcase_result res) = AC" by (auto split: option.splits sum.splits)
  with case_accepted_iff [OF r(1)] show ?thesis by blast
qed

section \<open>The contract of a runner\<close>

locale language_runner =
  fixes prepare :: "SubmissionRequest \<Rightarrow> FileSystem \<Rightarrow> string + (RunnerPrepareResult \<times> FileSystem)"
    and compile :: "SubmissionRequest \<Rightarrow> FileSystem \<Rightarrow> RunnerCompileResult io"
    and run_case :: "SubmissionRequest \<Rightarrow> RunnerCaseInput \<Rightarrow> FileSystem \<Rightarrow> RunnerCaseResult io"
  assumes refuses_empty: "\<not> has_basic_request_fields q \<Longrightarrow> \<exists>r. prepare q fs = Inr (r, fs) \<and> \<not> prep_ok r"
    and compile_verdict: "compile q fs = Some (Inr (r, fs')) \<Longrightarrow> \<not> comp_ok r \<Longrightarrow> comp_verdict r \<in> {CE, SYSTEM_ERROR}"
    and case_judged: "run_case q tc fs = Some (Inr (res, fs')) \<Longrightarrow>
      cr_seq_id (rcase_result res) = case_seq_id tc \<and> judged (cr_verdict (rcase_result res))"

lemma cpp_case_judged:
  "cpp_runCase renv q tc fs = Some (Inr (res, fs')) \<Longrightarrow>
     cr_seq_id (rcase_result res) = case_seq_id tc \<and> judged (cr_verdict (rcase_result res))"
  by (auto simp: cpp_runCase_def judged_def [of SYSTEM_ERROR] dest: run_executable_case_judged
      split: if_splits sum.splits bool.splits)

lemma py_case_judged:
  "py_runCase renv q tc fs = Some (Inr (res, fs')) \<Longrightarrow>
     cr_seq_id (rcase_result res) = case_seq_id tc \<and> judged (cr_verdict (rcase_result res))"
  by (auto simp: py_runCase_def judged_def [of SYSTEM_ERROR] dest: run_executable_case_judged
      split: if_splits prod.splits bool.splits sum.splits)

lemmas runner_defs = CppRunner_def PythonRunner_def or_throw_def prepare_or_throw_def

interpretation cpp: language_runner "runner_prepare CppRunner renv" "runner_compile CppRunner renv" "runner_runCase CppRunner renv"
  for renv
proof
  show "\<not> has_basic_request_fields q \<Longrightarrow> \<exists>r. runner_prepare CppRunner renv q fs = Inr (r, fs) \<and> \<not> prep_ok r" for q fs
    by (simp add: runner_defs cpp_prepare_def)
  show "runner_compile CppRunner renv q fs = Some (Inr (r, fs')) \<Longrightarrow> \<not> comp_ok r \<Longrightarrow> comp_verdict r \<in> {CE, SYSTEM_ERROR}" for q fs r fs'
    by (auto simp: runner_defs cpp_compile_def Let_def split: if_splits prod.splits sum.splits bool.splits option.splits)
  show "runner_runCase CppRunner renv q tc fs = Some (Inr (res, fs')) \<Longrightarrow>
      cr_seq_id (rcase_result res) = case_seq_id tc \<and> judged (cr_verdict (rcase_result res))" for q tc fs res fs'
    using cpp_case_judged by (auto simp: runner_defs split: if_splits)
qed

interpretation py: language_runner "runner_prepare PythonRunner renv" "runner_compile PythonRunner renv" "runner_runCase PythonRunner renv"
  for renv
proof
  show "\<not> has_basic_request_fields q \<Longrightarrow> \<exists>r. runner_prepare PythonRunner renv q fs = Inr (r, fs) \<and> \<not> prep_ok r" for q fs
    by (simp add: runner_defs py_prepare_def)
  show "runner_compile PythonRunner renv q fs = Some (Inr (r, fs')) \<Longrightarrow> \<not> comp_ok r \<Longrightarrow> comp_verdict r \<in> {CE, SYSTEM_ERROR}" for q fs r fs'
    by (auto simp: runner_defs py_compile_def split: if_splits prod.splits sum.splits bool.splits option.splits)
  show "runner_runCase PythonRunner renv q tc fs = Some (Inr (res, fs')) \<Longrightarrow>
      cr_seq_id (rcase_result res) = case_seq_id tc \<and> judged (cr_verdict (rcase_result res))" for q tc fs res fs'
    using py_case_judged by (auto simp: runner_defs split: if_splits)
qed

text \<open>The contract of whatever runner the factory gives.\<close>

lemma createRunner_contract:
  "createRunner l = Some r \<Longrightarrow>
     language_runner (runner_prepare r renv) (runner_compile r renv) (runner_runCase r renv)"
  using cpp.language_runner_axioms py.language_runner_axioms by (cases l) auto

lemma createRunner_None: "createRunner l = None \<longleftrightarrow> l = C"
  by (cases l) simp_all

section \<open>Preparation\<close>

lemma ancestors_from_prefix: "d \<in> set (ancestors_from a s) \<Longrightarrow> prefix d (a @ s)"
proof (induction a s rule: ancestors_from.induct)
  case (1 a)
  then show ?case by (simp split: if_splits)
next
  case (2 a ch s)
  then show ?case by (auto split: if_splits)
qed

lemma below_ancestor: "d \<in> set (path_ancestors p) \<Longrightarrow> below p d \<Longrightarrow> d = p"
proof -
  assume "d \<in> set (path_ancestors p)" and b: "below p d"
  then have "length d \<le> length p"
    using ancestors_from_prefix [of d "[]" p] by (simp add: path_ancestors_def prefix_length_le)
  then have "\<not> prefix (p @ ''/'') d" by (auto dest!: prefix_length_le)
  with b show ?thesis by (simp add: below_def)
qed

lemma make_dirs_adds:
  "make_dirs ds fs = (ok, fs') \<Longrightarrow> fs_has fs' p \<Longrightarrow> fs_has fs p \<or> p \<in> set ds"
proof (induction ds fs rule: make_dirs.induct)
  case (2 d ds fs)
  have "fs_has (set_node d Directory fs) p \<Longrightarrow> fs_has fs p \<or> p = d"
    by (auto simp: fs_has_def fs_node_def set_node_def update_conv split: if_splits)
  with 2 show ?case by (auto split: option.splits FsNode.splits if_splits)
qed simp

lemma make_dirs_denied: "make_dirs ds fs = (ok, fs') \<Longrightarrow> fs_denied fs' = fs_denied fs"
  by (induction ds fs rule: make_dirs.induct) (auto split: option.splits FsNode.splits if_splits)

lemma write_source_fresh:
  assumes "write_source dir src code e1 e2 fs = (r, fs')" "prep_ok r" "src \<noteq> ''/''" "dir \<noteq> ''/''" "dir \<noteq> []"
  shows "read_file src fs' = code \<and>
    ((\<forall>p. below dir p \<longrightarrow> \<not> fs_denied fs p) \<longrightarrow> (\<forall>p. below dir p \<and> fs_has fs' p \<longrightarrow> p = dir \<or> p = src))"
proof -
  from assms(1,2) obtain fs1 where d: "create_directories dir (remove_all dir fs) = (True, fs1)"
    and w: "write_file src code fs1 = (True, fs')"
    by (auto simp: write_source_def split: prod.splits bool.splits)
  have "read_file src fs' = code" using write_file_reads [OF w assms(3)] .
  moreover have "p = dir \<or> p = src" if p: "below dir p" "\<forall>q. below dir q \<longrightarrow> \<not> fs_denied fs q" "fs_has fs' p" for p
  proof (rule ccontr)
    assume "\<not> (p = dir \<or> p = src)"
    then have "p \<noteq> src" "p \<noteq> dir" by auto
    then have "fs_has fs1 p" using w p(3)
      by (auto simp: write_file_def fs_has_def fs_node_set_other split: if_splits)
    then have "fs_has (remove_all dir fs) p \<or> p \<in> set (path_ancestors dir)"
      using d make_dirs_adds unfolding create_directories_def by blast
    moreover have "p \<noteq> ''/''" using p(1) assms(4,5) by (auto simp: below_def prefix_def Cons_eq_append_conv)
    then have "\<not> fs_has (remove_all dir fs) p" using remove_all_gone [OF p(2,1)] by blast
    ultimately show False using below_ancestor p(1) \<open>p \<noteq> dir\<close> by blast
  qed
  ultimately show ?thesis by blast
qed

lemma path_join_root: "length b > 1 \<Longrightarrow> path_join a b \<noteq> ''/''"
  by (auto simp: path_join_def append_eq_Cons_conv)

lemma path_join_nonempty: "b \<noteq> [] \<Longrightarrow> path_join a b \<noteq> []"
  by (auto simp: path_join_def)

lemmas path_root_simps =
  cpp_source_path_for_def py_source_path_for_def runner_work_dir_for_def path_join_root path_join_nonempty

text \<open>
  A successful preparation leaves the submitted code, byte for byte, in the source file, and
  nothing else in the submission's work directory: files of an earlier run are gone, provided that
  the process may remove everything there (\<open>remove_all\<close> stops at the first entry it may not remove).
\<close>

theorem prepare_leaves_only_source:
  assumes "prep_ok (fst (cpp_prepare renv q fs))" and "prep_ok (fst (py_prepare renv q' fs))"
  shows "(let fs' = snd (cpp_prepare renv q fs) in
      read_file (cpp_source_path_for renv q) fs' = req_code q \<and>
      ((\<forall>p. below (runner_work_dir_for renv q) p \<longrightarrow> \<not> fs_denied fs p) \<longrightarrow>
        (\<forall>p. below (runner_work_dir_for renv q) p \<and> fs_has fs' p \<longrightarrow>
           p = runner_work_dir_for renv q \<or> p = cpp_source_path_for renv q))) \<and>
    (let fs' = snd (py_prepare renv q' fs) in
      read_file (py_source_path_for renv q') fs' = req_code q' \<and>
      ((\<forall>p. below (runner_work_dir_for renv q') p \<longrightarrow> \<not> fs_denied fs p) \<longrightarrow>
        (\<forall>p. below (runner_work_dir_for renv q') p \<and> fs_has fs' p \<longrightarrow>
           p = runner_work_dir_for renv q' \<or> p = py_source_path_for renv q')))"
proof
  obtain r fs' where r: "cpp_prepare renv q fs = (r, fs')" by (cases "cpp_prepare renv q fs")
  with assms(1) have "write_source (runner_work_dir_for renv q) (cpp_source_path_for renv q) (req_code q)
      ''failed to create cpp runner work dir'' ''failed to write cpp source file'' fs = (r, fs')" "prep_ok r"
    by (auto simp: cpp_prepare_def split: if_splits)
  from write_source_fresh [OF this] r
  show "let fs' = snd (cpp_prepare renv q fs) in
      read_file (cpp_source_path_for renv q) fs' = req_code q \<and>
      ((\<forall>p. below (runner_work_dir_for renv q) p \<longrightarrow> \<not> fs_denied fs p) \<longrightarrow>
        (\<forall>p. below (runner_work_dir_for renv q) p \<and> fs_has fs' p \<longrightarrow>
           p = runner_work_dir_for renv q \<or> p = cpp_source_path_for renv q))"
    by (simp add: path_root_simps)
next
  obtain r fs' where r: "py_prepare renv q' fs = (r, fs')" by (cases "py_prepare renv q' fs")
  with assms(2) have "write_source (runner_work_dir_for renv q') (py_source_path_for renv q') (req_code q')
      ''failed to create python runner work dir'' ''failed to write python source file'' fs = (r, fs')" "prep_ok r"
    by (auto simp: py_prepare_def split: if_splits)
  from write_source_fresh [OF this] r
  show "let fs' = snd (py_prepare renv q' fs) in
      read_file (py_source_path_for renv q') fs' = req_code q' \<and>
      ((\<forall>p. below (runner_work_dir_for renv q') p \<longrightarrow> \<not> fs_denied fs p) \<longrightarrow>
        (\<forall>p. below (runner_work_dir_for renv q') p \<and> fs_has fs' p \<longrightarrow>
           p = runner_work_dir_for renv q' \<or> p = py_source_path_for renv q'))"
    by (simp add: path_root_simps)
qed

theorem prepare_leaves_only_source_witness:
  "read_file ''/tmp/oj_compile_7/solution.cpp''
     (snd (cpp_prepare sample_env \<lparr>req_uuid = 7, req_pid = ''1000'', req_language = CPP, req_code = ''int main'' \<rparr>
        (sample_fs\<lparr>fs_nodes := [(''/tmp'', Directory), (''/tmp/oj_compile_7/old'', RegularFile ''x'' 420)]\<rparr>))) = ''int main''"
proof -
  let ?q = "\<lparr>req_uuid = 7, req_pid = ''1000'', req_language = CPP, req_code = ''int main'' \<rparr>"
  let ?fs = "sample_fs\<lparr>fs_nodes := [(''/tmp'', Directory), (''/tmp/oj_compile_7/old'', RegularFile ''x'' 420)]\<rparr>"
  have "prep_ok (fst (cpp_prepare sample_env ?q ?fs))" "prep_ok (fst (py_prepare sample_env ?q ?fs))"
    by code_simp+
  moreover have "cpp_source_path_for sample_env ?q = ''/tmp/oj_compile_7/solution.cpp''" by code_simp
  ultimately show ?thesis using prepare_leaves_only_source [of sample_env ?q ?fs ?q] by (simp add: Let_def)
qed

end
