(* ===== verification/ResultStore.thy ===== *)
theory ResultStore
  imports Config SubmissionTypes
begin

text \<open>
  \<open>src/pipeline/ResultStore.h\<close> and \<open>ResultStore.cpp\<close>: the in-memory store of submission
  snapshots, its status machine and its lazy clean-up. Every operation holds the store's
  mutex from start to end, so each is one atomic step. Times are nanoseconds of the
  monotonic clock; the readings of \<open>Clock::now()\<close> are arguments. \<open>c\<close> is the configuration
  document that \<open>Config::getInstance()\<close> holds.
\<close>

section \<open>State\<close>

type_synonym time = int

record StoredSubmission =
  ss_result :: SubmissionResult
  last_access_at :: time
  finished_at :: "time option"

record ResultStore =
  next_submission_id :: int
  results :: "(int \<times> StoredSubmission) list"
  override_retention_seconds :: "int option"
  override_max_stored_results :: "int option"

definition initial_store :: ResultStore where
  "initial_store =
     \<lparr>next_submission_id = 1, results = [], override_retention_seconds = None,
      override_max_stored_results = None\<rparr>"

section \<open>The status machine\<close>

definition is_terminal_status :: "SubmissionStatus \<Rightarrow> bool" where
  "is_terminal_status status \<longleftrightarrow> status = FINISHED \<or> status = FAILED"

definition isValidTransition :: "SubmissionStatus \<Rightarrow> SubmissionStatus \<Rightarrow> bool" where
  "isValidTransition current nxt =
     (if is_terminal_status current then False
      else if current = nxt then True
      else (case current of
          QUEUED \<Rightarrow> nxt = PREPARING \<or> nxt = FAILED
        | PREPARING \<Rightarrow> nxt = COMPILING \<or> nxt = FAILED
        | COMPILING \<Rightarrow> nxt = RUNNING \<or> nxt = FINISHED \<or> nxt = FAILED
        | RUNNING \<Rightarrow> nxt = FINISHED \<or> nxt = FAILED
        | FINISHED \<Rightarrow> False
        | FAILED \<Rightarrow> False))"

section \<open>Clean-up\<close>

definition resultRetentionSecondsLocked :: "json \<Rightarrow> ResultStore \<Rightarrow> int" where
  "resultRetentionSecondsLocked c st =
     (case override_retention_seconds st of Some v \<Rightarrow> v | None \<Rightarrow> getResultRetentionSeconds c)"

definition maxStoredResultsLocked :: "json \<Rightarrow> ResultStore \<Rightarrow> int" where
  "maxStoredResultsLocked c st =
     (case override_max_stored_results st of Some v \<Rightarrow> v | None \<Rightarrow> getMaxStoredResults c)"

definition nanos :: "int \<Rightarrow> time" where
  "nanos seconds = seconds * 1000000000"

text \<open>The first loop: the iterator walks the map and erases the expired terminal entries.\<close>

fun erase_expired :: "time \<Rightarrow> time \<Rightarrow> (int \<times> StoredSubmission) list \<Rightarrow> (int \<times> StoredSubmission) list" where
  "erase_expired now retention [] = []"
| "erase_expired now retention ((i, s) # rest) =
     (case finished_at s of
        None \<Rightarrow> (i, s) # erase_expired now retention rest
      | Some t \<Rightarrow>
          if now - t \<ge> retention then erase_expired now retention rest
          else (i, s) # erase_expired now retention rest)"

text \<open>The second loop collects the terminal entries, which \<open>std::sort\<close> orders by age.\<close>

fun finished_entries :: "(int \<times> StoredSubmission) list \<Rightarrow> (int \<times> time) list" where
  "finished_entries [] = []"
| "finished_entries ((i, s) # rest) =
     (case finished_at s of
        None \<Rightarrow> finished_entries rest
      | Some t \<Rightarrow> (i, t) # finished_entries rest)"

text \<open>The third loop erases the oldest ones until the map is small enough.\<close>

fun evict_oldest :: "int \<Rightarrow> (int \<times> time) list \<Rightarrow> (int \<times> StoredSubmission) list \<Rightarrow> (int \<times> StoredSubmission) list" where
  "evict_oldest max_stored [] rs = rs"
| "evict_oldest max_stored ((i, t) # es) rs =
     (if int (length rs) \<le> max_stored then rs
      else evict_oldest max_stored es (AList.delete i rs))"

definition cleanup_expired :: "json \<Rightarrow> time \<Rightarrow> ResultStore \<Rightarrow> (int \<times> StoredSubmission) list" where
  "cleanup_expired c now st =
     (let retention_seconds = resultRetentionSecondsLocked c st in
      if retention_seconds \<ge> 0 then erase_expired now (nanos retention_seconds) (results st)
      else results st)"

definition cleanupExpiredResultsLocked :: "json \<Rightarrow> time \<Rightarrow> ResultStore \<Rightarrow> ResultStore" where
  "cleanupExpiredResultsLocked c now st =
     (let max_stored = maxStoredResultsLocked c st;
          rs = cleanup_expired c now st
      in if max_stored \<le> 0 \<or> int (length rs) \<le> max_stored
         then st\<lparr>results := rs\<rparr>
         else st\<lparr>results := evict_oldest max_stored (sort_key snd (finished_entries rs)) rs\<rparr>)"

section \<open>The operations\<close>

text \<open>\<open>createSubmission\<close> reads the clock twice: \<open>now\<close> for the clean-up, \<open>now'\<close> for the record.\<close>

definition createSubmission ::
  "json \<Rightarrow> SubmissionRequest \<Rightarrow> time \<Rightarrow> time \<Rightarrow> ResultStore \<Rightarrow> int \<times> ResultStore" where
  "createSubmission c request now now' st0 =
     (let st = cleanupExpiredResultsLocked c now st0;
          submission_id = next_submission_id st;
          stored = \<lparr>ss_result = default_result\<lparr>sr_submission_id := submission_id, sr_status := QUEUED\<rparr>,
                    last_access_at = now', finished_at = None\<rparr>
      in (submission_id,
          st\<lparr>next_submission_id := wrap32 (submission_id + 1),
             results := AList.update submission_id stored (results st)\<rparr>))"

definition updateResult ::
  "json \<Rightarrow> int \<Rightarrow> SubmissionResult \<Rightarrow> time \<Rightarrow> ResultStore \<Rightarrow> bool \<times> ResultStore" where
  "updateResult c submission_id result now st0 =
     (let st = cleanupExpiredResultsLocked c now st0 in
      case map_of (results st) submission_id of
        None \<Rightarrow> (False, st)
      | Some it \<Rightarrow>
          if \<not> isValidTransition (sr_status (ss_result it)) (sr_status result) then (False, st)
          else
            let next_result = result\<lparr>sr_submission_id := submission_id\<rparr>;
                it' = it\<lparr>ss_result := next_result, last_access_at := now\<rparr>;
                it'' = (if is_terminal_status (sr_status next_result)
                        then it'\<lparr>finished_at := Some now\<rparr> else it')
            in (True,
                cleanupExpiredResultsLocked c now
                  (st\<lparr>results := AList.update submission_id it'' (results st)\<rparr>)))"

definition getResult :: "json \<Rightarrow> int \<Rightarrow> time \<Rightarrow> ResultStore \<Rightarrow> SubmissionResult option \<times> ResultStore" where
  "getResult c submission_id now st0 =
     (let st = cleanupExpiredResultsLocked c now st0 in
      case map_of (results st) submission_id of
        None \<Rightarrow> (None, st)
      | Some it \<Rightarrow>
          (Some (ss_result it),
           st\<lparr>results := AList.update submission_id (it\<lparr>last_access_at := now\<rparr>) (results st)\<rparr>))"

definition debugForceAgingForTest :: "int \<Rightarrow> int \<Rightarrow> time \<Rightarrow> ResultStore \<Rightarrow> ResultStore" where
  "debugForceAgingForTest submission_id age_seconds now st =
     (case map_of (results st) submission_id of
        None \<Rightarrow> st
      | Some it \<Rightarrow>
          let aged_time = now - nanos age_seconds;
              it' = it\<lparr>last_access_at := aged_time\<rparr>;
              it'' = (if is_terminal_status (sr_status (ss_result it'))
                      then it'\<lparr>finished_at := Some aged_time\<rparr> else it')
          in st\<lparr>results := AList.update submission_id it'' (results st)\<rparr>)"

definition debugConfigureCleanupForTest :: "int \<Rightarrow> int \<Rightarrow> ResultStore \<Rightarrow> ResultStore" where
  "debugConfigureCleanupForTest retention_seconds max_stored st =
     st\<lparr>override_retention_seconds := Some retention_seconds,
        override_max_stored_results := Some max_stored\<rparr>"

section \<open>Facts on the status machine\<close>

lemma isValidTransition_terminal: "is_terminal_status s \<Longrightarrow> \<not> isValidTransition s t"
  by (simp add: isValidTransition_def)

lemma isValidTransition_mono: "isValidTransition s t \<Longrightarrow> s \<le> t"
  by (cases s; cases t) (simp_all add: isValidTransition_def is_terminal_status_def status_order)

lemma isValidTransition_refl: "isValidTransition s s \<longleftrightarrow> \<not> is_terminal_status s"
  by (simp add: isValidTransition_def)

section \<open>Facts on the clean-up loops\<close>

definition expired :: "time \<Rightarrow> time \<Rightarrow> StoredSubmission \<Rightarrow> bool" where
  "expired now retention s \<longleftrightarrow> (case finished_at s of None \<Rightarrow> False | Some t \<Rightarrow> now - t \<ge> retention)"

lemma erase_expired_filter:
  "erase_expired now ret rs = filter (\<lambda>(i, s). \<not> expired now ret s) rs"
  by (induction now ret rs rule: erase_expired.induct) (auto simp: expired_def split: option.splits)

lemma finished_entries_mem:
  "wf_alist rs \<Longrightarrow>
     (i, t) \<in> set (finished_entries rs) \<longleftrightarrow> (\<exists>s. map_of rs i = Some s \<and> finished_at s = Some t)"
proof (induction rs rule: finished_entries.induct)
  case 1
  then show ?case by simp
next
  case (2 j s rest)
  then have "j \<notin> set (keys rest)" by simp
  then have "map_of rest j = None" by (simp add: map_of_eq_None_iff)
  with 2 show ?case by (auto split: option.splits)
qed

lemma finished_entries_keys: "set (keys (finished_entries rs)) \<subseteq> set (keys rs)"
  by (induction rs rule: finished_entries.induct) (auto split: option.splits)

lemma evict_oldest_deletes:
  "\<exists>n. evict_oldest m es rs = foldl (\<lambda>al i. AList.delete i al) rs (map fst (take n es))
       \<and> (int (length (evict_oldest m es rs)) \<le> m \<or> n \<ge> length es)"
proof (induction m es rs rule: evict_oldest.induct)
  case (1 m rs)
  then show ?case by simp
next
  case (2 m i t es rs)
  show ?case
  proof (cases "int (length rs) \<le> m")
    case True
    then show ?thesis by (intro exI [of _ 0]) simp
  next
    case False
    with "2.IH" obtain n where
      "evict_oldest m es (AList.delete i rs) =
         foldl (\<lambda>al i. AList.delete i al) (AList.delete i rs) (map fst (take n es))"
      "int (length (evict_oldest m es (AList.delete i rs))) \<le> m \<or> n \<ge> length es"
      by auto
    with False show ?thesis by (intro exI [of _ "Suc n"]) simp
  qed
qed

lemma foldl_delete_map_of:
  "map_of (foldl (\<lambda>al i. AList.delete i al) rs ds) k = (if k \<in> set ds then None else map_of rs k)"
  by (induction ds arbitrary: rs) (auto simp: delete_conv)

lemma foldl_delete_wf: "wf_alist rs \<Longrightarrow> wf_alist (foldl (\<lambda>al i. AList.delete i al) rs ds)"
  by (induction ds arbitrary: rs) (simp_all add: wf_alist_delete)

lemma evict_oldest_wf: "wf_alist rs \<Longrightarrow> wf_alist (evict_oldest m es rs)"
  using evict_oldest_deletes [of m es rs] foldl_delete_wf [of rs] by metis

lemma evict_oldest_map_of:
  "map_of (evict_oldest m es rs) k = map_of rs k \<or>
   map_of (evict_oldest m es rs) k = None \<and> k \<in> set (keys es)"
proof -
  obtain n where "evict_oldest m es rs = foldl (\<lambda>al i. AList.delete i al) rs (map fst (take n es))"
    using evict_oldest_deletes by blast
  then show ?thesis
    by (auto simp: foldl_delete_map_of take_map [symmetric] dest: in_set_takeD)
qed

lemma cleanup_expired_wf: "wf_alist (results st) \<Longrightarrow> wf_alist (cleanup_expired c now st)"
  by (simp add: cleanup_expired_def erase_expired_filter wf_alist_filter Let_def)

lemma cleanup_expired_map_of:
  "wf_alist (results st) \<Longrightarrow>
     map_of (cleanup_expired c now st) i = map_of (results st) i \<or>
     map_of (cleanup_expired c now st) i = None \<and>
       (\<exists>s. map_of (results st) i = Some s \<and> finished_at s \<noteq> None)"
  by (auto simp: cleanup_expired_def erase_expired_filter Let_def map_of_filter expired_def
      split: option.splits)

text \<open>The clean-up only ever drops records that are finished.\<close>

lemma cleanup_map_of:
  assumes wf: "wf_alist (results st)"
  shows "map_of (results (cleanupExpiredResultsLocked c now st)) i = map_of (results st) i \<or>
    map_of (results (cleanupExpiredResultsLocked c now st)) i = None \<and>
      (\<exists>s. map_of (results st) i = Some s \<and> finished_at s \<noteq> None)"
proof (cases "maxStoredResultsLocked c st \<le> 0 \<or>
    int (length (cleanup_expired c now st)) \<le> maxStoredResultsLocked c st")
  case True
  with cleanup_expired_map_of [OF wf, of c now i] show ?thesis
    by (simp add: cleanupExpiredResultsLocked_def Let_def)
next
  case False
  let ?rs = "cleanup_expired c now st" and ?m = "maxStoredResultsLocked c st"
  let ?es = "sort_key snd (finished_entries ?rs)"
  have res: "results (cleanupExpiredResultsLocked c now st) = evict_oldest ?m ?es ?rs"
    using False by (simp add: cleanupExpiredResultsLocked_def Let_def)
  have "\<exists>s. map_of (results st) i = Some s \<and> finished_at s \<noteq> None"
    if "i \<in> set (keys ?es)"
  proof -
    from that obtain t where "(i, t) \<in> set (finished_entries ?rs)" by auto
    with finished_entries_mem [OF cleanup_expired_wf [OF wf]] cleanup_expired_map_of [OF wf, of c now i]
    show ?thesis by fastforce
  qed
  with evict_oldest_map_of [of ?m ?es ?rs i] cleanup_expired_map_of [OF wf, of c now i] res
  show ?thesis by auto
qed

lemma cleanup_wf: "wf_alist (results st) \<Longrightarrow> wf_alist (results (cleanupExpiredResultsLocked c now st))"
  by (auto simp: cleanupExpiredResultsLocked_def Let_def
      intro: cleanup_expired_wf evict_oldest_wf)

lemma cleanup_next_id [simp]:
  "next_submission_id (cleanupExpiredResultsLocked c now st) = next_submission_id st"
  by (simp add: cleanupExpiredResultsLocked_def Let_def)

lemma cleanup_keeps_open:
  assumes "wf_alist (results st)" and "map_of (results st) i = Some s" and "finished_at s = None"
  shows "map_of (results (cleanupExpiredResultsLocked c now st)) i = Some s"
  using cleanup_map_of [OF assms(1), of c now i] assms(2,3) by auto

lemma cleanup_sub:
  assumes "wf_alist (results st)"
    and "map_of (results (cleanupExpiredResultsLocked c now st)) i = Some s"
  shows "map_of (results st) i = Some s"
  using cleanup_map_of [OF assms(1), of c now i] assms(2) by auto

section \<open>The store's invariant\<close>

definition lookup_result :: "ResultStore \<Rightarrow> int \<Rightarrow> SubmissionResult option" where
  "lookup_result st i = map_option ss_result (map_of (results st) i)"

definition entry_ok :: "int \<Rightarrow> int \<Rightarrow> StoredSubmission \<Rightarrow> bool" where
  "entry_ok next_id i s \<longleftrightarrow>
     sr_submission_id (ss_result s) = i \<and> 1 \<le> i \<and> i < next_id \<and>
     (is_terminal_status (sr_status (ss_result s)) \<longleftrightarrow> finished_at s \<noteq> None)"

definition store_inv :: "ResultStore \<Rightarrow> bool" where
  "store_inv st \<longleftrightarrow>
     wf_alist (results st) \<and> 1 \<le> next_submission_id st \<and>
     list_all (\<lambda>(i, s). entry_ok (next_submission_id st) i s) (results st)"

lemma store_inv_iff:
  "store_inv st \<longleftrightarrow>
     wf_alist (results st) \<and> 1 \<le> next_submission_id st \<and>
     (\<forall>i s. map_of (results st) i = Some s \<longrightarrow> entry_ok (next_submission_id st) i s)"
  by (auto simp: store_inv_def list_all_iff)

lemma store_inv_wf: "store_inv st \<Longrightarrow> wf_alist (results st)"
  by (simp add: store_inv_def)

lemma store_inv_entry:
  "store_inv st \<Longrightarrow> map_of (results st) i = Some s \<Longrightarrow> entry_ok (next_submission_id st) i s"
  by (simp add: store_inv_iff)

lemma store_inv_finished:
  "store_inv st \<Longrightarrow> map_of (results st) i = Some s \<Longrightarrow>
     finished_at s = None \<longleftrightarrow> \<not> is_terminal_status (sr_status (ss_result s))"
  using store_inv_entry [of st i s] by (auto simp: entry_ok_def)

lemma store_inv_initial: "store_inv initial_store"
  by (simp add: store_inv_def initial_store_def)

lemma store_inv_cleanup:
  assumes "store_inv st"
  shows "store_inv (cleanupExpiredResultsLocked c now st)"
  using assms cleanup_wf [OF store_inv_wf [OF assms]] cleanup_sub [OF store_inv_wf [OF assms]]
  by (simp add: store_inv_iff)

lemma store_inv_update_entry:
  assumes "store_inv st" and "entry_ok (next_submission_id st) i s"
  shows "store_inv (st\<lparr>results := AList.update i s (results st)\<rparr>)"
  using assms by (simp add: store_inv_iff wf_alist_update update_conv)

lemma entry_ok_mono: "entry_ok n i s \<Longrightarrow> n \<le> m \<Longrightarrow> entry_ok m i s"
  by (auto simp: entry_ok_def)

lemma store_inv_next: "store_inv st \<Longrightarrow> next_submission_id st \<le> n \<Longrightarrow> store_inv (st\<lparr>next_submission_id := n\<rparr>)"
  using entry_ok_mono [of "next_submission_id st"] by (fastforce simp: store_inv_iff)

lemma store_inv_create:
  assumes inv: "store_inv st" and room: "next_submission_id st < int32_max"
  shows "store_inv (snd (createSubmission c request now now' st))"
proof -
  let ?st = "cleanupExpiredResultsLocked c now st" and ?i = "next_submission_id st"
  let ?s = "\<lparr>ss_result = default_result\<lparr>sr_submission_id := ?i, sr_status := QUEUED\<rparr>,
    last_access_at = now', finished_at = None\<rparr>"
  have w: "wrap32 (?i + 1) = ?i + 1"
    using room inv by (intro wrap32_id) (auto simp: store_inv_iff int32_max_def)
  have "store_inv (?st\<lparr>next_submission_id := ?i + 1\<rparr>)"
    using store_inv_cleanup [OF inv] by (rule store_inv_next) simp
  moreover have "entry_ok (?i + 1) ?i ?s"
    using inv by (simp add: entry_ok_def store_inv_iff is_terminal_status_def)
  ultimately show ?thesis
    using store_inv_update_entry [of "?st\<lparr>next_submission_id := ?i + 1\<rparr>" ?i ?s] w
    by (simp add: createSubmission_def Let_def)
qed

lemma store_inv_updateResult:
  assumes "store_inv st"
  shows "store_inv (snd (updateResult c i r now st))"
proof -
  let ?st = "cleanupExpiredResultsLocked c now st"
  have inv: "store_inv ?st" using assms by (rule store_inv_cleanup)
  show ?thesis
  proof (cases "map_of (results ?st) i")
    case None
    with inv show ?thesis by (simp add: updateResult_def)
  next
    case (Some it)
    have "finished_at it = None" if "isValidTransition (sr_status (ss_result it)) (sr_status r)"
      using that store_inv_finished [OF inv Some] isValidTransition_terminal by auto
    with inv Some store_inv_entry [OF inv Some] show ?thesis
      by (auto simp: updateResult_def Let_def entry_ok_def
          intro!: store_inv_cleanup store_inv_update_entry)
  qed
qed

lemma store_inv_getResult:
  assumes "store_inv st"
  shows "store_inv (snd (getResult c i now st))"
proof -
  let ?st = "cleanupExpiredResultsLocked c now st"
  have inv: "store_inv ?st" using assms by (rule store_inv_cleanup)
  show ?thesis
  proof (cases "map_of (results ?st) i")
    case None
    with inv show ?thesis by (simp add: getResult_def)
  next
    case (Some it)
    with inv store_inv_entry [OF inv Some] show ?thesis
      by (auto simp: getResult_def Let_def entry_ok_def intro!: store_inv_update_entry)
  qed
qed

section \<open>What each operation does to a record\<close>

lemma lookup_cleanup:
  assumes "store_inv st"
  shows "lookup_result (cleanupExpiredResultsLocked c now st) i = lookup_result st i \<or>
    lookup_result (cleanupExpiredResultsLocked c now st) i = None \<and>
      (\<exists>r. lookup_result st i = Some r \<and> is_terminal_status (sr_status r))"
  using cleanup_map_of [OF store_inv_wf [OF assms], of c now i] store_inv_finished [OF assms, of i]
  by (auto simp: lookup_result_def)

lemma lookup_cleanup_open:
  assumes "store_inv st" and "lookup_result st i = Some r" and "\<not> is_terminal_status (sr_status r)"
  shows "lookup_result (cleanupExpiredResultsLocked c now st) i = Some r"
  using lookup_cleanup [OF assms(1), of c now i] assms(2,3) by auto

lemma lookup_update_alist:
  "lookup_result (st\<lparr>results := AList.update i s (results st)\<rparr>) j =
     (if j = i then Some (ss_result s) else lookup_result st j)"
  by (auto simp: lookup_result_def update_conv)

lemma lookup_None_iff: "lookup_result st i = None \<longleftrightarrow> map_of (results st) i = None"
  by (simp add: lookup_result_def)

lemma lookup_Some_iff: "lookup_result st i = Some r \<longleftrightarrow> (\<exists>s. map_of (results st) i = Some s \<and> ss_result s = r)"
  by (auto simp: lookup_result_def)

lemma lookup_next_None: "store_inv st \<Longrightarrow> lookup_result st (next_submission_id st) = None"
  using store_inv_entry [of st "next_submission_id st"]
  by (cases "map_of (results st) (next_submission_id st)") (auto simp: lookup_None_iff entry_ok_def)

text \<open>Accepted and refused updates, and what they leave of the other records.\<close>

lemma updateResult_refused:
  assumes "store_inv st"
    and "\<And>r0. lookup_result st i = Some r0 \<Longrightarrow> \<not> isValidTransition (sr_status r0) (sr_status r)"
  shows "updateResult c i r now st = (False, cleanupExpiredResultsLocked c now st)"
  using cleanup_sub [OF store_inv_wf [OF assms(1)], of c now i] assms(2)
  by (auto simp: updateResult_def Let_def lookup_Some_iff split: option.splits)

lemma updateResult_accepted:
  assumes inv: "store_inv st" and l: "lookup_result st i = Some r0"
    and valid: "isValidTransition (sr_status r0) (sr_status r)"
  shows "fst (updateResult c i r now st)"
    and "\<not> is_terminal_status (sr_status r) \<Longrightarrow>
      lookup_result (snd (updateResult c i r now st)) i = Some (r\<lparr>sr_submission_id := i\<rparr>)"
proof -
  let ?st = "cleanupExpiredResultsLocked c now st"
  have "lookup_result ?st i = Some r0"
    using inv l valid isValidTransition_terminal by (blast intro: lookup_cleanup_open)
  then obtain it where it: "map_of (results ?st) i = Some it" "ss_result it = r0"
    by (auto simp: lookup_Some_iff)
  have st: "store_inv ?st" using inv by (rule store_inv_cleanup)
  show "fst (updateResult c i r now st)"
    using it valid by (simp add: updateResult_def Let_def)
  assume open_r: "\<not> is_terminal_status (sr_status r)"
  let ?it = "it\<lparr>ss_result := r\<lparr>sr_submission_id := i\<rparr>, last_access_at := now\<rparr>"
  let ?st' = "?st\<lparr>results := AList.update i ?it (results ?st)\<rparr>"
  have "finished_at it = None"
    using store_inv_finished [OF st it(1)] it(2) valid isValidTransition_terminal by auto
  then have "store_inv ?st'"
    using st store_inv_entry [OF st it(1)] open_r
    by (intro store_inv_update_entry) (auto simp: entry_ok_def)
  moreover have "snd (updateResult c i r now st) = cleanupExpiredResultsLocked c now ?st'"
    using it valid open_r by (simp add: updateResult_def Let_def)
  ultimately show "lookup_result (snd (updateResult c i r now st)) i = Some (r\<lparr>sr_submission_id := i\<rparr>)"
    using open_r lookup_cleanup_open [of ?st' i "r\<lparr>sr_submission_id := i\<rparr>" c now]
    by (simp add: lookup_update_alist)
qed

lemma updateResult_fst_iff:
  assumes "store_inv st"
  shows "fst (updateResult c i r now st) \<longleftrightarrow>
    (\<exists>r0. lookup_result st i = Some r0 \<and> isValidTransition (sr_status r0) (sr_status r))"
  using updateResult_refused [OF assms, of i r c now] updateResult_accepted(1) [OF assms, of i _ r c now]
  by fastforce

text \<open>What a record can look like after an operation: kept, dropped when terminal, or replaced by its own update.\<close>

definition evolves :: "SubmissionResult option \<Rightarrow> SubmissionResult option \<Rightarrow> bool" where
  "evolves before after \<longleftrightarrow>
     after = before \<or>
     (\<exists>r. before = Some r \<and> is_terminal_status (sr_status r) \<and> after = None)"

lemma evolves_cleanup:
  "store_inv st \<Longrightarrow> evolves (lookup_result st i) (lookup_result (cleanupExpiredResultsLocked c now st) i)"
  using lookup_cleanup [of st c now i] by (auto simp: evolves_def)

lemma evolves_trans: "evolves a b \<Longrightarrow> evolves b d \<Longrightarrow> evolves a d"
  by (auto simp: evolves_def)

lemma evolves_open:
  "evolves (Some r) b \<Longrightarrow> \<not> is_terminal_status (sr_status r) \<Longrightarrow> b = Some r"
  by (auto simp: evolves_def)

lemma evolves_create:
  assumes "store_inv st" and "i \<noteq> next_submission_id st"
  shows "evolves (lookup_result st i) (lookup_result (snd (createSubmission c q now now' st)) i)"
  using evolves_cleanup [OF assms(1), of i c now] assms(2)
  by (simp add: createSubmission_def Let_def lookup_result_def update_conv)

lemma evolves_get:
  assumes "store_inv st"
  shows "evolves (lookup_result st i) (lookup_result (snd (getResult c j now st)) i)"
  using evolves_cleanup [OF assms, of i c now]
  by (auto simp: getResult_def Let_def lookup_result_def update_conv split: option.splits)

lemma updateResult_cases:
  obtains "snd (updateResult c i r now st) = cleanupExpiredResultsLocked c now st"
  | s where "ss_result s = r\<lparr>sr_submission_id := i\<rparr>" and "fst (updateResult c i r now st)"
      "snd (updateResult c i r now st) =
         cleanupExpiredResultsLocked c now ((cleanupExpiredResultsLocked c now st)\<lparr>results :=
           AList.update i s (results (cleanupExpiredResultsLocked c now st))\<rparr>)"
      "entry_ok (next_submission_id st) i s \<or> \<not> store_inv st"
proof -
  let ?st = "cleanupExpiredResultsLocked c now st"
  consider (a) "snd (updateResult c i r now st) = ?st"
    | (b) it where "map_of (results ?st) i = Some it"
        "isValidTransition (sr_status (ss_result it)) (sr_status r)"
    by (fastforce simp: updateResult_def Let_def split: option.splits if_splits)
  then show thesis
  proof cases
    case a
    then show thesis by (rule that(1))
  next
    case b
    let ?it = "it\<lparr>ss_result := r\<lparr>sr_submission_id := i\<rparr>, last_access_at := now\<rparr>"
    let ?s = "if is_terminal_status (sr_status r) then ?it\<lparr>finished_at := Some now\<rparr> else ?it"
    have "entry_ok (next_submission_id st) i ?s" if "store_inv st"
      using store_inv_entry [OF store_inv_cleanup [OF that] b(1)] b(2) isValidTransition_terminal
      by (auto simp: entry_ok_def)
    with b show thesis by (intro that(2) [of ?s]) (auto simp: updateResult_def Let_def)
  qed
qed

lemma evolves_update_other:
  assumes inv: "store_inv st" and "j \<noteq> i"
  shows "evolves (lookup_result st j) (lookup_result (snd (updateResult c i r now st)) j)"
proof (cases rule: updateResult_cases [of c i r now st])
  case 1
  with inv show ?thesis by (simp add: evolves_cleanup)
next
  case (2 s)
  let ?st = "cleanupExpiredResultsLocked c now st"
  let ?st' = "?st\<lparr>results := AList.update i s (results ?st)\<rparr>"
  have "store_inv ?st'"
    using 2(4) inv by (auto intro!: store_inv_update_entry store_inv_cleanup)
  then have "evolves (lookup_result ?st' j) (lookup_result (snd (updateResult c i r now st)) j)"
    using 2(3) by (simp add: evolves_cleanup)
  with assms show ?thesis
    using evolves_cleanup [OF inv, of j c now] by (auto simp: lookup_update_alist intro: evolves_trans)
qed

lemma updateResult_own:
  assumes inv: "store_inv st" and l: "lookup_result st i = Some r0"
    and l': "lookup_result (snd (updateResult c i r now st)) i = Some r1"
  shows "r1 = r0 \<or> isValidTransition (sr_status r0) (sr_status r) \<and> r1 = r\<lparr>sr_submission_id := i\<rparr>"
proof (cases "isValidTransition (sr_status r0) (sr_status r)")
  case False
  then show ?thesis
    using updateResult_refused [OF inv, of i r c now] l l' lookup_cleanup [OF inv, of c now i] by auto
next
  case True
  show ?thesis
  proof (cases rule: updateResult_cases [of c i r now st])
    case 1
    with l l' show ?thesis using lookup_cleanup [OF inv, of c now i] by auto
  next
    case (2 s)
    let ?st = "cleanupExpiredResultsLocked c now st"
    let ?st' = "?st\<lparr>results := AList.update i s (results ?st)\<rparr>"
    have "store_inv ?st'" using 2(4) inv by (auto intro!: store_inv_update_entry store_inv_cleanup)
    then have "r1 = ss_result s"
      using lookup_cleanup [of ?st' c now i] l' 2(3) by (auto simp: lookup_update_alist)
    with True 2(1) show ?thesis by simp
  qed
qed

lemma next_id_updateResult [simp]: "next_submission_id (snd (updateResult c i r now st)) = next_submission_id st"
  by (auto simp: updateResult_def Let_def split: option.splits)

lemma next_id_getResult [simp]: "next_submission_id (snd (getResult c i now st)) = next_submission_id st"
  by (auto simp: getResult_def Let_def split: option.splits)

lemma next_id_create [simp]:
  "next_submission_id (snd (createSubmission c q now now' st)) = wrap32 (next_submission_id st + 1)"
  by (simp add: createSubmission_def Let_def)

section \<open>The store as an interface\<close>

text \<open>
  What the threads that share the store rely on. \<open>step\<close> is one locked operation, \<open>targets op i\<close>
  says that \<open>op\<close> writes a snapshot of submission \<open>i\<close>, \<open>used\<close> counts the identifiers handed out.
\<close>

locale snapshot_store =
  fixes lookup :: "'s \<Rightarrow> int \<Rightarrow> SubmissionResult option"
    and inv :: "'s \<Rightarrow> bool"
    and used :: "'s \<Rightarrow> int"
    and step :: "'op \<Rightarrow> 's \<Rightarrow> 's"
    and targets :: "'op \<Rightarrow> int \<Rightarrow> bool"
  assumes inv_step: "inv s \<Longrightarrow> used s < int32_max \<Longrightarrow> inv (step op s)"
    and used_step: "inv s \<Longrightarrow> used s < int32_max \<Longrightarrow> used (step op s) \<le> used s + 1"
    and other_step: "inv s \<Longrightarrow> \<not> targets op i \<Longrightarrow> lookup s i = Some r \<Longrightarrow>
      evolves (Some r) (lookup (step op s) i)"
    and own_step: "inv s \<Longrightarrow> lookup s i = Some r \<Longrightarrow> lookup (step op s) i = Some r' \<Longrightarrow>
      r' = r \<or> isValidTransition (sr_status r) (sr_status r')"
    and gone_step: "inv s \<Longrightarrow> i < used s \<Longrightarrow> lookup s i = None \<Longrightarrow> lookup (step op s) i = None"
    and used_mono: "inv s \<Longrightarrow> used s < int32_max \<Longrightarrow> used s \<le> used (step op s)"
    and used_lookup: "inv s \<Longrightarrow> lookup s i = Some r \<Longrightarrow> i < used s"
begin

lemma run_inv:
  "inv s \<Longrightarrow> used s + int (length ops) \<le> int32_max \<Longrightarrow>
     inv (fold step ops s) \<and> used s \<le> used (fold step ops s) \<and>
     used (fold step ops s) \<le> used s + int (length ops)"
proof (induction ops arbitrary: s)
  case Nil
  then show ?case by simp
next
  case (Cons op ops)
  then have lt: "used s < int32_max" by simp
  with Cons.prems have "inv (step op s)" "used (step op s) \<le> used s + 1" "used s \<le> used (step op s)"
    by (auto intro: inv_step used_step used_mono)
  with Cons.IH [of "step op s"] Cons.prems(2) show ?case by simp
qed

lemma run_open:
  "inv s \<Longrightarrow> used s + int (length ops) \<le> int32_max \<Longrightarrow> lookup s i = Some r \<Longrightarrow>
     \<not> is_terminal_status (sr_status r) \<Longrightarrow> (\<And>op. op \<in> set ops \<Longrightarrow> \<not> targets op i) \<Longrightarrow>
     lookup (fold step ops s) i = Some r"
proof (induction ops arbitrary: s)
  case Nil
  then show ?case by simp
next
  case (Cons op ops)
  have "lookup (step op s) i = Some r"
    using other_step [of s op i r] Cons.prems by (auto intro: evolves_open)
  moreover have "inv (step op s)" "used (step op s) \<le> used s + 1"
    using Cons.prems by (auto intro: inv_step used_step)
  ultimately show ?case using Cons.IH [of "step op s"] Cons.prems by simp
qed

lemma run_gone:
  "inv s \<Longrightarrow> used s + int (length ops) \<le> int32_max \<Longrightarrow> i < used s \<Longrightarrow> lookup s i = None \<Longrightarrow>
     lookup (fold step ops s) i = None"
proof (induction ops arbitrary: s)
  case Nil
  then show ?case by simp
next
  case (Cons op ops)
  then have "inv (step op s)" "used (step op s) \<le> used s + 1" "i < used (step op s)"
    using used_mono [of s op] by (auto intro: inv_step used_step)
  with Cons.IH [of "step op s"] Cons.prems gone_step [of s i op] show ?case by simp
qed

lemma run_status:
  "inv s \<Longrightarrow> used s + int (length ops) \<le> int32_max \<Longrightarrow> lookup s i = Some r \<Longrightarrow>
     lookup (fold step ops s) i = Some r' \<Longrightarrow>
     sr_status r \<le> sr_status r' \<and> (is_terminal_status (sr_status r) \<longrightarrow> r' = r)"
proof (induction ops arbitrary: s r)
  case Nil
  then show ?case by simp
next
  case (Cons op ops)
  then have inv': "inv (step op s)" "used (step op s) + int (length ops) \<le> int32_max"
    using used_step [of s op] by (auto intro: inv_step)
  have "i < used (step op s)"
    using used_lookup [OF Cons.prems(1,3)] used_mono [of s op] Cons.prems by simp
  then obtain r1 where r1: "lookup (step op s) i = Some r1"
    using run_gone [OF inv', of i] Cons.prems(4) by (cases "lookup (step op s) i") auto
  with Cons.IH [OF inv' r1] Cons.prems have
    "sr_status r1 \<le> sr_status r'" "is_terminal_status (sr_status r1) \<longrightarrow> r' = r1" by simp_all
  with own_step [OF Cons.prems(1,3) r1] show ?case
    by (auto dest: isValidTransition_mono isValidTransition_terminal)
qed

end

text \<open>The locked operations of the store, as the values of a type.\<close>

datatype store_op =
    OpCreate SubmissionRequest time time
  | OpUpdate int SubmissionResult time
  | OpGet int time

fun store_step :: "json \<Rightarrow> store_op \<Rightarrow> ResultStore \<Rightarrow> ResultStore" where
  "store_step c (OpCreate request now now') st = snd (createSubmission c request now now' st)"
| "store_step c (OpUpdate i r now) st = snd (updateResult c i r now st)"
| "store_step c (OpGet i now) st = snd (getResult c i now st)"

fun op_targets :: "store_op \<Rightarrow> int \<Rightarrow> bool" where
  "op_targets (OpUpdate j r now) i \<longleftrightarrow> j = i"
| "op_targets _ i \<longleftrightarrow> False"

lemma store_step_inv:
  "store_inv st \<Longrightarrow> next_submission_id st < int32_max \<Longrightarrow> store_inv (store_step c op st)"
  by (cases op) (auto intro: store_inv_create store_inv_updateResult store_inv_getResult)

lemma wrap32_next:
  "store_inv st \<Longrightarrow> next_submission_id st < int32_max \<Longrightarrow>
     wrap32 (next_submission_id st + 1) = next_submission_id st + 1"
  by (rule wrap32_id) (auto simp: store_inv_iff int32_max_def)

lemma store_step_evolves:
  "store_inv st \<Longrightarrow> \<not> op_targets op i \<Longrightarrow> i \<noteq> next_submission_id st \<Longrightarrow>
     evolves (lookup_result st i) (lookup_result (store_step c op st) i)"
  by (cases op) (auto intro: evolves_create evolves_get evolves_update_other)

lemma store_step_other:
  assumes "store_inv st" and "\<not> op_targets op i" and "lookup_result st i = Some r"
  shows "evolves (Some r) (lookup_result (store_step c op st) i)"
proof -
  have "i \<noteq> next_submission_id st" using assms(1,3) lookup_next_None by fastforce
  with assms(1,2) have "evolves (lookup_result st i) (lookup_result (store_step c op st) i)"
    by (intro store_step_evolves)
  with assms(3) show ?thesis by simp
qed

lemma store_step_own:
  assumes "store_inv st" and "lookup_result st i = Some r" and "lookup_result (store_step c op st) i = Some r'"
  shows "r' = r \<or> isValidTransition (sr_status r) (sr_status r')"
proof (cases "op_targets op i")
  case True
  then obtain q now where "op = OpUpdate i q now" by (cases op) auto
  with assms show ?thesis using updateResult_own [OF assms(1,2), of c q now r'] by auto
next
  case False
  with store_step_other [OF assms(1) False assms(2), of c] assms(3) show ?thesis
    by (auto simp: evolves_def)
qed

lemma store_step_gone:
  assumes "store_inv st" and "i < next_submission_id st" and "lookup_result st i = None"
  shows "lookup_result (store_step c op st) i = None"
proof (cases "op_targets op i")
  case True
  then obtain q now where "op = OpUpdate i q now" by (cases op) auto
  with assms show ?thesis
    using updateResult_refused [OF assms(1), of i q c now] lookup_cleanup [OF assms(1), of c now i] by auto
next
  case False
  with assms(1,2) have "evolves (lookup_result st i) (lookup_result (store_step c op st) i)"
    by (intro store_step_evolves) simp_all
  with assms(3) show ?thesis by (simp add: evolves_def)
qed

lemma store_used_step:
  assumes "store_inv st" and "next_submission_id st < int32_max"
  shows "next_submission_id st \<le> next_submission_id (store_step c op st)
    \<and> next_submission_id (store_step c op st) \<le> next_submission_id st + 1"
  using wrap32_next [OF assms] by (cases op) simp_all

lemma lookup_used: "store_inv st \<Longrightarrow> lookup_result st i = Some r \<Longrightarrow> i < next_submission_id st"
  by (auto simp: lookup_Some_iff entry_ok_def dest: store_inv_entry)

interpretation rs: snapshot_store lookup_result store_inv next_submission_id "store_step c" op_targets
  for c
  by unfold_locales
    (auto intro: store_step_inv store_step_other lookup_used store_step_gone
      dest: store_step_own store_used_step)

section \<open>Capacity and eviction order\<close>

lemma finished_entries_sorted_split:
  assumes "(i, t) \<in> set (take n (sort_key snd es))" and "(j, u) \<in> set (drop n (sort_key snd es))"
  shows "t \<le> u"
proof -
  have "sorted (map snd (take n (sort_key snd es) @ drop n (sort_key snd es)))"
    using sorted_sort_key [of snd es] by simp
  then show ?thesis using assms by (fastforce simp: sorted_append simp del: append_take_drop_id)
qed

lemma cleanup_evict_split:
  assumes wf: "wf_alist (results st)" and m: "0 < maxStoredResultsLocked c st"
    and rs: "rs = cleanup_expired c now st"
  obtains n where "results (cleanupExpiredResultsLocked c now st) =
      foldl (\<lambda>al i. AList.delete i al) rs (map fst (take n (sort_key snd (finished_entries rs))))"
    and "int (length (results (cleanupExpiredResultsLocked c now st))) \<le> maxStoredResultsLocked c st
         \<or> n \<ge> length (finished_entries rs)"
proof (cases "int (length rs) \<le> maxStoredResultsLocked c st")
  case True
  with rs show thesis by (intro that [of 0]) (simp_all add: cleanupExpiredResultsLocked_def Let_def)
next
  case False
  let ?m = "maxStoredResultsLocked c st" and ?es = "sort_key snd (finished_entries rs)"
  have "results (cleanupExpiredResultsLocked c now st) = evict_oldest ?m ?es rs"
    using False m rs by (simp add: cleanupExpiredResultsLocked_def Let_def)
  with evict_oldest_deletes [of ?m ?es rs] that show thesis by auto
qed

text \<open>
  Clean-up never drops an unfinished submission: whatever the retention time and the
  capacity are, a record that has not reached a terminal status survives unchanged.
\<close>

theorem cleanup_keeps_unfinished:
  assumes "store_inv st" and "lookup_result st i = Some r" and "\<not> is_terminal_status (sr_status r)"
  shows "lookup_result (cleanupExpiredResultsLocked c now st) i = Some r"
  using assms by (rule lookup_cleanup_open)

theorem cleanup_keeps_unfinished_witness:
  "lookup_result (cleanupExpiredResultsLocked JNull 0
     (debugConfigureCleanupForTest 0 1 (snd (createSubmission JNull
        \<lparr>req_uuid = 7, req_pid = ''1000'', req_language = CPP, req_code = ''x''\<rparr> 0 0 initial_store)))) 1
   = Some (default_result\<lparr>sr_submission_id := 1\<rparr>)"
proof (rule cleanup_keeps_unfinished)
qed code_simp+

text \<open>
  C16. After a clean-up with a positive capacity the store is within its capacity, or every
  record left in it is unfinished (those are never evicted).
\<close>

theorem cleanup_capacity:
  assumes "store_inv st" and "0 < maxStoredResultsLocked c st"
  shows "int (length (results (cleanupExpiredResultsLocked c now st))) \<le> maxStoredResultsLocked c st \<or>
    (\<forall>i r. lookup_result (cleanupExpiredResultsLocked c now st) i = Some r \<longrightarrow>
       \<not> is_terminal_status (sr_status r))"
proof -
  let ?rs = "cleanup_expired c now st" and ?st = "cleanupExpiredResultsLocked c now st"
  have wf: "wf_alist (results st)" using assms(1) by (rule store_inv_wf)
  obtain n where del: "results ?st =
      foldl (\<lambda>al i. AList.delete i al) ?rs (map fst (take n (sort_key snd (finished_entries ?rs))))"
    and n: "int (length (results ?st)) \<le> maxStoredResultsLocked c st \<or> n \<ge> length (finished_entries ?rs)"
    using cleanup_evict_split [OF wf assms(2) refl, of now] by blast
  have "finished_at s = None"
    if "n \<ge> length (finished_entries ?rs)" and s: "map_of (results ?st) i = Some s" for i s
  proof -
    have "i \<notin> set (keys (finished_entries ?rs))" "map_of ?rs i = Some s"
      using s that(1) by (auto simp: del foldl_delete_map_of split: if_splits)
    then show ?thesis
      using finished_entries_mem [OF cleanup_expired_wf [OF wf, of c now], of i]
      by (cases "finished_at s") force+
  qed
  with n store_inv_finished [OF store_inv_cleanup [OF assms(1)]] show ?thesis
    by (fastforce simp: lookup_Some_iff)
qed

text \<open>A store with two finished records, the first one younger, and room for one.\<close>

definition example_store :: ResultStore where
  "example_store =
     \<lparr>next_submission_id = 3,
      results = [(1, \<lparr>ss_result = default_result\<lparr>sr_submission_id := 1, sr_status := FINISHED\<rparr>,
                       last_access_at = 5, finished_at = Some 5\<rparr>),
                 (2, \<lparr>ss_result = default_result\<lparr>sr_submission_id := 2, sr_status := FAILED\<rparr>,
                       last_access_at = 4, finished_at = Some 4\<rparr>)],
      override_retention_seconds = None, override_max_stored_results = Some 1\<rparr>"

theorem cleanup_capacity_witness:
  "store_inv example_store \<and> 0 < maxStoredResultsLocked JNull example_store \<and>
   (int (length (results (cleanupExpiredResultsLocked JNull 9 example_store)))
      \<le> maxStoredResultsLocked JNull example_store \<or>
    (\<forall>i r. lookup_result (cleanupExpiredResultsLocked JNull 9 example_store) i = Some r \<longrightarrow>
       \<not> is_terminal_status (sr_status r)))"
proof -
  have "store_inv example_store" and "0 < maxStoredResultsLocked JNull example_store" by code_simp+
  with cleanup_capacity [OF this, of 9] show ?thesis by blast
qed

text \<open>
  C15. Capacity eviction drops the oldest results first: if a finished record is evicted before
  its retention time is over while another finished record survives, the survivor is not older.
\<close>

theorem cleanup_evicts_oldest_first:
  assumes "store_inv st" and "0 < maxStoredResultsLocked c st"
    and "map_of (cleanup_expired c now st) i = Some s" and "finished_at s = Some t"
    and "map_of (results (cleanupExpiredResultsLocked c now st)) i = None"
    and "map_of (results (cleanupExpiredResultsLocked c now st)) j = Some s'" and "finished_at s' = Some u"
  shows "t \<le> u"
proof -
  let ?rs = "cleanup_expired c now st"
  let ?es = "sort_key snd (finished_entries ?rs)"
  have wf: "wf_alist (results st)" using assms(1) by (rule store_inv_wf)
  then have wf': "wf_alist ?rs" by (rule cleanup_expired_wf)
  obtain n where del: "results (cleanupExpiredResultsLocked c now st) =
      foldl (\<lambda>al i. AList.delete i al) ?rs (map fst (take n ?es))"
    using cleanup_evict_split [OF wf assms(2) refl, of now] by blast
  have "(i, t) \<in> set (take n ?es)"
  proof -
    from assms(3,5) have "i \<in> fst ` set (take n ?es)"
      by (auto simp: del foldl_delete_map_of split: if_splits)
    then obtain t' where t': "(i, t') \<in> set (take n ?es)" by auto
    then have "(i, t') \<in> set (finished_entries ?rs)" by (auto dest: in_set_takeD)
    with finished_entries_mem [OF wf'] assms(3,4) t' show ?thesis by fastforce
  qed
  moreover have "(j, u) \<in> set (drop n ?es)"
  proof -
    from assms(6) have "j \<notin> fst ` set (take n ?es)" and "map_of ?rs j = Some s'"
      by (auto simp: del foldl_delete_map_of split: if_splits)
    then have "(j, u) \<in> set (finished_entries ?rs)" and "(j, u) \<notin> set (take n ?es)"
      using finished_entries_mem [OF wf'] assms(7) by force+
    then show ?thesis
      using set_append [of "take n ?es" "drop n ?es"] by (simp add: append_take_drop_id)
  qed
  ultimately show ?thesis by (rule finished_entries_sorted_split)
qed

theorem cleanup_evicts_oldest_first_witness: "(4 :: time) \<le> 5"
  by (rule cleanup_evicts_oldest_first
      [of example_store JNull 9 2 "snd (results example_store ! 1)" 4 1 "snd (results example_store ! 0)"])
    code_simp+

section \<open>Histories\<close>

text \<open>
  Every sequence of locked operations, from any number of threads in any order, keeps the
  store's invariant as long as identifiers are left: distinct keys, each record filed under its
  own positive identifier below the next one, and a finish time exactly on terminal records.
\<close>

theorem store_history_inv:
  assumes "int (length ops) < int32_max"
  shows "store_inv (fold (store_step c) ops initial_store)"
  using rs.run_inv [OF store_inv_initial, of ops c] assms by (simp add: initial_store_def)

theorem store_history_inv_witness:
  "store_inv (fold (store_step JNull)
     [OpCreate \<lparr>req_uuid = 7, req_pid = ''1000'', req_language = CPP, req_code = ''x''\<rparr> 0 0, OpGet 1 5]
     initial_store)"
  by (rule store_history_inv) (simp add: int32_max_def)

text \<open>
  C14. Along every history a submission never moves back in the order of the statuses, and once
  its status is FINISHED or FAILED its snapshot never changes again (it can only be dropped).
\<close>

theorem store_history_forward:
  assumes "store_inv st" and "next_submission_id st + int (length ops) \<le> int32_max"
    and "lookup_result st i = Some r" and "lookup_result (fold (store_step c) ops st) i = Some r'"
  shows "sr_status r \<le> sr_status r' \<and> (is_terminal_status (sr_status r) \<longrightarrow> r' = r)"
  using assms by (rule rs.run_status)

theorem store_history_forward_witness:
  "lookup_result (fold (store_step JNull) [OpUpdate 1 (default_result\<lparr>sr_status := RUNNING\<rparr>) 6] example_store) 1 =
     lookup_result example_store 1"
proof -
  let ?ops = "[OpUpdate 1 (default_result\<lparr>sr_status := RUNNING\<rparr>) 6]"
  let ?r = "default_result\<lparr>sr_submission_id := 1, sr_status := FINISHED\<rparr>"
  have "store_inv example_store" "next_submission_id example_store + int (length ?ops) \<le> int32_max"
    "is_terminal_status (sr_status ?r)" and r: "lookup_result example_store 1 = Some ?r"
    and kept: "lookup_result (fold (store_step JNull) ?ops example_store) 1 \<noteq> None" by code_simp+
  with store_history_forward [of example_store ?ops 1 ?r JNull] show ?thesis by fastforce
qed

end
