(* ===== verification/SubmissionService.thy ===== *)
theory SubmissionService
  imports RunnerFacts ResultStore SubmissionQueue VerdictReducer
begin

text \<open>
  \<open>src/pipeline/SubmissionService.cpp\<close> and \<open>src/common/utils.cpp\<close>: the orchestration of one
  submission. The result store is shared: before each of this worker's accesses to it, the other
  threads have performed a list of locked operations (\<open>svc_others\<close>), and the clock shows a time
  (\<open>svc_clock\<close>). \<open>sv_written\<close> is a history variable, the snapshots that the store accepted from this
  worker; no operation reads it.
\<close>

section \<open>State and environment\<close>

record ServiceCtx =
  svc_env :: RunnerEnv
  svc_others :: "nat \<Rightarrow> store_op list"
  svc_clock :: "nat \<Rightarrow> time"
  svc_resolve :: "path \<Rightarrow> path"
  svc_project_root :: path

record ServiceState =
  sv_store :: ResultStore
  sv_fs :: FileSystem
  sv_accesses :: nat
  sv_written :: "SubmissionResult list"

abbreviation svc_config :: "ServiceCtx \<Rightarrow> json" where
  "svc_config ctx \<equiv> env_config (svc_env ctx)"

section \<open>Helpers\<close>

definition kLogFieldMaxLen :: nat where
  "kLogFieldMaxLen = 80"

definition is_alnum :: "char \<Rightarrow> bool" where
  "is_alnum ch \<longleftrightarrow>
     (let n = (of_char ch :: nat) in 48 \<le> n \<and> n \<le> 57 \<or> 65 \<le> n \<and> n \<le> 90 \<or> 97 \<le> n \<and> n \<le> 122)"

definition log_safe :: "char \<Rightarrow> bool" where
  "log_safe ch \<longleftrightarrow> is_alnum ch \<or> ch = CHR ''_'' \<or> ch = CHR ''-'' \<or> ch = CHR ''.'' \<or> ch = CHR '':''"

definition sanitize_for_log :: "string \<Rightarrow> string" where
  "sanitize_for_log value =
     (let sanitized = map (\<lambda>ch. if log_safe ch then ch else CHR ''_'') value in
      if length sanitized \<le> kLogFieldMaxLen then sanitized else take kLogFieldMaxLen sanitized @ ''...'')"

definition make_result :: "int \<Rightarrow> SubmissionStatus \<Rightarrow> SubmissionVerdict \<Rightarrow> string \<Rightarrow> SubmissionResult" where
  "make_result submission_id status verdict message =
     default_result\<lparr>sr_submission_id := submission_id, sr_status := status, sr_verdict := verdict, sr_message := message\<rparr>"

text \<open>One access to the shared store: the other threads first, then this one's update.\<close>

definition persist_result :: "ServiceCtx \<Rightarrow> int \<Rightarrow> SubmissionResult \<Rightarrow> ServiceState \<Rightarrow> bool \<times> ServiceState" where
  "persist_result ctx submission_id result s =
     (let k = sv_accesses s;
          st = fold (store_step (svc_config ctx)) (svc_others ctx k) (sv_store s)
      in case updateResult (svc_config ctx) submission_id result (svc_clock ctx k) st of
           (ok, st') \<Rightarrow>
             (ok, s\<lparr>sv_store := st', sv_accesses := Suc k,
                    sv_written := sv_written s @ (if ok then [result] else [])\<rparr>))"

text \<open>The destructor of the guard.\<close>

definition RunnerWorkDirCleanupGuard :: "ServiceCtx \<Rightarrow> path \<Rightarrow> ServiceState \<Rightarrow> ServiceState" where
  "RunnerWorkDirCleanupGuard ctx work_dir s =
     (if getKeepRunnerWorkDir (svc_config ctx) \<or> work_dir = [] then s
      else s\<lparr>sv_fs := remove_all work_dir (sv_fs s)\<rparr>)"

section \<open>Test data\<close>

definition has_suffix :: "string \<Rightarrow> string \<Rightarrow> bool" where
  "has_suffix value suf \<longleftrightarrow>
     (if length value \<ge> length suf then drop (length value - length suf) value = suf else False)"

text \<open>
  The loop over a directory. \<open>directory_iterator\<close> throws for what is not one, and \<open>exists\<close> may throw;
  both are caught around the loop, and the pairs found so far are returned.
\<close>

fun collect_pairs :: "path \<Rightarrow> FileSystem \<Rightarrow> (path \<times> FsNode) list \<Rightarrow> (string \<times> string) list" where
  "collect_pairs dir fs [] = []"
| "collect_pairs dir fs ((p, Directory) # entries) = collect_pairs dir fs entries"
| "collect_pairs dir fs ((p, RegularFile content mode) # entries) =
     (let file_name = filename p; output_file_name = take (length file_name - 3) file_name @ ''.out'' in
      if has_suffix file_name ''.in'' then
        (case fs_exists fs (path_join dir output_file_name) of
           Inl what \<Rightarrow> []
         | Inr True \<Rightarrow> (file_name, output_file_name) # collect_pairs dir fs entries
         | Inr False \<Rightarrow> collect_pairs dir fs entries)
      else collect_pairs dir fs entries)"

definition scan_test_data_file_pairs :: "path \<Rightarrow> FileSystem \<Rightarrow> (string \<times> string) list" where
  "scan_test_data_file_pairs dir fs =
     (if fs_node fs dir = Some Directory then collect_pairs dir fs (dir_entries dir fs) else [])"

text \<open>
  \<open>svc_resolve\<close> is the operating system's resolution of a path to an absolute one without dots and
  links, which both \<open>exists\<close> and \<open>weakly_canonical\<close> use here. The first of the candidates that exists
  is taken, an exception ends the search; the empty path stands for "none found".
\<close>

fun first_existing :: "ServiceCtx \<Rightarrow> FileSystem \<Rightarrow> path list \<Rightarrow> string + path" where
  "first_existing ctx fs [] = Inr []"
| "first_existing ctx fs (p # ps) =
     (case fs_exists fs (svc_resolve ctx p) of
        Inl what \<Rightarrow> Inl what
      | Inr True \<Rightarrow> Inr (svc_resolve ctx p)
      | Inr False \<Rightarrow> first_existing ctx fs ps)"

text \<open>An exception about the configured path is caught, one about the other candidates is not.\<close>

definition resolve_test_data_root :: "ServiceCtx \<Rightarrow> FileSystem \<Rightarrow> string + path" where
  "resolve_test_data_root ctx fs =
     (let configured_path = getTestDataPath (svc_config ctx) in
      if configured_path \<noteq> [] \<and> fs_exists fs (svc_resolve ctx configured_path) = Inr True
      then Inr (svc_resolve ctx configured_path)
      else first_existing ctx fs
             [path_join (svc_project_root ctx) ''testData'', ''testData'', ''../testData'', ''../../testData''])"

fun number_cases :: "path \<Rightarrow> int \<Rightarrow> (string \<times> string) list \<Rightarrow> RunnerCaseInput list" where
  "number_cases data_path seq_id [] = []"
| "number_cases data_path seq_id ((a, b) # pairs) =
     \<lparr>case_seq_id = seq_id, case_input_path = path_join data_path a, case_expected_output_path = path_join data_path b,
      case_cpu_time_limit_ms = 1000, case_real_time_limit_ms = 1000, case_memory_limit_kb = 1024 * 1024\<rparr>
     # number_cases data_path (seq_id + 1) pairs"

definition data_path_for :: "path \<Rightarrow> string \<Rightarrow> path" where
  "data_path_for test_data_root pid = path_join (path_join test_data_root pid) ''data''"

definition load_cases_for_problem :: "ServiceCtx \<Rightarrow> FileSystem \<Rightarrow> string \<Rightarrow> string + RunnerCaseInput list" where
  "load_cases_for_problem ctx fs pid =
     (case resolve_test_data_root ctx fs of
        Inl what \<Rightarrow> Inl what
      | Inr test_data_root \<Rightarrow>
          if test_data_root = [] then Inr []
          else
            (case fs_exists fs (data_path_for test_data_root pid) of
               Inl what \<Rightarrow> Inl what
             | Inr False \<Rightarrow> Inr []
             | Inr True \<Rightarrow> Inr (number_cases (data_path_for test_data_root pid) 1
                 (scan_test_data_file_pairs (data_path_for test_data_root pid) fs))))"

section \<open>Processing a submission\<close>

text \<open>How a block ends: it returns, throws, or goes on with a value.\<close>

datatype 'a flow = Returns | Throws string | Goes 'a

text \<open>The loop over the test cases, on the result it extends.\<close>

fun case_loop ::
  "ServiceCtx \<Rightarrow> (RunnerCaseInput \<Rightarrow> FileSystem \<Rightarrow> RunnerCaseResult io) \<Rightarrow> int \<Rightarrow>
     RunnerCaseInput list \<Rightarrow> SubmissionResult \<Rightarrow> ServiceState \<Rightarrow> (SubmissionResult flow \<times> ServiceState) option" where
  "case_loop ctx run_case submission_id [] running_result s = Some (Goes running_result, s)"
| "case_loop ctx run_case submission_id (c # cs) running_result s =
     (case run_case c (sv_fs s) of
        None \<Rightarrow> None
      | Some (Inl (what, fs')) \<Rightarrow> Some (Throws what, s\<lparr>sv_fs := fs'\<rparr>)
      | Some (Inr (case_result, fs')) \<Rightarrow>
          let running' = running_result\<lparr>sr_case_results := sr_case_results running_result @ [rcase_result case_result],
                sr_message := rcase_message case_result\<rparr> in
          case persist_result ctx submission_id running' (s\<lparr>sv_fs := fs'\<rparr>) of
            (False, s') \<Rightarrow> Some (Returns, s')
          | (True, s') \<Rightarrow> case_loop ctx run_case submission_id cs running' s')"

definition run_phase ::
  "ServiceCtx \<Rightarrow> ILanguageRunner \<Rightarrow> int \<Rightarrow> SubmissionRequest \<Rightarrow> SubmissionRequest \<Rightarrow> ServiceState \<Rightarrow>
     (unit flow \<times> ServiceState) option" where
  "run_phase ctx runner submission_id request execution_request s0 =
     (case persist_result ctx submission_id (make_result submission_id RUNNING PENDING []) s0 of
        (False, s) \<Rightarrow> Some (Returns, s)
      | (True, s) \<Rightarrow>
         (case load_cases_for_problem ctx (sv_fs s) (req_pid request) of
            Inl what \<Rightarrow> Some (Throws what, s)
          | Inr cases \<Rightarrow>
          if cases = [] then
            Some (Returns, snd (persist_result ctx submission_id
              (make_result submission_id FAILED SYSTEM_ERROR ''failed to load problem cases'') s))
          else
            case case_loop ctx (runner_runCase runner (svc_env ctx) execution_request) submission_id cases
                   (make_result submission_id RUNNING PENDING []) s of
              None \<Rightarrow> None
            | Some (Returns, s') \<Rightarrow> Some (Returns, s')
            | Some (Throws what, s') \<Rightarrow> Some (Throws what, s')
            | Some (Goes running_result, s') \<Rightarrow>
                Some (Returns, snd (persist_result ctx submission_id
                  ((make_result submission_id FINISHED (summarize (sr_case_results running_result) PENDING)
                      (sr_message running_result))\<lparr>sr_case_results := sr_case_results running_result\<rparr>) s'))))"

definition compile_phase ::
  "ServiceCtx \<Rightarrow> ILanguageRunner \<Rightarrow> int \<Rightarrow> SubmissionRequest \<Rightarrow> SubmissionRequest \<Rightarrow> ServiceState \<Rightarrow>
     (unit flow \<times> ServiceState) option" where
  "compile_phase ctx runner submission_id request execution_request s0 =
     (case persist_result ctx submission_id (make_result submission_id COMPILING PENDING []) s0 of
        (False, s) \<Rightarrow> Some (Returns, s)
      | (True, s) \<Rightarrow>
          (case runner_compile runner (svc_env ctx) execution_request (sv_fs s) of
             None \<Rightarrow> None
           | Some (Inl (what, fs')) \<Rightarrow> Some (Throws what, s\<lparr>sv_fs := fs'\<rparr>)
           | Some (Inr (compile_result, fs')) \<Rightarrow>
               if \<not> comp_ok compile_result then
                 Some (Returns, snd (persist_result ctx submission_id
                   (make_result submission_id FINISHED (comp_verdict compile_result) (comp_message compile_result))
                   (s\<lparr>sv_fs := fs'\<rparr>)))
               else run_phase ctx runner submission_id request execution_request (s\<lparr>sv_fs := fs'\<rparr>)))"

text \<open>From the construction of the clean-up guard to the end of its scope.\<close>

definition guarded_phase ::
  "ServiceCtx \<Rightarrow> ILanguageRunner \<Rightarrow> int \<Rightarrow> SubmissionRequest \<Rightarrow> SubmissionRequest \<Rightarrow> ServiceState \<Rightarrow>
     (unit flow \<times> ServiceState) option" where
  "guarded_phase ctx runner submission_id request execution_request s =
     (case runner_prepare runner (svc_env ctx) execution_request (sv_fs s) of
        Inl what \<Rightarrow> Some (Throws what, s)
      | Inr (prepare_result, fs') \<Rightarrow>
          if \<not> prep_ok prepare_result then
            Some (Returns, snd (persist_result ctx submission_id
              (make_result submission_id FAILED SYSTEM_ERROR (prep_message prepare_result)) (s\<lparr>sv_fs := fs'\<rparr>)))
          else compile_phase ctx runner submission_id request execution_request (s\<lparr>sv_fs := fs'\<rparr>))"

definition process_body :: "ServiceCtx \<Rightarrow> int \<Rightarrow> SubmissionRequest \<Rightarrow> ServiceState \<Rightarrow> (unit flow \<times> ServiceState) option" where
  "process_body ctx submission_id request s0 =
     (case persist_result ctx submission_id (make_result submission_id PREPARING PENDING []) s0 of
        (False, s) \<Rightarrow> Some (Returns, s)
      | (True, s) \<Rightarrow>
          (case createRunner (req_language request) of
             None \<Rightarrow>
               Some (Returns, snd (persist_result ctx submission_id
                 (make_result submission_id FAILED SYSTEM_ERROR ''unsupported language'') s))
           | Some runner \<Rightarrow>
               let execution_request = request\<lparr>req_uuid := submission_id\<rparr> in
               if \<not> tmp_ready (svc_env ctx) (sv_fs s) then Some (Throws (env_what (svc_env ctx)), s)
               else
                 map_option (map_prod id
                     (RunnerWorkDirCleanupGuard ctx (runner_work_dir_for (svc_env ctx) execution_request)))
                   (guarded_phase ctx runner submission_id request execution_request s)))"

definition processSubmission :: "ServiceCtx \<Rightarrow> int \<Rightarrow> SubmissionRequest \<Rightarrow> ServiceState \<Rightarrow> ServiceState option" where
  "processSubmission ctx submission_id request s =
     (if submission_id \<le> 0 then Some s
      else
        case process_body ctx submission_id request s of
          None \<Rightarrow> None
        | Some (Throws what, s') \<Rightarrow>
            Some (snd (persist_result ctx submission_id (make_result submission_id FAILED SYSTEM_ERROR what) s'))
        | Some (_, s') \<Rightarrow> Some s')"

section \<open>Submitting and querying\<close>

text \<open>\<open>now\<close> and \<open>now'\<close> are the two readings of the clock in \<open>createSubmission\<close>.\<close>

definition submitAsync ::
  "json \<Rightarrow> SubmissionRequest \<Rightarrow> string \<Rightarrow> time \<Rightarrow> time \<Rightarrow> ResultStore \<times> SubmissionQueue \<Rightarrow>
     int \<times> ResultStore \<times> SubmissionQueue" where
  "submitAsync c request reply_channel_id now now' = (\<lambda>(st, q).
     (case createSubmission c request now now' st of
        (submission_id, st') \<Rightarrow>
          if submission_id \<le> 0 then (- 1, st', q)
          else
            case queue_push \<lparr>task_submission_id = submission_id, task_request = request,
                             task_reply_channel_id = reply_channel_id\<rparr> q of
              (False, q') \<Rightarrow> (- 1, st', q')
            | (True, q') \<Rightarrow> (submission_id, st', q')))"

definition submit ::
  "ServiceCtx \<Rightarrow> SubmissionRequest \<Rightarrow> time \<Rightarrow> time \<Rightarrow> ServiceState \<Rightarrow> (int \<times> ServiceState) option" where
  "submit ctx request now now' s =
     (case createSubmission (svc_config ctx) request now now' (sv_store s) of
        (submission_id, st) \<Rightarrow>
          map_option (Pair submission_id) (processSubmission ctx submission_id request (s\<lparr>sv_store := st\<rparr>)))"

definition query :: "json \<Rightarrow> int \<Rightarrow> time \<Rightarrow> ResultStore \<Rightarrow> SubmissionResult option \<times> ResultStore" where
  "query c submission_id now st = getResult c submission_id now st"

end
