(* ===== verification/ServiceFacts.thy ===== *)
theory ServiceFacts
  imports SubmissionService
begin

text \<open>
  What \<open>SubmissionService\<close> guarantees. The specification of \<open>processSubmission\<close> is a script: the list
  of snapshots a submission goes through, computed from the runner and the files alone, without the
  store. The refinement says that, whatever the other threads do to the other records meanwhile, the
  service writes exactly that script into the store and every write is accepted.
\<close>

section \<open>The script of a submission\<close>

fun script_cases ::
  "(RunnerCaseInput \<Rightarrow> FileSystem \<Rightarrow> RunnerCaseResult io) \<Rightarrow> RunnerCaseInput list \<Rightarrow>
     SubmissionResult \<Rightarrow> FileSystem \<Rightarrow> (SubmissionResult list \<times> SubmissionResult flow \<times> FileSystem) option" where
  "script_cases run_case [] r fs = Some ([], Goes r, fs)"
| "script_cases run_case (c # cs) r fs =
     (case run_case c fs of
        None \<Rightarrow> None
      | Some (Inl (what, fs')) \<Rightarrow> Some ([], Throws what, fs')
      | Some (Inr (res, fs')) \<Rightarrow>
          let r' = r\<lparr>sr_case_results := sr_case_results r @ [rcase_result res], sr_message := rcase_message res\<rparr> in
          map_option (\<lambda>(ws, e). (r' # ws, e)) (script_cases run_case cs r' fs'))"

definition finished_with :: "int \<Rightarrow> SubmissionResult \<Rightarrow> SubmissionResult" where
  "finished_with submission_id r =
     (make_result submission_id FINISHED (summarize (sr_case_results r) PENDING) (sr_message r))\<lparr>sr_case_results := sr_case_results r\<rparr>"

text \<open>A write followed by the rest of a script.\<close>

definition writes :: "'w \<Rightarrow> ('w list \<times> 'e) option \<Rightarrow> ('w list \<times> 'e) option" where
  "writes w script = map_option (\<lambda>(ws, e). (w # ws, e)) script"

definition run_script ::
  "ServiceCtx \<Rightarrow> ILanguageRunner \<Rightarrow> int \<Rightarrow> SubmissionRequest \<Rightarrow> SubmissionRequest \<Rightarrow> FileSystem \<Rightarrow>
     (SubmissionResult list \<times> unit flow \<times> FileSystem) option" where
  "run_script ctx runner i request q fs =
     (let running = make_result i RUNNING PENDING [] in
      writes running
        (case load_cases_for_problem ctx fs (req_pid request) of
           Inl what \<Rightarrow> Some ([], Throws what, fs)
         | Inr cases \<Rightarrow>
         if cases = [] then Some ([make_result i FAILED SYSTEM_ERROR ''failed to load problem cases''], Returns, fs)
         else
           case script_cases (runner_runCase runner (svc_env ctx) q) cases running fs of
             None \<Rightarrow> None
           | Some (ws, Goes r, fs') \<Rightarrow> Some (ws @ [finished_with i r], Returns, fs')
           | Some (ws, Throws what, fs') \<Rightarrow> Some (ws, Throws what, fs')
           | Some (ws, Returns, fs') \<Rightarrow> Some (ws, Returns, fs')))"

definition compile_script ::
  "ServiceCtx \<Rightarrow> ILanguageRunner \<Rightarrow> int \<Rightarrow> SubmissionRequest \<Rightarrow> SubmissionRequest \<Rightarrow> FileSystem \<Rightarrow>
     (SubmissionResult list \<times> unit flow \<times> FileSystem) option" where
  "compile_script ctx runner i request q fs =
     writes (make_result i COMPILING PENDING [])
       (case runner_compile runner (svc_env ctx) q fs of
          None \<Rightarrow> None
        | Some (Inl (what, fs')) \<Rightarrow> Some ([], Throws what, fs')
        | Some (Inr (r, fs')) \<Rightarrow>
            if \<not> comp_ok r then Some ([make_result i FINISHED (comp_verdict r) (comp_message r)], Returns, fs')
            else run_script ctx runner i request q fs')"

definition guarded_script ::
  "ServiceCtx \<Rightarrow> ILanguageRunner \<Rightarrow> int \<Rightarrow> SubmissionRequest \<Rightarrow> SubmissionRequest \<Rightarrow> FileSystem \<Rightarrow>
     (SubmissionResult list \<times> unit flow \<times> FileSystem) option" where
  "guarded_script ctx runner i request q fs =
     (case runner_prepare runner (svc_env ctx) q fs of
        Inl what \<Rightarrow> Some ([], Throws what, fs)
      | Inr (r, fs') \<Rightarrow>
          if \<not> prep_ok r then Some ([make_result i FAILED SYSTEM_ERROR (prep_message r)], Returns, fs')
          else compile_script ctx runner i request q fs')"

definition cleaned :: "ServiceCtx \<Rightarrow> path \<Rightarrow> FileSystem \<Rightarrow> FileSystem" where
  "cleaned ctx dir fs = (if getKeepRunnerWorkDir (svc_config ctx) \<or> dir = [] then fs else remove_all dir fs)"

definition body_script ::
  "ServiceCtx \<Rightarrow> int \<Rightarrow> SubmissionRequest \<Rightarrow> FileSystem \<Rightarrow> (SubmissionResult list \<times> unit flow \<times> FileSystem) option" where
  "body_script ctx i request fs =
     (let q = request\<lparr>req_uuid := i\<rparr> in
      writes (make_result i PREPARING PENDING [])
        (case createRunner (req_language request) of
           None \<Rightarrow> Some ([make_result i FAILED SYSTEM_ERROR ''unsupported language''], Returns, fs)
         | Some runner \<Rightarrow>
             if \<not> tmp_ready (svc_env ctx) fs then Some ([], Throws (env_what (svc_env ctx)), fs)
             else map_option (\<lambda>(ws, e, fs'). (ws, e, cleaned ctx (runner_work_dir_for (svc_env ctx) q) fs'))
                    (guarded_script ctx runner i request q fs)))"

definition judge_script :: "ServiceCtx \<Rightarrow> int \<Rightarrow> SubmissionRequest \<Rightarrow> FileSystem \<Rightarrow> (SubmissionResult list \<times> FileSystem) option" where
  "judge_script ctx i request fs =
     (case body_script ctx i request fs of
        None \<Rightarrow> None
      | Some (ws, Throws what, fs') \<Rightarrow> Some (ws @ [make_result i FAILED SYSTEM_ERROR what], fs')
      | Some (ws, _, fs') \<Rightarrow> Some (ws, fs'))"

section \<open>Writes among other threads\<close>

definition used_before :: "ServiceCtx \<Rightarrow> nat \<Rightarrow> int" where
  "used_before ctx k = int (\<Sum>j<k. length (svc_others ctx j))"

text \<open>
  The other threads leave the record \<open>i\<close> to this worker (each submission is processed by one
  worker), and do not exhaust the 32-bit identifiers, counting from \<open>n0\<close>.
\<close>

definition calm :: "ServiceCtx \<Rightarrow> int \<Rightarrow> int \<Rightarrow> bool" where
  "calm ctx n0 i \<longleftrightarrow>
     (\<forall>k. n0 + used_before ctx k \<le> int32_max) \<and> (\<forall>k. \<forall>op \<in> set (svc_others ctx k). \<not> op_targets op i)"

definition ready :: "ServiceCtx \<Rightarrow> int \<Rightarrow> int \<Rightarrow> SubmissionStatus \<Rightarrow> ServiceState \<Rightarrow> bool" where
  "ready ctx n0 i cur s \<longleftrightarrow>
     store_inv (sv_store s) \<and> next_submission_id (sv_store s) \<le> n0 + used_before ctx (sv_accesses s) \<and>
     \<not> is_terminal_status cur \<and> (\<exists>r. lookup_result (sv_store s) i = Some r \<and> sr_status r = cur)"

text \<open>The store after the last write: its own snapshot, or nothing when it was cleaned up at once.\<close>

definition done_with :: "int \<Rightarrow> SubmissionResult \<Rightarrow> ServiceState \<Rightarrow> bool" where
  "done_with i r s \<longleftrightarrow> store_inv (sv_store s) \<and> lookup_result (sv_store s) i \<in> {None, Some r}"

lemma updateResult_accepted_lookup:
  assumes inv: "store_inv st" and l: "lookup_result st i = Some r0" and valid: "isValidTransition (sr_status r0) (sr_status r)"
  shows "lookup_result (snd (updateResult c i r now st)) i \<in> {None, Some (r\<lparr>sr_submission_id := i\<rparr>)}"
proof -
  let ?st = "cleanupExpiredResultsLocked c now st"
  have "lookup_result ?st i = Some r0"
    using inv l valid isValidTransition_terminal by (blast intro: lookup_cleanup_open)
  then obtain it where it: "map_of (results ?st) i = Some it" "ss_result it = r0" by (auto simp: lookup_Some_iff)
  let ?it = "it\<lparr>ss_result := r\<lparr>sr_submission_id := i\<rparr>, last_access_at := now\<rparr>"
  let ?s = "if is_terminal_status (sr_status r) then ?it\<lparr>finished_at := Some now\<rparr> else ?it"
  let ?st' = "?st\<lparr>results := AList.update i ?s (results ?st)\<rparr>"
  have "entry_ok (next_submission_id st) i ?s"
    using store_inv_entry [OF store_inv_cleanup [OF inv] it(1)] it(2) valid isValidTransition_terminal
    by (auto simp: entry_ok_def)
  then have inv': "store_inv ?st'" using inv by (intro store_inv_update_entry store_inv_cleanup) simp_all
  have "snd (updateResult c i r now st) = cleanupExpiredResultsLocked c now ?st'"
    using it valid by (simp add: updateResult_def Let_def)
  then show ?thesis using lookup_cleanup [OF inv', of c now i] by (auto simp: lookup_update_alist)
qed

lemma persist_accepted:
  assumes calm: "calm ctx n0 i" and ready: "ready ctx n0 i cur s"
    and valid: "isValidTransition cur (sr_status r)" and id: "sr_submission_id r = i"
  shows "\<exists>s'. persist_result ctx i r s = (True, s') \<and> sv_fs s' = sv_fs s \<and> sv_written s' = sv_written s @ [r] \<and>
    (if is_terminal_status (sr_status r) then done_with i r s' else ready ctx n0 i (sr_status r) s')"
proof -
  let ?k = "sv_accesses s" and ?c = "svc_config ctx"
  let ?st = "fold (store_step ?c) (svc_others ctx ?k) (sv_store s)"
  let ?u = "updateResult ?c i r (svc_clock ctx ?k) ?st"
  from ready obtain r0 where inv: "store_inv (sv_store s)" and l: "lookup_result (sv_store s) i = Some r0"
    and cur: "sr_status r0 = cur" "\<not> is_terminal_status cur"
    and nxt: "next_submission_id (sv_store s) \<le> n0 + used_before ctx ?k" by (auto simp: ready_def)
  have Suc: "used_before ctx (Suc ?k) = used_before ctx ?k + int (length (svc_others ctx ?k))"
    by (simp add: used_before_def)
  have "n0 + used_before ctx (Suc ?k) \<le> int32_max" using calm by (simp only: calm_def)
  then have b: "next_submission_id (sv_store s) + int (length (svc_others ctx ?k)) \<le> int32_max"
    using nxt Suc by simp
  have inv': "store_inv ?st" and used: "next_submission_id ?st \<le> n0 + used_before ctx (Suc ?k)"
    using rs.run_inv [OF inv b, of ?c] nxt Suc by auto
  have l': "lookup_result ?st i = Some r0"
    using rs.run_open [OF inv b l, of ?c] cur calm by (auto simp: calm_def)
  have v: "isValidTransition (sr_status r0) (sr_status r)" using cur valid by simp
  have r: "r\<lparr>sr_submission_id := i\<rparr> = r" using id by simp
  have "fst ?u" using updateResult_accepted(1) [OF inv' l' v] .
  then have p: "persist_result ctx i r s =
      (True, s\<lparr>sv_store := snd ?u, sv_accesses := Suc ?k, sv_written := sv_written s @ [r]\<rparr>)"
    by (simp add: persist_result_def Let_def case_prod_unfold)
  have inv'': "store_inv (snd ?u)" using inv' by (rule store_inv_updateResult)
  have "done_with i r (s\<lparr>sv_store := snd ?u, sv_accesses := Suc ?k, sv_written := sv_written s @ [r]\<rparr>)"
    using inv'' updateResult_accepted_lookup [OF inv' l' v, of ?c "svc_clock ctx ?k"] r by (simp add: done_with_def)
  moreover have "ready ctx n0 i (sr_status r) (s\<lparr>sv_store := snd ?u, sv_accesses := Suc ?k, sv_written := sv_written s @ [r]\<rparr>)"
    if "\<not> is_terminal_status (sr_status r)"
    using inv'' used that updateResult_accepted(2) [OF inv' l' v that, of ?c "svc_clock ctx ?k"] r
    by (simp add: ready_def)
  ultimately show ?thesis using p by simp
qed

section \<open>The service writes its script\<close>

definition phase_ok ::
  "ServiceCtx \<Rightarrow> int \<Rightarrow> int \<Rightarrow> SubmissionStatus \<Rightarrow> ServiceState \<Rightarrow>
     (SubmissionResult list \<times> 'a flow \<times> FileSystem) option \<Rightarrow> ('a flow \<times> ServiceState) option \<Rightarrow> bool" where
  "phase_ok ctx n0 i cur s script run \<longleftrightarrow>
     (case script of
        None \<Rightarrow> run = None
      | Some (ws, e, fs') \<Rightarrow>
          \<exists>s'. run = Some (e, s') \<and> sv_fs s' = fs' \<and> sv_written s' = sv_written s @ ws \<and>
            (if e = Returns then ws \<noteq> [] \<and> done_with i (last ws) s'
             else ready ctx n0 i (if ws = [] then cur else sr_status (last ws)) s'))"

lemma ready_fs [simp]: "ready ctx n0 i cur (s\<lparr>sv_fs := fs\<rparr>) = ready ctx n0 i cur s"
  by (simp add: ready_def)

lemma done_with_fs [simp]: "done_with i r (s\<lparr>sv_fs := fs\<rparr>) = done_with i r s"
  by (simp add: done_with_def)

lemma phase_ok_fs [simp]: "phase_ok ctx n0 i cur (s\<lparr>sv_fs := fs\<rparr>) = phase_ok ctx n0 i cur s"
proof -
  have "sv_written (s\<lparr>sv_fs := fs\<rparr>) = sv_written s" by simp
  then show ?thesis unfolding phase_ok_def by presburger
qed

lemma make_result_simps [simp]:
  "sr_submission_id (make_result i st v m) = i" "sr_status (make_result i st v m) = st"
  "sr_verdict (make_result i st v m) = v" "sr_message (make_result i st v m) = m"
  "sr_case_results (make_result i st v m) = []"
  by (simp_all add: make_result_def default_result_def)

lemma finished_with_simps [simp]:
  "sr_submission_id (finished_with i r) = i" "sr_status (finished_with i r) = FINISHED"
  "sr_verdict (finished_with i r) = summarize (sr_case_results r) PENDING"
  "sr_case_results (finished_with i r) = sr_case_results r"
  by (simp_all add: finished_with_def)

lemma phase_write:
  assumes "calm ctx n0 i" "ready ctx n0 i cur s" "isValidTransition cur (sr_status w)"
    "\<not> is_terminal_status (sr_status w)" "sr_submission_id w = i"
    and "\<And>s1. ready ctx n0 i (sr_status w) s1 \<Longrightarrow> sv_fs s1 = sv_fs s \<Longrightarrow> phase_ok ctx n0 i (sr_status w) s1 script (f s1)"
  shows "phase_ok ctx n0 i cur s (writes w script)
    (case persist_result ctx i w s of (False, s1) \<Rightarrow> Some (Returns, s1) | (True, s1) \<Rightarrow> f s1)"
proof -
  from persist_accepted [OF assms(1-3,5)] assms(4) obtain s1 where
    p: "persist_result ctx i w s = (True, s1)" "sv_fs s1 = sv_fs s" "sv_written s1 = sv_written s @ [w]"
    "ready ctx n0 i (sr_status w) s1" by auto
  from assms(6) [OF p(4,2)] p(1,3) show ?thesis
    by (auto simp: phase_ok_def writes_def split: option.splits prod.splits if_splits)
qed

lemma phase_final:
  assumes "calm ctx n0 i" "ready ctx n0 i cur s" "isValidTransition cur (sr_status w)"
    "is_terminal_status (sr_status w)" "sr_submission_id w = i"
  shows "phase_ok ctx n0 i cur s (Some ([w], Returns, sv_fs s)) (Some (Returns, snd (persist_result ctx i w s)))"
  using persist_accepted [OF assms(1-3,5)] assms(4) by (auto simp: phase_ok_def)

lemma phase_throw: "ready ctx n0 i cur s \<Longrightarrow> phase_ok ctx n0 i cur s (Some ([], Throws what, sv_fs s)) (Some (Throws what, s))"
  by (simp add: phase_ok_def)

lemma valid_FAILED: "\<not> is_terminal_status cur \<Longrightarrow> isValidTransition cur FAILED"
  by (cases cur) (simp_all add: isValidTransition_def is_terminal_status_def)

lemma terminal_simps [simp]:
  "is_terminal_status FINISHED" "is_terminal_status FAILED" "\<not> is_terminal_status QUEUED"
  "\<not> is_terminal_status PREPARING" "\<not> is_terminal_status COMPILING" "\<not> is_terminal_status RUNNING"
  by (simp_all add: is_terminal_status_def)

lemma valid_steps [simp]:
  "isValidTransition QUEUED PREPARING" "isValidTransition PREPARING COMPILING" "isValidTransition COMPILING RUNNING"
  "isValidTransition COMPILING FINISHED" "isValidTransition RUNNING RUNNING" "isValidTransition RUNNING FINISHED"
  "isValidTransition PREPARING FAILED" "isValidTransition COMPILING FAILED" "isValidTransition RUNNING FAILED"
  by (simp_all add: isValidTransition_def)

text \<open>The snapshots of the case loop keep the identifier and the status.\<close>

lemma case_loop_refines:
  assumes "calm ctx n0 i" "ready ctx n0 i RUNNING s" "sr_status r = RUNNING" "sr_submission_id r = i"
  shows "phase_ok ctx n0 i RUNNING s (script_cases run_case cs r (sv_fs s)) (case_loop ctx run_case i cs r s) \<and>
    (\<forall>ws e fs'. script_cases run_case cs r (sv_fs s) = Some (ws, e, fs') \<longrightarrow> (\<forall>w \<in> set ws. sr_status w = RUNNING) \<and> e \<noteq> Returns)"
  using assms(2-4)
proof (induction cs arbitrary: r s)
  case Nil
  then show ?case by (simp add: phase_ok_def)
next
  case (Cons c cs)
  show ?case
  proof (cases "run_case c (sv_fs s)")
    case None
    then show ?thesis by (simp add: phase_ok_def)
  next
    case (Some x)
    show ?thesis
    proof (cases x)
      case (Inl e)
      then obtain what fs' where "x = Inl (what, fs')" by (cases e) simp
      with Some Cons.prems phase_throw [of ctx n0 i RUNNING "s\<lparr>sv_fs := fs'\<rparr>" what] show ?thesis by simp
    next
      case (Inr y)
      obtain res fs' where y: "y = (res, fs')" by (cases y)
      let ?r = "r\<lparr>sr_case_results := sr_case_results r @ [rcase_result res], sr_message := rcase_message res\<rparr>"
      let ?s = "s\<lparr>sv_fs := fs'\<rparr>"
      have r: "sr_status ?r = RUNNING" "sr_submission_id ?r = i" using Cons.prems by simp_all
      have s: "ready ctx n0 i RUNNING ?s" using Cons.prems by simp
      have IH: "phase_ok ctx n0 i (sr_status ?r) s1 (script_cases run_case cs ?r fs') (case_loop ctx run_case i cs ?r s1)"
        if "ready ctx n0 i (sr_status ?r) s1" "sv_fs s1 = sv_fs ?s" for s1
        using Cons.IH [of s1 ?r] that r by simp
      from phase_write [OF assms(1) s, of ?r, OF _ _ _ IH] r
      have "phase_ok ctx n0 i RUNNING ?s (writes ?r (script_cases run_case cs ?r fs'))
        (case persist_result ctx i ?r ?s of (False, s1) \<Rightarrow> Some (Returns, s1) | (True, s1) \<Rightarrow> case_loop ctx run_case i cs ?r s1)"
        by simp
      moreover from persist_accepted [OF assms(1) s, of ?r] r obtain s1 where
        "ready ctx n0 i RUNNING s1" "sv_fs s1 = fs'" by (auto simp: Cons.prems)
      from Cons.IH [OF this(1) r] this(2) have
        "\<forall>ws e fs''. script_cases run_case cs ?r fs' = Some (ws, e, fs'') \<longrightarrow> (\<forall>w \<in> set ws. sr_status w = RUNNING) \<and> e \<noteq> Returns"
        by simp
      ultimately show ?thesis using Some Inr y r
        by (auto simp: Let_def writes_def)
    qed
  qed
qed

text \<open>The case loop and the final write.\<close>

lemma phase_finish:
  fixes i :: int
  defines "r \<equiv> make_result i RUNNING PENDING []"
  assumes "calm ctx n0 i" "ready ctx n0 i RUNNING s1"
  shows "phase_ok ctx n0 i RUNNING s1
     (case script_cases rc cs r (sv_fs s1) of
        None \<Rightarrow> None
      | Some (ws, Goes r, fs') \<Rightarrow> Some (ws @ [finished_with i r], Returns, fs')
      | Some (ws, Throws what, fs') \<Rightarrow> Some (ws, Throws what, fs')
      | Some (ws, Returns, fs') \<Rightarrow> Some (ws, Returns, fs'))
     (case case_loop ctx rc i cs r s1 of
        None \<Rightarrow> None
      | Some (Returns, s') \<Rightarrow> Some (Returns, s')
      | Some (Throws what, s') \<Rightarrow> Some (Throws what, s')
      | Some (Goes running_result, s') \<Rightarrow>
          Some (Returns, snd (persist_result ctx i
            ((make_result i FINISHED (summarize (sr_case_results running_result) PENDING)
                (sr_message running_result))\<lparr>sr_case_results := sr_case_results running_result\<rparr>) s')))"
proof -
  have loop: "phase_ok ctx n0 i RUNNING s1 (script_cases rc cs r (sv_fs s1)) (case_loop ctx rc i cs r s1)"
    and keep: "\<And>ws e fs'. script_cases rc cs r (sv_fs s1) = Some (ws, e, fs') \<Longrightarrow>
      (\<forall>w \<in> set ws. sr_status w = RUNNING) \<and> e \<noteq> Returns"
    using case_loop_refines [OF assms(2,3), of r rc cs] by (auto simp: r_def)
  show ?thesis
  proof (cases "script_cases rc cs r (sv_fs s1)")
    case None
    with loop show ?thesis by (simp add: phase_ok_def)
  next
    case (Some x)
    obtain ws e fs' where x: "x = (ws, e, fs')" by (cases x)
    from loop Some x keep obtain s' where s': "case_loop ctx rc i cs r s1 = Some (e, s')" "sv_fs s' = fs'"
      "sv_written s' = sv_written s1 @ ws" "ready ctx n0 i (if ws = [] then RUNNING else sr_status (last ws)) s'"
      by (fastforce simp: phase_ok_def split: if_splits)
    have run: "(if ws = [] then RUNNING else sr_status (last ws)) = RUNNING" using keep Some x by simp
    show ?thesis
    proof (cases e)
      case Returns
      with keep Some x show ?thesis by blast
    next
      case (Throws what)
      with Some x s' run show ?thesis by (simp add: phase_ok_def)
    next
      case (Goes r')
      from persist_accepted [OF assms(2) s'(4), of "finished_with i r'"] obtain s'' where
        "persist_result ctx i (finished_with i r') s' = (True, s'')" "sv_fs s'' = fs'"
        "sv_written s'' = sv_written s1 @ ws @ [finished_with i r']" "done_with i (finished_with i r') s''"
        using s' unfolding run by auto
      with Some x s' Goes show ?thesis
        by (simp add: phase_ok_def finished_with_def [symmetric])
    qed
  qed
qed

lemma run_phase_refines:
  assumes "calm ctx n0 i" "ready ctx n0 i COMPILING s"
  shows "phase_ok ctx n0 i COMPILING s (run_script ctx runner i request q (sv_fs s)) (run_phase ctx runner i request q s)"
  unfolding run_script_def run_phase_def Let_def
proof (rule phase_write [OF assms(1,2)])
  fix s1
  let ?r = "make_result i RUNNING PENDING []"
  let ?load = "load_cases_for_problem ctx (sv_fs s) (req_pid request)"
  let ?rc = "runner_runCase runner (svc_env ctx) q"
  assume rdy: "ready ctx n0 i (sr_status ?r) s1" and fs: "sv_fs s1 = sv_fs s"
  show "phase_ok ctx n0 i (sr_status ?r) s1
     (case ?load of
        Inl what \<Rightarrow> Some ([], Throws what, sv_fs s)
      | Inr cases \<Rightarrow>
      if cases = [] then Some ([make_result i FAILED SYSTEM_ERROR ''failed to load problem cases''], Returns, sv_fs s)
      else case script_cases ?rc cases ?r (sv_fs s) of
             None \<Rightarrow> None
           | Some (ws, Goes r, fs') \<Rightarrow> Some (ws @ [finished_with i r], Returns, fs')
           | Some (ws, Throws what, fs') \<Rightarrow> Some (ws, Throws what, fs')
           | Some (ws, Returns, fs') \<Rightarrow> Some (ws, Returns, fs'))
     (case load_cases_for_problem ctx (sv_fs s1) (req_pid request) of
        Inl what \<Rightarrow> Some (Throws what, s1)
      | Inr cases \<Rightarrow>
      if cases = [] then
        Some (Returns, snd (persist_result ctx i (make_result i FAILED SYSTEM_ERROR ''failed to load problem cases'') s1))
      else case case_loop ctx ?rc i cases ?r s1 of
             None \<Rightarrow> None
           | Some (Returns, s') \<Rightarrow> Some (Returns, s')
           | Some (Throws what, s') \<Rightarrow> Some (Throws what, s')
           | Some (Goes running_result, s') \<Rightarrow>
               Some (Returns, snd (persist_result ctx i
                 ((make_result i FINISHED (summarize (sr_case_results running_result) PENDING)
                     (sr_message running_result))\<lparr>sr_case_results := sr_case_results running_result\<rparr>) s')))"
  proof (cases ?load)
    case (Inl what)
    with rdy fs phase_throw [of ctx n0 i RUNNING s1 what] show ?thesis by simp
  next
    case load: (Inr cs)
    show ?thesis
    proof (cases "cs = []")
      case True
      from phase_final [OF assms(1) rdy, of "make_result i FAILED SYSTEM_ERROR ''failed to load problem cases''"] True load fs
      show ?thesis by simp
    next
      case False
      have run: "ready ctx n0 i RUNNING s1" using rdy by simp
      from phase_finish [OF assms(1) run, of ?rc cs] fs load False show ?thesis by simp
    qed
  qed
qed simp_all

lemma compile_phase_refines:
  assumes "calm ctx n0 i" "ready ctx n0 i PREPARING s"
  shows "phase_ok ctx n0 i PREPARING s (compile_script ctx runner i request q (sv_fs s)) (compile_phase ctx runner i request q s)"
  unfolding compile_script_def compile_phase_def
proof (rule phase_write [OF assms])
  fix s1
  assume rdy: "ready ctx n0 i (sr_status (make_result i COMPILING PENDING [])) s1" and fs: "sv_fs s1 = sv_fs s"
  show "phase_ok ctx n0 i (sr_status (make_result i COMPILING PENDING [])) s1
     (case runner_compile runner (svc_env ctx) q (sv_fs s) of
        None \<Rightarrow> None
      | Some (Inl (what, fs')) \<Rightarrow> Some ([], Throws what, fs')
      | Some (Inr (r, fs')) \<Rightarrow>
          if \<not> comp_ok r then Some ([make_result i FINISHED (comp_verdict r) (comp_message r)], Returns, fs')
          else run_script ctx runner i request q fs')
     (case runner_compile runner (svc_env ctx) q (sv_fs s1) of
        None \<Rightarrow> None
      | Some (Inl (what, fs')) \<Rightarrow> Some (Throws what, s1\<lparr>sv_fs := fs'\<rparr>)
      | Some (Inr (compile_result, fs')) \<Rightarrow>
          if \<not> comp_ok compile_result then
            Some (Returns, snd (persist_result ctx i
              (make_result i FINISHED (comp_verdict compile_result) (comp_message compile_result)) (s1\<lparr>sv_fs := fs'\<rparr>)))
          else run_phase ctx runner i request q (s1\<lparr>sv_fs := fs'\<rparr>))"
  proof (cases "runner_compile runner (svc_env ctx) q (sv_fs s)")
    case None
    with fs show ?thesis by (simp add: phase_ok_def)
  next
    case (Some x)
    obtain y fs' where x: "x = Inl (y, fs') \<or> (\<exists>r. x = Inr (r, fs'))" by (cases x) fastforce+
    let ?s = "s1\<lparr>sv_fs := fs'\<rparr>"
    have rdy': "ready ctx n0 i COMPILING ?s" using rdy by simp
    from x show ?thesis
    proof
      assume "x = Inl (y, fs')"
      with Some fs phase_throw [where ?'a = unit, OF rdy', of y] show ?thesis by simp
    next
      assume "\<exists>r. x = Inr (r, fs')"
      then obtain r where "x = Inr (r, fs')" ..
      with phase_final [where ?'a = unit, OF assms(1) rdy', of "make_result i FINISHED (comp_verdict r) (comp_message r)"]
        run_phase_refines [OF assms(1) rdy', of runner request q] Some fs
      show ?thesis by simp
    qed
  qed
qed simp_all

lemma guarded_phase_refines:
  assumes "calm ctx n0 i" "ready ctx n0 i PREPARING s"
  shows "phase_ok ctx n0 i PREPARING s (guarded_script ctx runner i request q (sv_fs s)) (guarded_phase ctx runner i request q s)"
proof (cases "runner_prepare runner (svc_env ctx) q (sv_fs s)")
  case (Inl what)
  with assms(2) phase_throw [where ?'a = unit, of ctx n0 i PREPARING s what] show ?thesis by (simp add: guarded_script_def guarded_phase_def)
next
  case (Inr y)
  obtain r fs' where y: "y = (r, fs')" by (cases y)
  let ?s = "s\<lparr>sv_fs := fs'\<rparr>"
  have "ready ctx n0 i PREPARING ?s" using assms(2) by simp
  from phase_final [where ?'a = unit, OF assms(1) this, of "make_result i FAILED SYSTEM_ERROR (prep_message r)"]
    compile_phase_refines [OF assms(1) this, of runner request q] Inr y
  show ?thesis by (simp add: guarded_script_def guarded_phase_def)
qed

lemma guard_is_cleaned:
  "RunnerWorkDirCleanupGuard ctx dir s = s\<lparr>sv_fs := cleaned ctx dir (sv_fs s)\<rparr>"
  by (simp add: RunnerWorkDirCleanupGuard_def cleaned_def)

lemma phase_cleanup:
  assumes "phase_ok ctx n0 i cur s script run"
  shows "phase_ok ctx n0 i cur s (map_option (\<lambda>(ws, e, fs'). (ws, e, cleaned ctx dir fs')) script)
    (map_option (map_prod id (RunnerWorkDirCleanupGuard ctx dir)) run)"
proof (cases script)
  case None
  with assms show ?thesis by (simp add: phase_ok_def)
next
  case (Some x)
  obtain ws e fs' where x: "x = (ws, e, fs')" by (cases x)
  with assms Some obtain s' where "run = Some (e, s')" "sv_fs s' = fs'" "sv_written s' = sv_written s @ ws"
    "if e = Returns then ws \<noteq> [] \<and> done_with i (last ws) s' else ready ctx n0 i (if ws = [] then cur else sr_status (last ws)) s'"
    by (auto simp: phase_ok_def)
  with Some x show ?thesis by (auto simp: phase_ok_def guard_is_cleaned)
qed

lemma process_body_refines:
  assumes "calm ctx n0 i" "ready ctx n0 i QUEUED s"
  shows "phase_ok ctx n0 i QUEUED s (body_script ctx i request (sv_fs s)) (process_body ctx i request s)"
  unfolding body_script_def process_body_def Let_def
proof (rule phase_write [OF assms])
  fix s1
  assume rdy: "ready ctx n0 i (sr_status (make_result i PREPARING PENDING [])) s1" and fs: "sv_fs s1 = sv_fs s"
  let ?q = "request\<lparr>req_uuid := i\<rparr>"
  show "phase_ok ctx n0 i (sr_status (make_result i PREPARING PENDING [])) s1
     (case createRunner (req_language request) of
        None \<Rightarrow> Some ([make_result i FAILED SYSTEM_ERROR ''unsupported language''], Returns, sv_fs s)
      | Some runner \<Rightarrow>
          if \<not> tmp_ready (svc_env ctx) (sv_fs s) then Some ([], Throws (env_what (svc_env ctx)), sv_fs s)
          else map_option (\<lambda>(ws, e, fs'). (ws, e, cleaned ctx (runner_work_dir_for (svc_env ctx) ?q) fs'))
                 (guarded_script ctx runner i request ?q (sv_fs s)))
     (case createRunner (req_language request) of
        None \<Rightarrow> Some (Returns, snd (persist_result ctx i (make_result i FAILED SYSTEM_ERROR ''unsupported language'') s1))
      | Some runner \<Rightarrow>
          if \<not> tmp_ready (svc_env ctx) (sv_fs s1) then Some (Throws (env_what (svc_env ctx)), s1)
          else map_option (map_prod id (RunnerWorkDirCleanupGuard ctx (runner_work_dir_for (svc_env ctx) ?q)))
                 (guarded_phase ctx runner i request ?q s1))"
  proof (cases "createRunner (req_language request)")
    case None
    with rdy fs phase_final [where ?'a = unit, OF assms(1) rdy, of "make_result i FAILED SYSTEM_ERROR ''unsupported language''"]
    show ?thesis by simp
  next
    case (Some runner)
    from rdy have r: "ready ctx n0 i PREPARING s1" by simp
    from phase_cleanup [OF guarded_phase_refines [OF assms(1) r, of runner request ?q]] Some fs
      phase_throw [where ?'a = unit, OF r, of "env_what (svc_env ctx)"]
    show ?thesis by simp
  qed
qed simp_all

lemma process_refines:
  assumes "0 < i" "calm ctx n0 i" "ready ctx n0 i QUEUED s"
  shows "case judge_script ctx i request (sv_fs s) of
      None \<Rightarrow> processSubmission ctx i request s = None
    | Some (ws, fs') \<Rightarrow>
        \<exists>s'. processSubmission ctx i request s = Some s' \<and> sv_fs s' = fs' \<and> sv_written s' = sv_written s @ ws \<and>
          ws \<noteq> [] \<and> done_with i (last ws) s'"
proof (cases "body_script ctx i request (sv_fs s)")
  case None
  with process_body_refines [OF assms(2,3), of request] assms(1) show ?thesis
    by (simp add: judge_script_def processSubmission_def phase_ok_def)
next
  case (Some x)
  obtain ws e fs' where x: "x = (ws, e, fs')" by (cases x)
  with process_body_refines [OF assms(2,3), of request] Some obtain s' where
    s': "process_body ctx i request s = Some (e, s')" "sv_fs s' = fs'" "sv_written s' = sv_written s @ ws"
    and post: "if e = Returns then ws \<noteq> [] \<and> done_with i (last ws) s'
      else ready ctx n0 i (if ws = [] then QUEUED else sr_status (last ws)) s'"
    by (auto simp: phase_ok_def)
  show ?thesis
  proof (cases e)
    case Returns
    with Some x s' post assms(1) show ?thesis by (simp add: judge_script_def processSubmission_def)
  next
    case (Throws what)
    let ?cur = "if ws = [] then QUEUED else sr_status (last ws)"
    from post Throws have rdy: "ready ctx n0 i ?cur s'" by simp
    then have "isValidTransition ?cur FAILED" by (intro valid_FAILED) (simp add: ready_def)
    with persist_accepted [OF assms(2) rdy, of "make_result i FAILED SYSTEM_ERROR what"] Some x s' Throws assms(1)
    show ?thesis by (auto simp: judge_script_def processSubmission_def)
  next
    case (Goes u)
    then have False using Some x
      by (auto simp: body_script_def writes_def guarded_script_def compile_script_def run_script_def Let_def
          split: option.splits sum.splits prod.splits if_splits flow.splits)
    then show ?thesis ..
  qed
qed

end
