(* ===== verification/ServiceProps.thy ===== *)
theory ServiceProps
  imports ServiceFacts
begin

text \<open>
  The properties of the judging pipeline: every submission is carried to a terminal status along a
  path of the status machine, its verdict is the summary of its test cases, its work directory is
  removed; and what \<open>submitAsync\<close> does.
\<close>

section \<open>Paths and verdicts of scripts\<close>

definition valid_path :: "SubmissionStatus list \<Rightarrow> bool" where
  "valid_path ss \<longleftrightarrow>
     remdups_adj ss \<in> {[PREPARING, FAILED], [PREPARING, COMPILING, FAILED], [PREPARING, COMPILING, FINISHED],
       [PREPARING, COMPILING, RUNNING, FAILED], [PREPARING, COMPILING, RUNNING, FINISHED]}"

lemma script_cases_running:
  "script_cases rc cs r fs = Some (ws, e, fs') \<Longrightarrow> sr_status r = RUNNING \<Longrightarrow>
     map sr_status ws = replicate (length ws) RUNNING \<and> e \<noteq> Returns"
proof (induction rc cs r fs arbitrary: ws rule: script_cases.induct)
  case (2 rc c cs r fs)
  then show ?case by (fastforce simp: Let_def split: option.splits sum.splits prod.splits)
qed auto

lemma running_path: "l \<noteq> RUNNING \<Longrightarrow> remdups_adj (RUNNING # replicate n RUNNING @ [l]) = [RUNNING, l]"
  by (induction n) simp_all

lemma script_path:
  assumes "judge_script ctx i request fs = Some (ws, fs')"
  shows "ws \<noteq> [] \<and> valid_path (map sr_status ws) \<and> is_terminal_status (sr_status (last ws))"
proof -
  from assms obtain ws0 e fs0 where b: "body_script ctx i request fs = Some (ws0, e, fs0)"
    and w: "ws = (case e of Throws what \<Rightarrow> ws0 @ [make_result i FAILED SYSTEM_ERROR what] | _ \<Rightarrow> ws0)"
    by (auto simp: judge_script_def split: option.splits flow.splits)
  from b show ?thesis unfolding w
    by (auto simp: body_script_def guarded_script_def compile_script_def run_script_def writes_def Let_def valid_path_def
        running_path dest!: script_cases_running
        split: option.splits sum.splits prod.splits if_splits flow.splits)
qed

text \<open>What the case loop collects, for every runner that keeps its contract.\<close>

context language_runner
begin

lemma cases_judged:
  "script_cases (run_case q) cs r fs = Some (ws, Goes r', fs') \<Longrightarrow>
     sr_status r' = sr_status r \<and>
     map cr_seq_id (sr_case_results r') = map cr_seq_id (sr_case_results r) @ map case_seq_id cs \<and>
     (\<forall>cr \<in> set (sr_case_results r') - set (sr_case_results r). judged (cr_verdict cr))"
proof (induction cs arbitrary: r fs ws)
  case (Cons c cs)
  then obtain res fs1 ws1 where run: "run_case q c fs = Some (Inr (res, fs1))"
    and rest: "script_cases (run_case q) cs (r\<lparr>sr_case_results := sr_case_results r @ [rcase_result res],
      sr_message := rcase_message res\<rparr>) fs1 = Some (ws1, Goes r', fs')"
    by (auto simp: Let_def split: option.splits sum.splits prod.splits)
  from Cons.IH [OF rest] case_judged [OF run] show ?case by auto
qed simp

end

lemma number_cases_seq: "map case_seq_id (number_cases d n ps) = map (\<lambda>k. n + int k) [0..<length ps]"
proof (induction ps arbitrary: n)
  case (Cons p ps)
  then show ?case by (cases p) (simp add: upt_conv_Cons map_Suc_upt [symmetric] comp_def del: upt_Suc)
qed simp

lemma load_cases_numbered:
  "load_cases_for_problem ctx fs pid = Inr cs \<Longrightarrow> \<exists>d ps. cs = number_cases d 1 ps"
proof -
  have "\<exists>d ps. [] = number_cases d 1 ps" by (intro exI [of _ "[]"]) simp
  then show "load_cases_for_problem ctx fs pid = Inr cs \<Longrightarrow> \<exists>d ps. cs = number_cases d 1 ps"
    unfolding load_cases_for_problem_def by (auto split: sum.splits if_splits bool.splits)
qed

lemma load_cases_seq:
  assumes "load_cases_for_problem ctx fs pid = Inr cs"
  shows "map case_seq_id cs = map (\<lambda>k. 1 + int k) [0..<length cs]"
proof -
  have "length (number_cases d n ps) = length ps" for d n ps
    by (induction d n ps rule: number_cases.induct) simp_all
  with load_cases_numbered [OF assms] show ?thesis by (auto simp: number_cases_seq)
qed

definition judged_by_cases :: "SubmissionResult \<Rightarrow> bool" where
  "judged_by_cases r \<longleftrightarrow>
     sr_case_results r \<noteq> [] \<and> sr_verdict r = summarize (sr_case_results r) PENDING \<and>
     map cr_seq_id (sr_case_results r) = map (\<lambda>k. 1 + int k) [0..<length (sr_case_results r)] \<and>
     (\<forall>cr \<in> set (sr_case_results r). judged (cr_verdict cr))"

lemma run_script_finished:
  assumes run: "run_script ctx runner i request q fs = Some (ws, Returns, fs')" and fin: "sr_status (last ws) = FINISHED"
    and contract: "language_runner (runner_prepare runner (svc_env ctx)) (runner_compile runner (svc_env ctx))
      (runner_runCase runner (svc_env ctx))"
  shows "judged_by_cases (last ws)"
proof -
  let ?r = "make_result i RUNNING PENDING []"
  from run fin obtain cs ws0 r where load: "load_cases_for_problem ctx fs (req_pid request) = Inr cs" and cs: "cs \<noteq> []"
    and sc: "script_cases (runner_runCase runner (svc_env ctx) q) cs ?r fs = Some (ws0, Goes r, fs')"
    and last: "last ws = finished_with i r"
    by (auto simp: run_script_def writes_def Let_def dest: script_cases_running
        split: option.splits prod.splits if_splits flow.splits sum.splits)
  from language_runner.cases_judged [OF contract sc] have
    seq: "map cr_seq_id (sr_case_results r) = map case_seq_id cs" and j: "\<forall>cr \<in> set (sr_case_results r). judged (cr_verdict cr)"
    by auto
  from seq have "length (sr_case_results r) = length cs" by (metis length_map)
  with seq j cs load_cases_seq [OF load] show ?thesis
    unfolding last judged_by_cases_def by (auto simp del: length_0_conv)
qed

lemma script_finished:
  assumes "judge_script ctx i request fs = Some (ws, fs')" and "sr_status (last ws) = FINISHED"
  shows "(sr_case_results (last ws) = [] \<and> sr_verdict (last ws) \<in> {CE, SYSTEM_ERROR}) \<or> judged_by_cases (last ws)"
proof -
  let ?q = "request\<lparr>req_uuid := i\<rparr>"
  from assms obtain ws0 fs0 where b: "body_script ctx i request fs = Some (ws, Returns, fs0)"
    by (auto simp: judge_script_def split: option.splits flow.splits)
      (auto simp: body_script_def writes_def guarded_script_def compile_script_def run_script_def Let_def
        split: option.splits sum.splits prod.splits if_splits flow.splits)
  then obtain runner ws1 fs1 where r: "createRunner (req_language request) = Some runner"
    and g: "guarded_script ctx runner i request ?q fs = Some (ws1, Returns, fs1)" and ws: "ws = make_result i PREPARING PENDING [] # ws1"
    using assms(2) by (auto simp: body_script_def writes_def Let_def split: option.splits if_splits)
  note contract = createRunner_contract [OF r, of "svc_env ctx"]
  from g assms(2) ws obtain fs2 ws2 where c: "compile_script ctx runner i request ?q fs2 = Some (ws1, Returns, fs1)"
    by (auto simp: guarded_script_def split: sum.splits prod.splits if_splits)
  show ?thesis
  proof (cases "runner_compile runner (svc_env ctx) ?q fs2")
    case None
    with c show ?thesis by (simp add: compile_script_def writes_def)
  next
    case (Some x)
    with c obtain cr fs3 where x: "x = Inr (cr, fs3)"
      by (auto simp: compile_script_def writes_def split: sum.splits)
    show ?thesis
    proof (cases "comp_ok cr")
      case False
      with c Some x ws language_runner.compile_verdict [OF contract Some [unfolded x] False] show ?thesis
        by (auto simp: compile_script_def writes_def)
    next
      case True
      with c Some x obtain ws3 where "run_script ctx runner i request ?q fs3 = Some (ws3, Returns, fs1)"
        and "ws1 = make_result i COMPILING PENDING [] # ws3" by (auto simp: compile_script_def writes_def)
      moreover from this have "ws3 \<noteq> []" by (auto simp: run_script_def writes_def Let_def)
      ultimately show ?thesis using run_script_finished [OF _ _ contract] assms(2) ws by auto
    qed
  qed
qed

section \<open>Termination\<close>

text \<open>
  The clock that the monitor reads passes the one second that every test case is given (the
  limit is set by \<open>load_cases_for_problem\<close>).
\<close>

definition timely :: "RunnerEnv \<Rightarrow> bool" where
  "timely renv \<longleftrightarrow>
     (\<forall>config fs. max_real_time_ms config = 1000 \<longrightarrow>
        (let os = fst (env_os renv config fs) in
         \<exists>n. wrap32 (cp_elapsed (os_process os (run_child_process_or_exit (os_kernel os) (os_fork os) config)) n) > 1000))"

text \<open>
  Every command that the shell is given ends: \<open>std::system\<close> and reading from \<open>popen\<close> wait for the
  compiler, the interpreter's syntax check or the checker without any limit.
\<close>

definition shell_returns :: "RunnerEnv \<Rightarrow> bool" where
  "shell_returns renv \<longleftrightarrow> (\<forall>cmd fs. env_system renv cmd fs \<noteq> None \<and> env_popen renv cmd fs \<noteq> None)"

lemma shell_returnsD:
  "shell_returns renv \<Longrightarrow> \<exists>st fs'. env_system renv cmd fs = Some (st, fs')"
  "shell_returns renv \<Longrightarrow> \<exists>out fs'. env_popen renv cmd fs = Some (out, fs')"
  unfolding shell_returns_def by (metis option.exhaust surj_pair)+

lemma compare_total: "shell_returns renv \<Longrightarrow> compare_case_output renv i e u fs \<noteq> None"
  using shell_returnsD(1) [of renv "checkerCmd i e u" fs]
  by (auto simp: compare_case_output_def split: sum.splits bool.splits)

lemma sint_1000: "sint (1000 :: uint32) = 1000"
  by simp

lemma run_executable_case_total:
  assumes "timely renv" "shell_returns renv" "case_real_time_limit_ms tc = 1000"
  shows "run_executable_case renv exe tc out fs \<noteq> None"
proof -
  let ?c = "case_config (env_config renv) exe tc out"
  obtain os fs1 where os: "env_os renv ?c fs = (os, fs1)" by (cases "env_os renv ?c fs")
  have "max_real_time_ms ?c = 1000" by (simp add: case_config_def assms(3))
  then have "\<exists>n. stops_at (os_process os (run_child_process_or_exit (os_kernel os) (os_fork os) ?c)) (max_real_time_ms ?c) n"
    using assms(1) [unfolded timely_def, rule_format, of ?c fs] os
    by (auto simp: stops_at_def real_time_limit_exceeded_def)
  then obtain r where "run_sjudger os ?c = Some r" using run_sjudger_total by blast
  then show ?thesis using os compare_total [OF assms(2), of "case_input_path tc" "case_expected_output_path tc" out fs1]
    by (auto simp: run_executable_case_def Let_def split: prod.splits sum.splits bool.splits simp del: all_exist.simps)
qed

lemma runCase_total:
  assumes "createRunner l = Some runner" "timely renv" "shell_returns renv" "case_real_time_limit_ms tc = 1000"
  shows "runner_runCase runner renv q tc fs \<noteq> None"
proof -
  have "\<exists>y. run_executable_case renv exe tc out fs = Some y" for exe out fs
    using run_executable_case_total [OF assms(2,3,4)] by blast
  then show ?thesis using assms(1)
    by (cases l) (auto simp: runner_defs cpp_runCase_def py_runCase_def
      split: prod.splits bool.splits sum.splits simp del: all_exist.simps)
qed

lemma compile_total:
  assumes "createRunner l = Some runner" "shell_returns renv"
  shows "runner_compile runner renv q fs \<noteq> None"
proof -
  have sys: "env_system renv cmd fs \<noteq> None" "env_popen renv cmd fs \<noteq> None" for cmd
    using assms(2) by (simp_all add: shell_returns_def)
  have "compile_cpp_source_file renv (cpp_source_path_for renv q) (executable_path_for renv q) (compile_log_path_for renv q) fs \<noteq> None"
    using sys(2) by (auto simp: compile_cpp_source_file_def split: option.splits sum.splits)
  then have "cpp_compile renv q fs \<noteq> None"
    by (auto simp: cpp_compile_def Let_def split: sum.splits bool.splits option.splits if_splits)
  moreover have "py_compile renv q fs \<noteq> None"
    using sys(1) [of "py_compile_command (py_source_path_for renv q) (compile_log_path_for renv q)"]
    by (auto simp: py_compile_def split: sum.splits bool.splits option.splits if_splits)
  ultimately show ?thesis using assms(1) by (cases l) (auto simp: runner_defs simp del: not_None_eq)
qed

lemma script_cases_total:
  "(\<And>c fs. c \<in> set cs \<Longrightarrow> rc c fs \<noteq> None) \<Longrightarrow> script_cases rc cs r fs \<noteq> None"
proof (induction cs arbitrary: r fs)
  case (Cons c cs)
  then have IH: "script_cases rc cs r fs \<noteq> None" for r fs by simp
  from Cons.prems obtain x where "rc c fs = Some x" by fastforce
  with IH show ?case by (cases x) (auto simp: Let_def split: prod.splits simp del: not_None_eq)
qed simp

lemma load_cases_limit:
  assumes "load_cases_for_problem ctx fs pid = Inr cs" and "tc \<in> set cs"
  shows "case_real_time_limit_ms tc = 1000"
proof -
  have "tc \<in> set (number_cases d n ps) \<Longrightarrow> case_real_time_limit_ms tc = 1000" for d n ps
    by (induction d n ps rule: number_cases.induct) auto
  with load_cases_numbered [OF assms(1)] assms(2) show ?thesis by blast
qed

lemma judge_script_total:
  assumes "timely (svc_env ctx)" and "shell_returns (svc_env ctx)"
  shows "\<exists>ws fs'. judge_script ctx i request fs = Some (ws, fs')"
proof -
  have "run_script ctx runner i request q fs1 \<noteq> None" if "createRunner (req_language request) = Some runner" for runner q fs1
  proof -
    have "script_cases (runner_runCase runner (svc_env ctx) q) cs r fs1 \<noteq> None"
      if "load_cases_for_problem ctx fs1 (req_pid request) = Inr cs" for cs r
      using runCase_total [OF \<open>createRunner (req_language request) = Some runner\<close> assms] load_cases_limit [OF that]
      by (intro script_cases_total) blast
    then show ?thesis
      by (auto simp: run_script_def writes_def Let_def split: option.splits prod.splits flow.splits sum.splits simp del: not_None_eq)
  qed
  then have "guarded_script ctx runner i request q fs1 \<noteq> None" if "createRunner (req_language request) = Some runner" for runner q fs1
    using that compile_total [OF that assms(2)]
    by (auto simp: guarded_script_def compile_script_def writes_def split: sum.splits prod.splits option.splits simp del: not_None_eq)
  then have "body_script ctx i request fs \<noteq> None"
    by (auto simp: body_script_def writes_def Let_def split: option.splits simp del: not_None_eq)
  then show ?thesis by (auto simp: judge_script_def split: option.splits flow.splits)
qed

section \<open>A concrete submission\<close>

text \<open>One problem with one test case, a Python submission, and a program that prints the expected output.\<close>

definition demo_env :: RunnerEnv where
  "demo_env =
     \<lparr>env_tmp = ''/tmp'', env_what = ''no temporary directory'', env_config = JNull, env_system = (\<lambda>_ fs. Some (0, fs)),
      env_popen = (\<lambda>_ fs. Some (None, fs)),
      env_os = (\<lambda>config fs. (quiet_os 0 0, set_node (output_path config) (RegularFile ''3'' 420) fs))\<rparr>"

definition demo_ctx :: ServiceCtx where
  "demo_ctx =
     \<lparr>svc_env = demo_env, svc_others = (\<lambda>_. []), svc_clock = (\<lambda>_. 0), svc_resolve = (\<lambda>p. p), svc_project_root = ''/p''\<rparr>"

definition demo_fs :: FileSystem where
  "demo_fs =
     \<lparr>fs_nodes = [(''/tmp'', Directory), (''/p/testData'', Directory), (''/p/testData/7/data'', Directory),
        (''/p/testData/7/data/a.in'', RegularFile ''1 2'' 420), (''/p/testData/7/data/a.out'', RegularFile (''3'' @ [CHR 0x0A]) 420)],
      fs_denied = (\<lambda>_. False), fs_status_error = (\<lambda>_. None)\<rparr>"

definition demo_request :: SubmissionRequest where
  "demo_request = \<lparr>req_uuid = 4, req_pid = ''7'', req_language = PYTHON, req_code = ''print(3)''\<rparr>"

definition demo_state :: ServiceState where
  "demo_state =
     \<lparr>sv_store = snd (createSubmission JNull demo_request 0 0 initial_store), sv_fs = demo_fs, sv_accesses = 0, sv_written = []\<rparr>"

lemma demo_timely: "timely demo_env"
proof -
  have "wrap32 (int 1001) > 1000" by (simp add: wrap32_id)
  then have "\<exists>n. wrap32 (int n) > 1000" by blast
  then show ?thesis
    by (simp add: timely_def demo_env_def quiet_os_def quiet_process_def case_prod_unfold Let_def)
qed

lemma demo_shell: "shell_returns demo_env"
  by (simp add: shell_returns_def demo_env_def)

section \<open>Properties of the service\<close>

text \<open>The store holds the submission, queued, and identifiers are left for the other threads.\<close>

definition queued_in :: "ServiceCtx \<Rightarrow> int \<Rightarrow> ServiceState \<Rightarrow> bool" where
  "queued_in ctx i s \<longleftrightarrow>
     0 < i \<and> sv_accesses s = 0 \<and> store_inv (sv_store s) \<and> calm ctx (next_submission_id (sv_store s)) i \<and>
     (\<exists>r. lookup_result (sv_store s) i = Some r \<and> sr_status r = QUEUED)"

lemma queued_ready: "queued_in ctx i s \<Longrightarrow> ready ctx (next_submission_id (sv_store s)) i QUEUED s"
  by (simp add: queued_in_def ready_def used_before_def)

lemma demo_queued: "queued_in demo_ctx 1 demo_state"
proof -
  have "next_submission_id initial_store < int32_max" by (simp add: initial_store_def int32_max_def)
  then have "store_inv (sv_store demo_state)"
    using store_inv_create [OF store_inv_initial] by (simp add: demo_state_def)
  moreover have "next_submission_id (sv_store demo_state) = 2" "sv_accesses demo_state = 0"
    "map_option sr_status (lookup_result (sv_store demo_state) 1) = Some QUEUED" by code_simp+
  ultimately show ?thesis
    by (auto simp: queued_in_def calm_def used_before_def demo_ctx_def int32_max_def)
qed

lemma demo_script: "\<exists>ws fs'. judge_script demo_ctx 1 demo_request demo_fs = Some (ws, fs')"
  using judge_script_total [of demo_ctx] demo_timely demo_shell by (simp add: demo_ctx_def)

text \<open>
  C1. The service implements its script: a queued submission is processed to the end whatever the
  other threads do to the other records between its accesses to the store, every snapshot of the
  script is accepted by the store in order, the files afterwards are those of the script, and the
  record then holds the last snapshot or has already been cleaned up.
\<close>

theorem service_refines_script:
  assumes "queued_in ctx i s" and "judge_script ctx i request (sv_fs s) = Some (ws, fs')"
  shows "\<exists>s'. processSubmission ctx i request s = Some s' \<and> sv_written s' = sv_written s @ ws \<and> sv_fs s' = fs' \<and>
    store_inv (sv_store s') \<and> lookup_result (sv_store s') i \<in> {None, Some (last ws)}"
  using process_refines [of i ctx _ s request, OF _ _ queued_ready [OF assms(1)]] assms
  by (auto simp: queued_in_def done_with_def)

theorem service_refines_script_witness:
  "\<exists>ws fs' s'. judge_script demo_ctx 1 demo_request demo_fs = Some (ws, fs') \<and>
     processSubmission demo_ctx 1 demo_request demo_state = Some s' \<and> sv_written s' = ws"
proof -
  obtain ws fs' where "judge_script demo_ctx 1 demo_request demo_fs = Some (ws, fs')" using demo_script by blast
  with service_refines_script [OF demo_queued, of demo_request ws fs'] show ?thesis by (auto simp: demo_state_def)
qed



text \<open>
  A checker that never ends blocks the worker: when a test case runs to success and the checker is
  installed, the case does not return, although the judged program has ended.
\<close>

theorem hanging_checker_blocks_worker:
  assumes "\<forall>p \<in> {exe, case_input_path tc, case_expected_output_path tc}. fs_exists fs p = Inr True"
    and "case_run renv exe tc out fs = Some r" and "jr_result r = judge_code J_SUCCESS"
    and "fs_exists (snd (env_os renv (case_config (env_config renv) exe tc out) fs)) checkerPath = Inr True"
    and "env_system renv (checkerCmd (case_input_path tc) (case_expected_output_path tc) out)
      (snd (env_os renv (case_config (env_config renv) exe tc out) fs)) = None"
  shows "run_executable_case renv exe tc out fs = None"
proof -
  have "all_exist fs [exe, case_input_path tc, case_expected_output_path tc] = Inr True"
    using assms(1) by (simp only: all_exist_Inr_True) simp
  with assms(2-5) show ?thesis
    by (auto simp: run_executable_case_def case_run_def compare_case_output_def Let_def map_AC_iff
        split: prod.splits simp del: all_exist.simps)
qed

theorem hanging_checker_blocks_worker_witness:
  "run_executable_case (sample_env\<lparr>env_system := \<lambda>_ _. None\<rparr>) ''/e'' sample_case ''/u''
     (sample_fs\<lparr>fs_nodes := (checkerPath, RegularFile [] 493) # fs_nodes sample_fs\<rparr>) = None"
proof -
  let ?env = "sample_env\<lparr>env_system := \<lambda>_ _. None\<rparr>"
  let ?fs = "sample_fs\<lparr>fs_nodes := (checkerPath, RegularFile [] 493) # fs_nodes sample_fs\<rparr>"
  have ok: "map_option jr_result (case_run ?env ''/e'' sample_case ''/u'' ?fs) = Some (judge_code J_SUCCESS)" by code_simp
  then obtain r where r: "case_run ?env ''/e'' sample_case ''/u'' ?fs = Some r" "jr_result r = judge_code J_SUCCESS" by auto
  show ?thesis by (rule hanging_checker_blocks_worker [OF _ r]) code_simp+
qed

text \<open>
  C3. The final verdict is sound: a submission that ends FINISHED either failed to compile (no test
  case was run, and the verdict is CE or SYSTEM_ERROR), or ran at least one test case, its results
  are numbered 1, 2, ... in order, each has a judged verdict, and the verdict is their summary.
\<close>

theorem finished_verdict_is_summary:
  assumes "queued_in ctx i s"
    and "processSubmission ctx i request s = Some s'" and "sr_status (last (sv_written s')) = FINISHED"
  shows "let r = last (sv_written s') in
    (sr_case_results r = [] \<and> sr_verdict r \<in> {CE, SYSTEM_ERROR}) \<or>
    (sr_case_results r \<noteq> [] \<and> sr_verdict r = summarize (sr_case_results r) PENDING \<and>
     map cr_seq_id (sr_case_results r) = map (\<lambda>k. 1 + int k) [0..<length (sr_case_results r)] \<and>
     (\<forall>cr \<in> set (sr_case_results r). cr_verdict cr \<in> {AC, WA, TLE, MLE, RE, SYSTEM_ERROR}))"
proof -
  from process_refines [of i ctx _ s request, OF _ _ queued_ready [OF assms(1)]] assms(1,2) obtain ws fs' where
    script: "judge_script ctx i request (sv_fs s) = Some (ws, fs')" and "sv_written s' = sv_written s @ ws" "ws \<noteq> []"
    by (auto simp: queued_in_def split: option.splits)
  then have "last (sv_written s') = last ws" by simp
  with script_finished [OF script] assms(3) show ?thesis
    unfolding Let_def judged_by_cases_def judged_def by auto
qed

theorem finished_verdict_is_summary_witness:
  "\<exists>s'. processSubmission demo_ctx 1 demo_request demo_state = Some s' \<and> sr_verdict (last (sv_written s')) = AC \<and>
     map cr_seq_id (sr_case_results (last (sv_written s'))) = [1]"
proof -
  have "map_option (\<lambda>s'. (sr_status (last (sv_written s')), sr_verdict (last (sv_written s')),
      length (sr_case_results (last (sv_written s')))))
      (processSubmission demo_ctx 1 demo_request demo_state) = Some (FINISHED, AC, 1)" by code_simp
  then obtain s' where s': "processSubmission demo_ctx 1 demo_request demo_state = Some s'"
    "sr_status (last (sv_written s')) = FINISHED" "sr_verdict (last (sv_written s')) = AC"
    "length (sr_case_results (last (sv_written s'))) = 1" by auto
  from finished_verdict_is_summary [OF demo_queued s'(1,2)] s' show ?thesis by (auto simp: Let_def)
qed


lemma demo_denied: "\<exists>s'. processSubmission demo_ctx 1 demo_request demo_state = Some s' \<and> fs_denied (sv_fs s') = (\<lambda>_. False)"
proof -
  have d: "map_option (\<lambda>s'. fs_denied (sv_fs s') q) (processSubmission demo_ctx 1 demo_request demo_state) = Some False" for q
    by code_simp
  then obtain s' where "processSubmission demo_ctx 1 demo_request demo_state = Some s'" by fastforce
  with d show ?thesis by auto
qed


text \<open>
  Requests that cannot be judged are refused with a terminal status: C is not supported by the
  factory, and an empty source is refused by the runner; both end FAILED with SYSTEM_ERROR and no
  test case is run.
\<close>

theorem unjudgeable_requests_fail:
  assumes "queued_in ctx i s"
    and "req_language request = C \<or> (req_code request = [] \<and> tmp_ready (svc_env ctx) (sv_fs s))"
  shows "\<exists>s' m. processSubmission ctx i request s = Some s' \<and>
    sv_written s' = sv_written s @ [make_result i PREPARING PENDING [], make_result i FAILED SYSTEM_ERROR m]"
proof -
  have "\<exists>m fs'. judge_script ctx i request (sv_fs s) =
      Some ([make_result i PREPARING PENDING [], make_result i FAILED SYSTEM_ERROR m], fs')"
  proof (cases "createRunner (req_language request)")
    case None
    then show ?thesis by (auto simp: judge_script_def body_script_def writes_def)
  next
    case (Some runner)
    with assms(2) have code: "req_code request = []" "tmp_ready (svc_env ctx) (sv_fs s)" by auto
    then obtain r where "runner_prepare runner (svc_env ctx) (request\<lparr>req_uuid := i\<rparr>) (sv_fs s) = Inr (r, sv_fs s)" "\<not> prep_ok r"
      using language_runner.refuses_empty [OF createRunner_contract [OF Some], of "request\<lparr>req_uuid := i\<rparr>" "svc_env ctx" "sv_fs s"]
      by (auto simp: has_basic_request_fields_def)
    with Some code show ?thesis by (auto simp: judge_script_def body_script_def guarded_script_def writes_def)
  qed
  with process_refines [of i ctx _ s request, OF _ _ queued_ready [OF assms(1)]] assms(1) show ?thesis
    by (fastforce simp: queued_in_def)
qed

theorem unjudgeable_requests_fail_witness:
  "\<exists>s' m. processSubmission demo_ctx 1 (demo_request\<lparr>req_language := C\<rparr>) demo_state = Some s' \<and>
     sv_written s' = [make_result 1 PREPARING PENDING [], make_result 1 FAILED SYSTEM_ERROR m]"
  using unjudgeable_requests_fail [OF demo_queued, of "demo_request\<lparr>req_language := C\<rparr>"]
  by (simp add: demo_state_def)

text \<open>
  A problem identifier that is an absolute path leaves the test-data root: the directory that is
  scanned for test cases is then the client's own, whatever root is configured.
\<close>

theorem absolute_pid_escapes_root:
  assumes "pid \<noteq> []" and "hd pid = CHR ''/''" and "resolve_test_data_root ctx fs = Inr base" and "base \<noteq> []"
    and "fs_exists fs (path_join pid ''data'') = Inr True"
  shows "load_cases_for_problem ctx fs pid =
    Inr (number_cases (path_join pid ''data'') 1 (scan_test_data_file_pairs (path_join pid ''data'') fs))"
  using assms by (simp add: load_cases_for_problem_def data_path_for_def path_join_def [of base])

theorem absolute_pid_escapes_root_witness:
  "map_sum id (map case_input_path) (load_cases_for_problem demo_ctx (demo_fs\<lparr>fs_nodes := fs_nodes demo_fs @
     [(''/home/data'', Directory), (''/home/data/x.in'', RegularFile [] 420), (''/home/data/x.out'', RegularFile [] 420)]\<rparr>) ''/home'')
   = Inr [''/home/data/x.in'']"
proof -
  let ?fs = "demo_fs\<lparr>fs_nodes := fs_nodes demo_fs @
     [(''/home/data'', Directory), (''/home/data/x.in'', RegularFile [] 420), (''/home/data/x.out'', RegularFile [] 420)]\<rparr>"
  have root: "resolve_test_data_root demo_ctx ?fs = Inr ''/p/testData''" by code_simp
  have "load_cases_for_problem demo_ctx ?fs ''/home'' =
      Inr (number_cases (path_join ''/home'' ''data'') 1 (scan_test_data_file_pairs (path_join ''/home'' ''data'') ?fs))"
    by (rule absolute_pid_escapes_root [OF _ _ root]) code_simp+
  moreover have "map case_input_path (number_cases (path_join ''/home'' ''data'') 1
      (scan_test_data_file_pairs (path_join ''/home'' ''data'') ?fs)) = [''/home/data/x.in'']" by code_simp
  ultimately show ?thesis by simp
qed

section \<open>Submitting\<close>

text \<open>
  \<open>submitAsync\<close> hands out a fresh identifier, files the submission as QUEUED under it and appends
  the task, with that identifier and the reply channel, to the queue. When the queue has been shut
  down it reports -1, but the record has been created and stays QUEUED: no worker will ever see it.
\<close>

theorem submit_async_effect:
  assumes "store_inv st" and "next_submission_id st < int32_max"
  shows "\<exists>st'. submitAsync c request ch now now' (st, q) =
      (if q_shutdown q then (- 1, st', q)
       else (next_submission_id st, st', q\<lparr>q_tasks := q_tasks q @ [\<lparr>task_submission_id = next_submission_id st,
               task_request = request, task_reply_channel_id = ch\<rparr>]\<rparr>)) \<and>
    store_inv st' \<and> lookup_result st (next_submission_id st) = None \<and>
    lookup_result st' (next_submission_id st) =
      Some (default_result\<lparr>sr_submission_id := next_submission_id st, sr_status := QUEUED\<rparr>)"
proof -
  let ?u = "createSubmission c request now now' st"
  have pos: "0 < next_submission_id st" using assms(1) by (simp add: store_inv_iff)
  have id: "fst ?u = next_submission_id st" by (simp add: createSubmission_def Let_def)
  have l: "lookup_result (snd ?u) (next_submission_id st) =
      Some (default_result\<lparr>sr_submission_id := next_submission_id st, sr_status := QUEUED\<rparr>)"
    by (simp add: createSubmission_def Let_def lookup_result_def update_conv)
  have "submitAsync c request ch now now' (st, q) =
      (if q_shutdown q then (- 1, snd ?u, q)
       else (next_submission_id st, snd ?u, q\<lparr>q_tasks := q_tasks q @ [\<lparr>task_submission_id = next_submission_id st,
               task_request = request, task_reply_channel_id = ch\<rparr>]\<rparr>))"
    using pos id by (simp add: submitAsync_def queue_push_def case_prod_unfold)
  with l store_inv_create [OF assms] lookup_next_None [OF assms(1)] show ?thesis by blast
qed

theorem submit_async_effect_witness:
  "fst (submitAsync JNull demo_request ''5:1'' 0 0 (initial_store, \<lparr>q_tasks = [], q_shutdown = False\<rparr>)) = 1"
  using submit_async_effect [OF store_inv_initial, of JNull demo_request "''5:1''" 0 0 "\<lparr>q_tasks = [], q_shutdown = False\<rparr>"]
  by (auto simp: initial_store_def int32_max_def)

end
