(* ===== verification/Buffer.thy ===== *)
theory Buffer
  imports Prelude
begin

text \<open>
  \<open>src/network/Buffer.h\<close> and \<open>Buffer.cpp\<close>: the receive buffer of a connection, a byte vector
  with a read and a write index. Its abstract value is the list of readable bytes; every
  operation is shown to be the obvious list operation on it. The theory also has the 4-byte
  big-endian length prefix (\<open>htonl\<close>/\<open>ntohl\<close> on a copied \<open>uint32_t\<close>) of the frames.
\<close>

section \<open>The length prefix\<close>

definition be32_encode :: "nat \<Rightarrow> string" where
  "be32_encode n =
     [char_of (n div 16777216 mod 256), char_of (n div 65536 mod 256), char_of (n div 256 mod 256),
      char_of (n mod 256)]"

definition be32_decode :: "string \<Rightarrow> nat" where
  "be32_decode bs = foldl (\<lambda>acc b. acc * 256 + of_char b) 0 bs"

lemma length_be32 [simp]: "length (be32_encode n) = 4"
  by (simp add: be32_encode_def)

lemma be32_decode_encode:
  assumes "n < 4294967296"
  shows "be32_decode (be32_encode n) = n"
proof -
  have a: "n div 65536 = n div 256 div 256" and b: "n div 16777216 = n div 65536 div 256"
    by (simp_all add: div_mult2_eq [symmetric])
  have "n div 16777216 mod 256 = n div 16777216" using assms by (simp add: less_mult_imp_div_less)
  with a b show ?thesis
    by (simp add: be32_encode_def be32_decode_def div_mult_mod_eq del: div_mult2_eq)
qed

section \<open>The buffer\<close>

definition kCheapPrepend :: nat where "kCheapPrepend = 8"

definition kInitialSize :: nat where "kInitialSize = 1024"

record Buffer =
  b_data :: string
  readerIndex :: nat
  writerIndex :: nat

definition new_buffer :: "nat \<Rightarrow> Buffer" where
  "new_buffer initialSize =
     \<lparr>b_data = replicate (kCheapPrepend + initialSize) (CHR 0x00),
      readerIndex = kCheapPrepend, writerIndex = kCheapPrepend\<rparr>"

definition readableBytes :: "Buffer \<Rightarrow> nat" where
  "readableBytes b = writerIndex b - readerIndex b"

definition writableBytes :: "Buffer \<Rightarrow> nat" where
  "writableBytes b = length (b_data b) - writerIndex b"

definition prependableBytes :: "Buffer \<Rightarrow> nat" where
  "prependableBytes b = readerIndex b"

definition retrieveAll :: "Buffer \<Rightarrow> Buffer" where
  "retrieveAll b = b\<lparr>readerIndex := kCheapPrepend, writerIndex := kCheapPrepend\<rparr>"

definition retrieve :: "nat \<Rightarrow> Buffer \<Rightarrow> Buffer" where
  "retrieve len b =
     (if len < readableBytes b then b\<lparr>readerIndex := readerIndex b + len\<rparr> else retrieveAll b)"

text \<open>\<open>std::string(peek(), len)\<close> reads \<open>len\<close> bytes of the vector; past its end that is undefined (None).\<close>

definition peek_bytes :: "nat \<Rightarrow> Buffer \<Rightarrow> string option" where
  "peek_bytes len b =
     (if readerIndex b + len \<le> length (b_data b) then Some (take len (drop (readerIndex b) (b_data b)))
      else None)"

definition retrieveAsString :: "nat \<Rightarrow> Buffer \<Rightarrow> (string \<times> Buffer) option" where
  "retrieveAsString len b = map_option (\<lambda>s. (s, retrieve len b)) (peek_bytes len b)"

definition retrieveAllAsString :: "Buffer \<Rightarrow> (string \<times> Buffer) option" where
  "retrieveAllAsString b = retrieveAsString (readableBytes b) b"

text \<open>\<open>std::copy\<close> into the vector at position \<open>i\<close>.\<close>

definition copy_at :: "nat \<Rightarrow> string \<Rightarrow> string \<Rightarrow> string" where
  "copy_at i xs buf = take i buf @ xs @ drop (i + length xs) buf"

definition makeSpace :: "nat \<Rightarrow> Buffer \<Rightarrow> Buffer" where
  "makeSpace len b =
     (if writableBytes b + prependableBytes b < len + kCheapPrepend
      then b\<lparr>b_data := take (writerIndex b + len) (b_data b) @
              replicate (writerIndex b + len - length (b_data b)) (CHR 0x00)\<rparr>
      else
        let readable = readableBytes b
        in b\<lparr>b_data := copy_at kCheapPrepend (take readable (drop (readerIndex b) (b_data b))) (b_data b),
             readerIndex := kCheapPrepend, writerIndex := kCheapPrepend + readable\<rparr>)"

definition ensureWritableBytes :: "nat \<Rightarrow> Buffer \<Rightarrow> Buffer" where
  "ensureWritableBytes len b = (if writableBytes b < len then makeSpace len b else b)"

definition buffer_append :: "string \<Rightarrow> Buffer \<Rightarrow> Buffer" where
  "buffer_append xs b =
     (let b' = ensureWritableBytes (length xs) b
      in b'\<lparr>b_data := copy_at (writerIndex b') xs (b_data b'),
            writerIndex := writerIndex b' + length xs\<rparr>)"

text \<open>
  \<open>readFd\<close>. The scatter list \<open>vec\<close> has two entries. \<open>iov_stores\<close> are the lengths that the code stores, with
  their index in \<open>vec\<close>: the second one goes to \<open>vec[2]\<close>, outside the array, on every call, and
  \<open>vec[1].iov_len\<close> keeps what the stack held. \<open>iov_lens\<close> is the effect on the length fields and the word
  beyond them, given what they held before; what else that word may belong to is not modelled. The
  bytes that \<open>readv\<close> delivers fill the writable part first and the 64 KiB \<open>extrabuf\<close> after it; more than
  \<open>extrabuf\<close> holds is a write past its end (None).
\<close>

datatype read_outcome = ReadError int | ReadBytes string

definition extrabuf_size :: nat where "extrabuf_size = 65536"

definition vec_size :: nat where "vec_size = 2"

definition iov_stores :: "Buffer \<Rightarrow> (nat \<times> nat) list" where
  "iov_stores b = [(0, writableBytes b), (2, extrabuf_size)]"

definition iov_lens :: "nat list \<Rightarrow> Buffer \<Rightarrow> nat list" where
  "iov_lens memory b = fold (\<lambda>(i, v) m. m[i := v]) (iov_stores b) memory"

definition readv_limit :: "nat list \<Rightarrow> Buffer \<Rightarrow> nat" where
  "readv_limit memory b =
     (let iovcnt = (if writableBytes b < extrabuf_size then 2 else 1) in sum_list (take iovcnt (iov_lens memory b)))"

definition readFd :: "read_outcome \<Rightarrow> Buffer \<Rightarrow> (int \<times> int \<times> Buffer) option" where
  "readFd outcome b =
     (case outcome of
        ReadError e \<Rightarrow> Some (- 1, e, b)
      | ReadBytes bs \<Rightarrow>
          let writable = writableBytes b; n = length bs in
          if n \<le> writable then
            Some (int n, 0, b\<lparr>b_data := copy_at (writerIndex b) bs (b_data b),
                              writerIndex := writerIndex b + n\<rparr>)
          else if n - writable \<le> extrabuf_size then
            Some (int n, 0,
              buffer_append (drop writable bs)
                (b\<lparr>b_data := copy_at (writerIndex b) (take writable bs) (b_data b),
                   writerIndex := length (b_data b)\<rparr>))
          else None)"

text \<open>
  \<open>writeFd\<close> offers the readable bytes to \<open>write\<close> and leaves the buffer as it is; the result is the
  return value and the saved \<open>errno\<close>.
\<close>

datatype write_outcome = WriteError int | Written nat

definition writeFd :: "(string \<Rightarrow> write_outcome) \<Rightarrow> int \<Rightarrow> Buffer \<Rightarrow> int \<times> int" where
  "writeFd write_call saveErrno b =
     (case write_call (take (readableBytes b) (drop (readerIndex b) (b_data b))) of
        WriteError e \<Rightarrow> (- 1, e)
      | Written n \<Rightarrow> (int n, saveErrno))"

section \<open>The buffer's abstract value\<close>

definition buffer_inv :: "Buffer \<Rightarrow> bool" where
  "buffer_inv b \<longleftrightarrow> kCheapPrepend \<le> readerIndex b \<and> readerIndex b \<le> writerIndex b \<and>
     writerIndex b \<le> length (b_data b)"

definition readable :: "Buffer \<Rightarrow> string" where
  "readable b = take (readableBytes b) (drop (readerIndex b) (b_data b))"

lemmas buffer_defs = buffer_inv_def readable_def readableBytes_def writableBytes_def prependableBytes_def

lemma buffer_inv_new [simp]: "buffer_inv (new_buffer n)" "readable (new_buffer n) = []"
  by (simp_all add: new_buffer_def buffer_defs)

lemma length_readable: "buffer_inv b \<Longrightarrow> length (readable b) = readableBytes b"
  by (auto simp: buffer_defs)

lemma buffer_inv_retrieve: "buffer_inv b \<Longrightarrow> buffer_inv (retrieve n b)"
  by (auto simp: buffer_defs retrieve_def retrieveAll_def)

lemma buffer_inv_retrieveAll: "buffer_inv b \<Longrightarrow> buffer_inv (retrieveAll b)"
  by (auto simp: buffer_defs retrieveAll_def)

lemma readable_retrieveAll [simp]: "readable (retrieveAll b) = []"
  by (simp add: buffer_defs retrieveAll_def)

lemma readable_retrieve: "buffer_inv b \<Longrightarrow> readable (retrieve n b) = drop n (readable b)"
  by (auto simp: buffer_defs retrieve_def retrieveAll_def drop_take add.commute)

lemma retrieveAsString_readable:
  "buffer_inv b \<Longrightarrow> n \<le> readableBytes b \<Longrightarrow>
     retrieveAsString n b = Some (take n (readable b), retrieve n b)"
  by (auto simp: retrieveAsString_def peek_bytes_def buffer_defs)

lemma take_drop_copy_at:
  "i \<le> w \<Longrightarrow> w + length xs \<le> length buf \<Longrightarrow>
     take (w + length xs - i) (drop i (copy_at w xs buf)) = take (w - i) (drop i buf) @ xs"
  by (simp add: copy_at_def drop_take)

lemma copy_in_place:
  assumes "buffer_inv b" and "length xs \<le> writableBytes b"
  defines "b' \<equiv> b\<lparr>b_data := copy_at (writerIndex b) xs (b_data b), writerIndex := writerIndex b + length xs\<rparr>"
  shows "buffer_inv b'" and "readable b' = readable b @ xs"
  using assms take_drop_copy_at [of "readerIndex b" "writerIndex b" xs "b_data b"]
  by (auto simp: buffer_defs b'_def copy_at_def)

lemma ensureWritable:
  assumes "buffer_inv b"
  shows "buffer_inv (ensureWritableBytes len b)"
    and "readable (ensureWritableBytes len b) = readable b"
    and "len \<le> writableBytes (ensureWritableBytes len b)"
proof -
  have "buffer_inv (ensureWritableBytes len b) \<and> readable (ensureWritableBytes len b) = readable b
    \<and> len \<le> writableBytes (ensureWritableBytes len b)"
  proof (cases "writableBytes b < len \<and> \<not> writableBytes b + prependableBytes b < len + kCheapPrepend")
    case True
    then have "ensureWritableBytes len b = makeSpace len b"
      by (simp add: ensureWritableBytes_def)
    with True assms show ?thesis
      by (auto simp: makeSpace_def Let_def buffer_defs copy_at_def)
  next
    case False
    with assms show ?thesis
      by (auto simp: ensureWritableBytes_def makeSpace_def buffer_defs drop_append)
  qed
  then show "buffer_inv (ensureWritableBytes len b)"
    and "readable (ensureWritableBytes len b) = readable b"
    and "len \<le> writableBytes (ensureWritableBytes len b)" by simp_all
qed

lemma buffer_append_correct:
  assumes "buffer_inv b"
  shows "buffer_inv (buffer_append xs b)" and "readable (buffer_append xs b) = readable b @ xs"
  using copy_in_place [OF ensureWritable(1) [OF assms] ensureWritable(3) [OF assms]] ensureWritable(2) [OF assms]
  by (simp_all add: buffer_append_def Let_def)

lemma readFd_correct:
  assumes "buffer_inv b" and "length bs \<le> writableBytes b + extrabuf_size"
  obtains b' where "readFd (ReadBytes bs) b = Some (int (length bs), 0, b')"
    and "buffer_inv b'" and "readable b' = readable b @ bs"
proof (cases "length bs \<le> writableBytes b")
  case True
  with assms(1) that show thesis
    using copy_in_place [OF assms(1) True] by (simp add: readFd_def Let_def)
next
  case False
  let ?w = "writableBytes b"
  let ?b = "b\<lparr>b_data := copy_at (writerIndex b) (take ?w bs) (b_data b), writerIndex := length (b_data b)\<rparr>"
  have "?b = b\<lparr>b_data := copy_at (writerIndex b) (take ?w bs) (b_data b),
      writerIndex := writerIndex b + length (take ?w bs)\<rparr>"
    using False assms(1) by (simp add: buffer_defs)
  with False copy_in_place [OF assms(1), of "take ?w bs"]
  have "buffer_inv ?b" and "readable ?b = readable b @ take ?w bs" by simp_all
  then have "buffer_inv (buffer_append (drop ?w bs) ?b)"
    and "readable (buffer_append (drop ?w bs) ?b) = readable b @ bs"
    using buffer_append_correct [of ?b "drop ?w bs"] by simp_all
  moreover have "length bs - ?w \<le> extrabuf_size" using assms(2) by simp
  ultimately show thesis using False by (intro that) (auto simp: readFd_def Let_def)
qed

lemma writeFd_then_retrieve:
  assumes "buffer_inv b" "write_call (readable b) = Written n" "n \<le> readableBytes b"
  shows "writeFd write_call e b = (int n, e) \<and> take n (readable b) @ readable (retrieve n b) = readable b"
  using assms readable_retrieve [OF assms(1)] by (simp add: writeFd_def readable_def [symmetric])

section \<open>The buffer as an interface\<close>

text \<open>
  What the connection code relies on: a buffer holds a byte string to which \<open>fill\<close> adds what the
  socket delivered (up to \<open>space\<close> bytes), from which \<open>skip\<close> and \<open>grab\<close> take a prefix, and whose
  first bytes \<open>look\<close> shows.
\<close>

locale receive_buffer =
  fixes ok :: "'b \<Rightarrow> bool"
    and bytes :: "'b \<Rightarrow> string"
    and count :: "'b \<Rightarrow> nat"
    and space :: "'b \<Rightarrow> nat"
    and fill :: "string \<Rightarrow> 'b \<Rightarrow> (int \<times> int \<times> 'b) option"
    and look :: "nat \<Rightarrow> 'b \<Rightarrow> string option"
    and skip :: "nat \<Rightarrow> 'b \<Rightarrow> 'b"
    and grab :: "nat \<Rightarrow> 'b \<Rightarrow> (string \<times> 'b) option"
  assumes count_bytes: "ok b \<Longrightarrow> count b = length (bytes b)"
    and fill_bytes: "ok b \<Longrightarrow> length bs \<le> space b \<Longrightarrow>
      \<exists>b'. fill bs b = Some (int (length bs), 0, b') \<and> ok b' \<and> bytes b' = bytes b @ bs"
    and look_bytes: "ok b \<Longrightarrow> n \<le> length (bytes b) \<Longrightarrow> look n b = Some (take n (bytes b))"
    and skip_bytes: "ok b \<Longrightarrow> ok (skip n b) \<and> bytes (skip n b) = drop n (bytes b)"
    and grab_bytes: "ok b \<Longrightarrow> n \<le> length (bytes b) \<Longrightarrow> grab n b = Some (take n (bytes b), skip n b)"
begin

text \<open>A buffer that starts with a whole frame gives its body and keeps what follows.\<close>

lemma frame_ready:
  assumes "ok b" and "bytes b = be32_encode (length body) @ body @ rest" and "length body < 4294967296"
  shows "4 \<le> count b" and "look 4 b = Some (be32_encode (length body))"
    and "be32_decode (be32_encode (length body)) = length body"
    and "4 + length body \<le> count b"
    and "\<exists>b'. grab (length body) (skip 4 b) = Some (body, b') \<and> ok b' \<and> bytes b' = rest"
proof -
  show "4 \<le> count b" "4 + length body \<le> count b" using assms by (simp_all add: count_bytes)
  show "look 4 b = Some (be32_encode (length body))" using assms by (simp add: look_bytes)
  show "be32_decode (be32_encode (length body)) = length body"
    using assms(3) by (rule be32_decode_encode)
  have s: "ok (skip 4 b)" "bytes (skip 4 b) = body @ rest"
    using assms skip_bytes [of b 4] by simp_all
  then show "\<exists>b'. grab (length body) (skip 4 b) = Some (body, b') \<and> ok b' \<and> bytes b' = rest"
    using grab_bytes [of "skip 4 b" "length body"] skip_bytes [of "skip 4 b" "length body"] by simp
qed

text \<open>A proper prefix of a frame is recognised as incomplete.\<close>

lemma frame_incomplete:
  assumes "ok b" and "be32_encode (length body) @ body = bytes b @ missing" and "missing \<noteq> []"
    and "length body < 4294967296" and "4 \<le> count b"
  shows "look 4 b = Some (be32_encode (length body))" and "count b < 4 + length body"
proof -
  have len: "4 + length body = length (bytes b) + length missing"
    using arg_cong [OF assms(2), of length] by simp
  show "count b < 4 + length body" using len assms(1,3) by (simp add: count_bytes)
  have "take 4 (be32_encode (length body) @ body) = take 4 (bytes b @ missing)" using assms(2) by simp
  then have "take 4 (bytes b) = be32_encode (length body)" using assms(1,5) by (simp add: count_bytes)
  then show "look 4 b = Some (be32_encode (length body))"
    using assms(1,5) by (simp add: look_bytes count_bytes)
qed

end

lemma peek_readable:
  assumes "buffer_inv b" and "n \<le> length (readable b)"
  shows "peek_bytes n b = Some (take n (readable b))"
proof -
  have n: "n \<le> readableBytes b" using assms by (simp add: length_readable)
  with assms(1) have "readerIndex b + n \<le> length (b_data b)"
    unfolding buffer_inv_def readableBytes_def by linarith
  with n show ?thesis by (simp add: peek_bytes_def readable_def min.absorb1)
qed

interpretation rb: receive_buffer buffer_inv readable readableBytes
  "\<lambda>b. writableBytes b + extrabuf_size" "\<lambda>bs. readFd (ReadBytes bs)" peek_bytes retrieve retrieveAsString
proof unfold_locales
  fix b :: Buffer and bs :: string
  assume "buffer_inv b" and "length bs \<le> writableBytes b + extrabuf_size"
  then show "\<exists>b'. readFd (ReadBytes bs) b = Some (int (length bs), 0, b') \<and> buffer_inv b' \<and>
      readable b' = readable b @ bs"
    by (rule readFd_correct) blast
qed (simp_all add: length_readable peek_readable buffer_inv_retrieve readable_retrieve
      retrieveAsString_readable)

section \<open>Properties\<close>

text \<open>
  C22. The index arithmetic of the receive buffer implements a byte queue: under its invariant
  appending adds the bytes at the end (growing or compacting the vector as needed), retrieving
  drops a prefix, and both keep the invariant.
\<close>

theorem buffer_refines_byte_queue:
  assumes "buffer_inv b"
  shows "buffer_inv (buffer_append xs b) \<and> readable (buffer_append xs b) = readable b @ xs \<and>
    buffer_inv (retrieve n b) \<and> readable (retrieve n b) = drop n (readable b) \<and>
    (n \<le> readableBytes b \<longrightarrow> retrieveAsString n b = Some (take n (readable b), retrieve n b))"
  using assms
  by (simp add: buffer_append_correct buffer_inv_retrieve readable_retrieve retrieveAsString_readable)

theorem buffer_refines_byte_queue_witness:
  "readable (buffer_append ''judge'' (new_buffer 2)) = ''judge''"
  using buffer_refines_byte_queue [of "new_buffer 2" "''judge''" 0] by simp

text \<open>
  Every call of \<open>readFd\<close> stores outside its scatter list: of the two lengths the second goes one entry
  beyond the array, and the length that \<open>readv\<close> takes for the overflow area is what the stack held.
\<close>

theorem readFd_stores_outside_vec:
  assumes "length memory = 3"
  shows "(\<exists>(i, v) \<in> set (iov_stores b). \<not> i < vec_size) \<and> iov_lens memory b = [writableBytes b, memory ! 1, extrabuf_size]"
proof -
  from assms obtain x y z where "memory = [x, y, z]"
    by (auto simp: numeral_3_eq_3 length_Suc_conv)
  then show ?thesis by (simp add: iov_stores_def iov_lens_def vec_size_def numeral_2_eq_2)
qed

theorem readFd_stores_outside_vec_witness: "iov_lens [7, 9, 5] (new_buffer 1024) = [1024, 9, 65536]"
  using readFd_stores_outside_vec [of "[7, 9, 5]" "new_buffer 1024"]
  by (simp add: new_buffer_def writableBytes_def kCheapPrepend_def extrabuf_size_def)

text \<open>
  \<open>readFd\<close> keeps exactly the bytes the socket delivered as long as they fit the buffer and
  the 64 KiB overflow area; with the second scatter length left indeterminate, as the code leaves
  it, the kernel may deliver more, and then the read writes past the overflow area.
\<close>

theorem readFd_exact_or_overflow:
  assumes "buffer_inv b" and "length memory = 3" and "length bs \<le> readv_limit memory b"
  shows "(length bs \<le> writableBytes b + extrabuf_size \<longrightarrow>
      (\<exists>b'. readFd (ReadBytes bs) b = Some (int (length bs), 0, b') \<and> buffer_inv b' \<and>
            readable b' = readable b @ bs)) \<and>
    (memory ! 1 \<le> extrabuf_size \<longrightarrow> readFd (ReadBytes bs) b \<noteq> None) \<and>
    (writableBytes b + extrabuf_size < length bs \<longrightarrow> readFd (ReadBytes bs) b = None)"
proof -
  from assms(2) obtain x y z where m: "memory = [x, y, z]" by (auto simp: numeral_3_eq_3 length_Suc_conv)
  have fits: "length bs \<le> writableBytes b + extrabuf_size" if "memory ! 1 \<le> extrabuf_size"
    using assms(3) that by (simp add: m readv_limit_def iov_lens_def iov_stores_def Let_def numeral_2_eq_2 split: if_splits)
  have ok: "\<exists>b'. readFd (ReadBytes bs) b = Some (int (length bs), 0, b') \<and> buffer_inv b' \<and>
      readable b' = readable b @ bs" if "length bs \<le> writableBytes b + extrabuf_size"
    using assms(1) that by (rule rb.fill_bytes)
  have "readFd (ReadBytes bs) b = None" if "writableBytes b + extrabuf_size < length bs"
    using that by (simp add: readFd_def Let_def)
  with ok fits show ?thesis by force
qed

theorem readFd_exact_or_overflow_witness:
  "readFd (ReadBytes (replicate 70000 (CHR ''a''))) (new_buffer 1024) = None"
proof -
  have "buffer_inv (new_buffer 1024)" and "length [0, 100000, 0 :: nat] = 3"
    and "length (replicate 70000 (CHR ''a'')) \<le> readv_limit [0, 100000, 0] (new_buffer 1024)"
    by simp_all (simp add: readv_limit_def iov_lens_def iov_stores_def new_buffer_def writableBytes_def kCheapPrepend_def extrabuf_size_def
      numeral_2_eq_2)
  from readFd_exact_or_overflow [OF this] show ?thesis
    by (simp add: new_buffer_def writableBytes_def kCheapPrepend_def extrabuf_size_def)
qed

end
