(* ===== verification/ConnectionSlot.thy ===== *)
theory ConnectionSlot
  imports Buffer
begin

text \<open>
  \<open>src/network/ConnectionSlot.h\<close> and \<open>ConnectionSlot.cpp\<close>: one client connection, its session
  number, its receive buffer, its pending output and its place in the select loop. Every
  method but \<open>read_message\<close> and \<open>send\<close> runs under the slot's mutex and is one atomic step; those
  two run on the select thread. The results of \<open>readv\<close> and \<open>send\<close> are arguments.
\<close>

datatype ConnectionSlotStatus = READABLE | WRITABLE | IDLE

record ConnectionSlot =
  slot_fd :: int
  slot_session_id :: nat
  input_buffer :: Buffer
  slot_status :: ConnectionSlotStatus
  pending_response :: string
  pending_write_offset :: nat

definition new_slot :: ConnectionSlot where
  "new_slot =
     \<lparr>slot_fd = 0, slot_session_id = 0, input_buffer = new_buffer kInitialSize, slot_status = READABLE,
      pending_response = [], pending_write_offset = 0\<rparr>"

definition slot_init :: "int \<Rightarrow> nat \<Rightarrow> ConnectionSlot \<Rightarrow> ConnectionSlot" where
  "slot_init fd session_id sl =
     sl\<lparr>slot_fd := fd, slot_session_id := session_id, slot_status := READABLE,
        input_buffer := retrieveAll (input_buffer sl), pending_response := [], pending_write_offset := 0\<rparr>"

text \<open>\<open>clear\<close> also closes the socket when there is one; the list is the sockets closed.\<close>

definition slot_clear :: "ConnectionSlot \<Rightarrow> int list \<times> ConnectionSlot" where
  "slot_clear sl =
     (if slot_fd sl \<noteq> 0 then [slot_fd sl] else [],
      sl\<lparr>slot_fd := 0, slot_session_id := 0, slot_status := READABLE,
         input_buffer := retrieveAll (input_buffer sl), pending_response := [], pending_write_offset := 0\<rparr>)"

definition is_readable :: "ConnectionSlot \<Rightarrow> bool" where
  "is_readable sl \<longleftrightarrow> slot_status sl = READABLE"

definition is_writable :: "ConnectionSlot \<Rightarrow> bool" where
  "is_writable sl \<longleftrightarrow> slot_status sl = WRITABLE"

definition set_writable :: "ConnectionSlot \<Rightarrow> ConnectionSlot" where
  "set_writable sl = sl\<lparr>slot_status := WRITABLE\<rparr>"

definition set_readable :: "ConnectionSlot \<Rightarrow> ConnectionSlot" where
  "set_readable sl = sl\<lparr>slot_status := READABLE\<rparr>"

definition set_idle :: "ConnectionSlot \<Rightarrow> ConnectionSlot" where
  "set_idle sl = sl\<lparr>slot_status := IDLE\<rparr>"

definition EAGAIN :: int where "EAGAIN = 11"

definition EWOULDBLOCK :: int where "EWOULDBLOCK = 11"

text \<open>
  \<open>read_message\<close> gives the return value, \<open>tot_read\<close>, \<open>message_body\<close> and the new slot; None is a
  read past the end of an array (\<open>readFd\<close>, \<open>retrieveAsString\<close>).
\<close>

definition read_message ::
  "read_outcome \<Rightarrow> ConnectionSlot \<Rightarrow> (bool \<times> int \<times> string \<times> ConnectionSlot) option" where
  "read_message outcome sl =
     (case readFd outcome (input_buffer sl) of
        None \<Rightarrow> None
      | Some (n, saved_errno, buf) \<Rightarrow>
          let sl1 = sl\<lparr>input_buffer := buf\<rparr>; tot_read = n in
          if n < 0 then
            Some (False,
              (if saved_errno \<noteq> EAGAIN \<and> saved_errno \<noteq> EWOULDBLOCK then - 1 else tot_read), [], sl1)
          else if n = 0 then Some (False, tot_read, [], sl1)
          else if readableBytes buf < 4 then Some (False, tot_read, [], sl1)
          else
            case peek_bytes 4 buf of
              None \<Rightarrow> None
            | Some header \<Rightarrow>
                let msg_len_host = be32_decode header in
                if readableBytes buf < 4 + msg_len_host then Some (False, tot_read, [], sl1)
                else
                  case retrieveAsString msg_len_host (retrieve 4 buf) of
                    None \<Rightarrow> None
                  | Some (message_body, buf') \<Rightarrow>
                      Some (True, tot_read, message_body, set_idle (sl1\<lparr>input_buffer := buf'\<rparr>)))"

text \<open>\<open>send\<close>: \<open>sent\<close> is what \<open>::send\<close> returns for the given bytes; nothing is sent for an empty string.\<close>

definition slot_send :: "(string \<Rightarrow> int) \<Rightarrow> string \<Rightarrow> int" where
  "slot_send sent result_data = (if int (length result_data) \<le> 0 then 0 else sent result_data)"

definition frame :: "string \<Rightarrow> string" where
  "frame body = be32_encode (length body mod 4294967296) @ body"

definition queue_response_locked :: "string \<Rightarrow> ConnectionSlot \<Rightarrow> ConnectionSlot" where
  "queue_response_locked response sl =
     sl\<lparr>pending_response := pending_response sl @ be32_encode (length response mod 4294967296) @ response\<rparr>"

definition set_pending_response :: "string \<Rightarrow> ConnectionSlot \<Rightarrow> ConnectionSlot" where
  "set_pending_response response sl = queue_response_locked response sl"

definition set_pending_response_if_session ::
  "nat \<Rightarrow> string \<Rightarrow> ConnectionSlot \<Rightarrow> bool \<times> ConnectionSlot" where
  "set_pending_response_if_session expected_session_id response sl =
     (if slot_session_id sl \<noteq> expected_session_id \<or> slot_fd sl = 0 then (False, sl)
      else (True, (queue_response_locked response sl)\<lparr>slot_status := WRITABLE\<rparr>))"

definition has_pending_response :: "ConnectionSlot \<Rightarrow> bool" where
  "has_pending_response sl \<longleftrightarrow> pending_response sl \<noteq> []"

definition copy_pending_response :: "ConnectionSlot \<Rightarrow> string" where
  "copy_pending_response sl = drop (pending_write_offset sl) (pending_response sl)"

definition consume_pending_response :: "nat \<Rightarrow> ConnectionSlot \<Rightarrow> bool \<times> ConnectionSlot" where
  "consume_pending_response n sl =
     (let offset = pending_write_offset sl + n in
      if offset \<ge> length (pending_response sl)
      then (True, sl\<lparr>pending_response := [], pending_write_offset := 0\<rparr>)
      else (False, sl\<lparr>pending_write_offset := offset\<rparr>))"

section \<open>Invariant\<close>

definition slot_inv :: "ConnectionSlot \<Rightarrow> bool" where
  "slot_inv sl \<longleftrightarrow> buffer_inv (input_buffer sl) \<and> pending_write_offset sl \<le> length (pending_response sl) \<and>
     (pending_response sl \<noteq> [] \<longrightarrow> pending_write_offset sl < length (pending_response sl))"

lemma slot_inv_new: "slot_inv new_slot"
  by (simp add: slot_inv_def new_slot_def)

lemma slot_inv_init: "slot_inv sl \<Longrightarrow> slot_inv (slot_init fd s sl)"
  by (simp add: slot_inv_def slot_init_def buffer_inv_retrieveAll)

lemma slot_inv_clear: "slot_inv sl \<Longrightarrow> slot_inv (snd (slot_clear sl))"
  by (simp add: slot_inv_def slot_clear_def buffer_inv_retrieveAll)

lemma slot_inv_status [simp]: "slot_inv (sl\<lparr>slot_status := x\<rparr>) \<longleftrightarrow> slot_inv sl"
  by (simp add: slot_inv_def)

lemma slot_inv_queue: "slot_inv sl \<Longrightarrow> slot_inv (queue_response_locked r sl)"
  by (auto simp: slot_inv_def queue_response_locked_def be32_encode_def)

lemma slot_inv_consume: "slot_inv sl \<Longrightarrow> slot_inv (snd (consume_pending_response n sl))"
  by (auto simp: slot_inv_def consume_pending_response_def Let_def)

section \<open>Receiving\<close>

text \<open>The bodies that a sequence of socket reads delivers.\<close>

fun read_chunks :: "string list \<Rightarrow> ConnectionSlot \<Rightarrow> (string list \<times> ConnectionSlot) option" where
  "read_chunks [] sl = Some ([], sl)"
| "read_chunks (c # cs) sl =
     (case read_message (ReadBytes c) sl of
        None \<Rightarrow> None
      | Some (has, tot, body, sl') \<Rightarrow>
          map_option (\<lambda>(bodies, sl''). (if has then body # bodies else bodies, sl'')) (read_chunks cs sl'))"

lemma read_message_complete:
  assumes "slot_inv sl" and "c \<noteq> []" and "length c \<le> extrabuf_size"
    and "readable (input_buffer sl) @ c = frame body @ rest" and "length body < 4294967296"
  obtains buf where "read_message (ReadBytes c) sl =
      Some (True, int (length c), body, sl\<lparr>input_buffer := buf, slot_status := IDLE\<rparr>)"
    and "buffer_inv buf" and "readable buf = rest"
proof -
  have "buffer_inv (input_buffer sl)" using assms(1) by (simp add: slot_inv_def)
  with assms(3) obtain b where b: "readFd (ReadBytes c) (input_buffer sl) = Some (int (length c), 0, b)"
    "buffer_inv b" "readable b = readable (input_buffer sl) @ c"
    using rb.fill_bytes [of "input_buffer sl" c] by auto
  then have r: "readable b = be32_encode (length body) @ body @ rest"
    using assms(4,5) by (simp add: frame_def)
  note fr = rb.frame_ready [OF b(2) r assms(5)]
  from fr(5) obtain buf where buf: "retrieveAsString (length body) (retrieve 4 b) = Some (body, buf)"
    "buffer_inv buf" "readable buf = rest" by blast
  show thesis
  proof (rule that [OF _ buf(2,3)])
    show "read_message (ReadBytes c) sl =
        Some (True, int (length c), body, sl\<lparr>input_buffer := buf, slot_status := IDLE\<rparr>)"
      using b(1) fr(1-4) buf(1) assms(2) by (simp add: read_message_def Let_def set_idle_def)
  qed
qed

lemma read_message_incomplete:
  assumes "slot_inv sl" and "c \<noteq> []" and "length c \<le> extrabuf_size"
    and "readable (input_buffer sl) @ c @ missing = frame body" and "missing \<noteq> []"
    and "length body < 4294967296"
  obtains buf where "read_message (ReadBytes c) sl =
      Some (False, int (length c), [], sl\<lparr>input_buffer := buf\<rparr>)"
    and "buffer_inv buf" and "readable buf = readable (input_buffer sl) @ c"
proof -
  have "buffer_inv (input_buffer sl)" using assms(1) by (simp add: slot_inv_def)
  with assms(3) obtain b where b: "readFd (ReadBytes c) (input_buffer sl) = Some (int (length c), 0, b)"
    "buffer_inv b" "readable b = readable (input_buffer sl) @ c"
    using rb.fill_bytes [of "input_buffer sl" c] by auto
  then have r: "be32_encode (length body) @ body = readable b @ missing"
    using assms(4,6) by (simp add: frame_def)
  have "read_message (ReadBytes c) sl = Some (False, int (length c), [], sl\<lparr>input_buffer := b\<rparr>)"
  proof (cases "readableBytes b < 4")
    case True
    with b(1) assms(2) show ?thesis by (simp add: read_message_def Let_def)
  next
    case False
    then have "4 \<le> readableBytes b" by simp
    from rb.frame_incomplete [OF b(2) r assms(5,6) this] False b(1) assms(2,6) show ?thesis
      by (simp add: read_message_def Let_def be32_decode_encode)
  qed
  with b show thesis by (intro that) simp_all
qed

lemma read_chunks_frame:
  assumes "slot_inv sl" and "cs \<noteq> []" and "\<forall>c \<in> set cs. c \<noteq> [] \<and> length c \<le> extrabuf_size"
    and "readable (input_buffer sl) @ concat cs = frame body" and "length body < 4294967296"
  shows "\<exists>buf. read_chunks cs sl = Some ([body], sl\<lparr>input_buffer := buf, slot_status := IDLE\<rparr>) \<and>
    buffer_inv buf \<and> readable buf = []"
  using assms
proof (induction cs arbitrary: sl)
  case Nil
  then show ?case by simp
next
  case (Cons c cs)
  then have c: "c \<noteq> []" "length c \<le> extrabuf_size" by simp_all
  show ?case
  proof (cases "cs = []")
    case True
    with Cons.prems have "readable (input_buffer sl) @ c = frame body @ []" by simp
    from read_message_complete [OF Cons.prems(1) c this Cons.prems(5)] obtain buf where
      "read_message (ReadBytes c) sl =
         Some (True, int (length c), body, sl\<lparr>input_buffer := buf, slot_status := IDLE\<rparr>)"
      "buffer_inv buf" "readable buf = []" by blast
    with True show ?thesis by (intro exI [of _ buf]) simp
  next
    case False
    with Cons.prems(3) have "concat cs \<noteq> []" by (cases cs) auto
    moreover have "readable (input_buffer sl) @ c @ concat cs = frame body" using Cons.prems(4) by simp
    ultimately obtain buf where buf: "read_message (ReadBytes c) sl =
        Some (False, int (length c), [], sl\<lparr>input_buffer := buf\<rparr>)"
      "buffer_inv buf" "readable buf = readable (input_buffer sl) @ c"
      using read_message_incomplete [OF Cons.prems(1) c _ _ Cons.prems(5)] by blast
    have "slot_inv (sl\<lparr>input_buffer := buf\<rparr>)" using Cons.prems(1) buf(2) by (simp add: slot_inv_def)
    from Cons.IH [OF this False] Cons.prems(3,4,5) buf show ?thesis by auto
  qed
qed



text \<open>
  One read event delivers at most one message: when a client pipelines two requests and
  both arrive in one read, the first is delivered and the second stays in the receive buffer,
  where only a later read event of that socket can find it.
\<close>

theorem read_message_pipelined:
  assumes "slot_inv sl" and "readable (input_buffer sl) = []"
    and "length (frame body1 @ frame body2) \<le> extrabuf_size"
  shows "\<exists>sl'. read_message (ReadBytes (frame body1 @ frame body2)) sl =
      Some (True, int (length (frame body1 @ frame body2)), body1, sl') \<and>
    readable (input_buffer sl') = frame body2"
proof -
  have "frame body1 @ frame body2 \<noteq> []" by (simp add: frame_def be32_encode_def)
  moreover have "length body1 < 4294967296" using assms(3) by (simp add: frame_def extrabuf_size_def)
  ultimately obtain buf where "read_message (ReadBytes (frame body1 @ frame body2)) sl =
      Some (True, int (length (frame body1 @ frame body2)), body1,
        sl\<lparr>input_buffer := buf, slot_status := IDLE\<rparr>)" and "readable buf = frame body2"
    using read_message_complete [OF assms(1) _ assms(3), of body1 "frame body2"] assms(2) by auto
  then show ?thesis by auto
qed

theorem read_message_pipelined_witness:
  "\<exists>sl'. read_message (ReadBytes (frame ''a'' @ frame ''b'')) new_slot =
      Some (True, int (length (frame ''a'' @ frame ''b'')), ''a'', sl') \<and>
    readable (input_buffer sl') = frame ''b''"
  by (rule read_message_pipelined)
    (simp_all add: slot_inv_new, simp_all add: new_slot_def frame_def extrabuf_size_def)

text \<open>
  Every failed \<open>readv\<close> reports -1, whatever the error is: the case the code singles out for
  "try again" (\<open>EAGAIN\<close>) is not distinguished from a broken connection.
\<close>

theorem read_message_error_minus_one:
  "read_message (ReadError e) sl = Some (False, - 1, [], sl)"
  by (simp add: read_message_def readFd_def)

section \<open>Sending\<close>

lemma copy_pending_queue:
  "slot_inv sl \<Longrightarrow> copy_pending_response (queue_response_locked r sl) = copy_pending_response sl @ frame r"
  by (simp add: copy_pending_response_def queue_response_locked_def frame_def slot_inv_def)

lemma copy_pending_consume:
  "slot_inv sl \<Longrightarrow> copy_pending_response (snd (consume_pending_response n sl)) = drop n (copy_pending_response sl)"
  by (simp add: copy_pending_response_def consume_pending_response_def Let_def add.commute)

lemma consume_all_iff:
  "slot_inv sl \<Longrightarrow> fst (consume_pending_response n sl) \<longleftrightarrow> length (copy_pending_response sl) \<le> n"
  by (auto simp: copy_pending_response_def consume_pending_response_def Let_def)

text \<open>
  A history of one connection's output: responses queued by any thread, and \<open>send\<close> calls of the
  select thread that wrote a prefix of what \<open>copy_pending_response\<close> returned.
\<close>

datatype output_event = Queued string | Sent nat

fun output_history :: "output_event list \<Rightarrow> string \<times> ConnectionSlot \<Rightarrow> string \<times> ConnectionSlot" where
  "output_history [] h = h"
| "output_history (Queued r # es) (wire, sl) = output_history es (wire, set_pending_response r sl)"
| "output_history (Sent n # es) (wire, sl) =
     output_history es (wire @ take n (copy_pending_response sl), snd (consume_pending_response n sl))"

fun queued_frames :: "output_event list \<Rightarrow> string" where
  "queued_frames [] = []"
| "queued_frames (Queued r # es) = frame r @ queued_frames es"
| "queued_frames (Sent n # es) = queued_frames es"

lemma output_history_stream:
  "slot_inv sl \<Longrightarrow>
     (case output_history es (wire, sl) of (wire', sl') \<Rightarrow>
        slot_inv sl' \<and> wire' @ copy_pending_response sl' = wire @ copy_pending_response sl @ queued_frames es)"
proof (induction es "(wire, sl)" arbitrary: wire sl rule: output_history.induct)
  case (2 r es wire sl)
  then show ?case
    using copy_pending_queue [of sl r] slot_inv_queue [of sl r] by (simp add: set_pending_response_def)
next
  case (3 n es wire sl)
  then show ?case
    using copy_pending_consume [of sl n] slot_inv_consume [of sl n]
    by (simp del: append_assoc add: append_assoc [symmetric]) (simp add: case_prod_unfold)
qed simp

text \<open>
  C21. The output of a connection is a sequence of whole frames in the order they were queued:
  whatever partial writes the socket makes and whenever other threads add responses, what is on
  the wire plus what is still pending is the concatenation of the queued frames.
\<close>

theorem output_is_frame_stream:
  assumes "slot_inv sl" and "pending_response sl = []"
  shows "case output_history es ([], sl) of (wire, sl') \<Rightarrow>
    wire @ copy_pending_response sl' = queued_frames es"
  using output_history_stream [OF assms(1), of "[]" es] assms(2)
  by (auto simp: copy_pending_response_def)

theorem output_is_frame_stream_witness:
  "case output_history [Queued ''ack'', Sent 5, Queued ''done'', Sent 6] ([], new_slot) of (wire, sl') \<Rightarrow>
    wire @ copy_pending_response sl' = queued_frames [Queued ''ack'', Sent 5, Queued ''done'', Sent 6]"
  by (rule output_is_frame_stream) (simp_all add: slot_inv_new, simp add: new_slot_def)

end
