(* ===== verification/ConnectionRegistry.thy ===== *)
theory ConnectionRegistry
  imports ConnectionSlot
begin

text \<open>
  \<open>src/network/ConnectionRegistry.h\<close> and \<open>ConnectionRegistry.cpp\<close>: the fixed table of connection
  slots and the queue of free ones. \<open>slots_.at(id)\<close> throws outside the table; None stands for the
  exception. An \<open>fd_set\<close> is a set of descriptors below \<open>FD_SETSIZE\<close>; \<open>FD_SET\<close> of any other
  descriptor writes outside it, which is None too.
\<close>

record ConnectionRegistry =
  reg_slots :: "ConnectionSlot list"
  free_slot_ids :: "nat list"

definition new_registry :: "nat \<Rightarrow> ConnectionRegistry" where
  "new_registry slot_count = \<lparr>reg_slots = replicate slot_count new_slot, free_slot_ids = [0..<slot_count]\<rparr>"

definition reg_size :: "ConnectionRegistry \<Rightarrow> nat" where
  "reg_size r = length (reg_slots r)"

definition reg_slot :: "nat \<Rightarrow> ConnectionRegistry \<Rightarrow> ConnectionSlot option" where
  "reg_slot i r = (if i < length (reg_slots r) then Some (reg_slots r ! i) else None)"

definition upd_slot :: "nat \<Rightarrow> (ConnectionSlot \<Rightarrow> ConnectionSlot) \<Rightarrow> ConnectionRegistry \<Rightarrow> ConnectionRegistry" where
  "upd_slot i f r = r\<lparr>reg_slots := (reg_slots r)[i := f (reg_slots r ! i)]\<rparr>"

definition init_slot :: "nat \<Rightarrow> int \<Rightarrow> nat \<Rightarrow> ConnectionRegistry \<Rightarrow> ConnectionRegistry option" where
  "init_slot i fd session_id r =
     (case reg_slot i r of None \<Rightarrow> None | Some _ \<Rightarrow> Some (upd_slot i (slot_init fd session_id) r))"

definition acquire_slot :: "int \<Rightarrow> nat \<Rightarrow> ConnectionRegistry \<Rightarrow> (int \<times> ConnectionRegistry) option" where
  "acquire_slot fd session_id r =
     (case free_slot_ids r of
        [] \<Rightarrow> Some (- 1, r)
      | i # rest \<Rightarrow>
          map_option (\<lambda>r'. (int i, r')) (init_slot i fd session_id (r\<lparr>free_slot_ids := rest\<rparr>)))"

definition clear_slot :: "nat \<Rightarrow> ConnectionRegistry \<Rightarrow> (int list \<times> ConnectionRegistry) option" where
  "clear_slot i r =
     (case reg_slot i r of
        None \<Rightarrow> None
      | Some sl \<Rightarrow> Some (fst (slot_clear sl), upd_slot i (\<lambda>s. snd (slot_clear s)) r))"

definition release_slot :: "nat \<Rightarrow> ConnectionRegistry \<Rightarrow> (int list \<times> ConnectionRegistry) option" where
  "release_slot i r =
     (case reg_slot i r of
        None \<Rightarrow> None
      | Some sl \<Rightarrow>
          if slot_fd sl = 0 then Some ([], r)
          else map_option (\<lambda>(closed, r'). (closed, r'\<lparr>free_slot_ids := free_slot_ids r' @ [i]\<rparr>)) (clear_slot i r))"

definition id_to_fd :: "nat \<Rightarrow> ConnectionRegistry \<Rightarrow> int option" where
  "id_to_fd i r = map_option slot_fd (reg_slot i r)"

definition FD_SETSIZE :: int where "FD_SETSIZE = 1024"

definition FD_SET :: "int \<Rightarrow> int set \<Rightarrow> int set option" where
  "FD_SET fd fds = (if 0 \<le> fd \<and> fd < FD_SETSIZE then Some (insert fd fds) else None)"

fun populate_loop ::
  "ConnectionSlot list \<Rightarrow> int set \<Rightarrow> int set \<Rightarrow> int \<Rightarrow> (int set \<times> int set \<times> int) option" where
  "populate_loop [] rd wr max_fd = Some (rd, wr, max_fd)"
| "populate_loop (sl # rest) rd wr max_fd =
     (let fd = slot_fd sl in
      if fd = 0 then populate_loop rest rd wr max_fd
      else
        let max_fd' = (if fd > max_fd then fd else max_fd) in
        if is_readable sl then
          (case FD_SET fd rd of None \<Rightarrow> None | Some rd' \<Rightarrow> populate_loop rest rd' wr max_fd')
        else if is_writable sl then
          (case FD_SET fd wr of None \<Rightarrow> None | Some wr' \<Rightarrow> populate_loop rest rd wr' max_fd')
        else populate_loop rest rd wr max_fd')"

definition populate_socket_sets ::
  "int set \<Rightarrow> int set \<Rightarrow> ConnectionRegistry \<Rightarrow> (int set \<times> int set \<times> int) option" where
  "populate_socket_sets read_sets write_sets r = populate_loop (reg_slots r) read_sets write_sets 0"

section \<open>Invariant\<close>

text \<open>The free queue lists exactly the slots without a socket, each once.\<close>

definition reg_inv :: "ConnectionRegistry \<Rightarrow> bool" where
  "reg_inv r \<longleftrightarrow> distinct (free_slot_ids r) \<and> (\<forall>sl \<in> set (reg_slots r). slot_inv sl) \<and>
     set (free_slot_ids r) = {i. i < length (reg_slots r) \<and> slot_fd (reg_slots r ! i) = 0}"

definition live :: "ConnectionRegistry \<Rightarrow> nat \<Rightarrow> bool" where
  "live r i \<longleftrightarrow> i < length (reg_slots r) \<and> slot_fd (reg_slots r ! i) \<noteq> 0"

lemma reg_inv_new: "reg_inv (new_registry n)"
  by (auto simp: reg_inv_def new_registry_def slot_inv_new) (simp add: new_slot_def)

lemma init_fd [simp]: "slot_fd (slot_init fd s sl) = fd" "slot_session_id (slot_init fd s sl) = s"
  by (simp_all add: slot_init_def)

lemma clear_fd [simp]: "slot_fd (snd (slot_clear sl)) = 0"
  by (simp add: slot_clear_def)

lemma reg_inv_upd:
  assumes "reg_inv r" and "i < length (reg_slots r)" and "slot_inv sl" and "distinct fs"
    and "set fs = (if slot_fd sl = 0 then insert i (set (free_slot_ids r)) else set (free_slot_ids r) - {i})"
  shows "reg_inv (r\<lparr>reg_slots := (reg_slots r)[i := sl], free_slot_ids := fs\<rparr>)"
proof -
  have "slot_inv x" if "x \<in> set ((reg_slots r)[i := sl])" for x
    using that assms(1,3) set_update_subset_insert [of "reg_slots r" i sl] by (auto simp: reg_inv_def)
  moreover have "set fs = {j. j < length (reg_slots r) \<and> slot_fd ((reg_slots r)[i := sl] ! j) = 0}"
    using assms(1,2,5) by (auto simp: reg_inv_def nth_list_update)
  ultimately show ?thesis using assms(4) by (simp add: reg_inv_def)
qed

lemma acquire_cases:
  assumes "reg_inv r" and "fd \<noteq> 0"
  obtains "acquire_slot fd s r = Some (- 1, r)" and "\<forall>i < reg_size r. live r i"
  | i r' where "acquire_slot fd s r = Some (int i, r')" and "reg_inv r'" and "i < reg_size r"
      "\<not> live r i" and "reg_slots r' = (reg_slots r)[i := slot_init fd s (reg_slots r ! i)]"
proof (cases "free_slot_ids r")
  case Nil
  with assms that(1) show thesis by (auto simp: acquire_slot_def reg_inv_def live_def reg_size_def)
next
  case (Cons i rest)
  let ?r = "r\<lparr>reg_slots := (reg_slots r)[i := slot_init fd s (reg_slots r ! i)], free_slot_ids := rest\<rparr>"
  from assms(1) Cons have "i \<in> {i. i < length (reg_slots r) \<and> slot_fd (reg_slots r ! i) = 0}"
    and i': "i \<notin> set rest" "distinct rest" unfolding reg_inv_def by (force, simp_all)
  then have i: "i < length (reg_slots r)" "slot_fd (reg_slots r ! i) = 0" by simp_all
  have "slot_inv (slot_init fd s (reg_slots r ! i))"
    using assms(1) i(1) by (simp add: reg_inv_def slot_inv_init)
  with assms i i' Cons have "reg_inv ?r"
    using reg_inv_upd [OF assms(1) i(1), of "slot_init fd s (reg_slots r ! i)" rest] by auto
  moreover have "acquire_slot fd s r = Some (int i, ?r)"
    using Cons i by (simp add: acquire_slot_def init_slot_def reg_slot_def upd_slot_def)
  ultimately show thesis using i by (intro that(2) [of i ?r]) (simp_all add: reg_size_def live_def)
qed

lemma release_cases:
  assumes "reg_inv r" and "i < reg_size r"
  obtains "release_slot i r = Some ([], r)" and "\<not> live r i"
  | r' where "release_slot i r = Some ([slot_fd (reg_slots r ! i)], r')" and "reg_inv r'" and "live r i"
      and "reg_slots r' = (reg_slots r)[i := snd (slot_clear (reg_slots r ! i))]"
proof (cases "slot_fd (reg_slots r ! i) = 0")
  case True
  with assms that(1) show thesis by (simp add: release_slot_def reg_slot_def live_def reg_size_def)
next
  case False
  let ?r = "r\<lparr>reg_slots := (reg_slots r)[i := snd (slot_clear (reg_slots r ! i))],
    free_slot_ids := free_slot_ids r @ [i]\<rparr>"
  have i: "i < length (reg_slots r)" using assms(2) by (simp add: reg_size_def)
  have "i \<notin> set (free_slot_ids r)" using assms(1) False by (auto simp: reg_inv_def)
  moreover have "slot_inv (snd (slot_clear (reg_slots r ! i)))" "distinct (free_slot_ids r)"
    using assms(1) i by (simp_all add: reg_inv_def slot_inv_clear)
  ultimately have "reg_inv ?r"
    using reg_inv_upd [OF assms(1) i, of "snd (slot_clear (reg_slots r ! i))" "free_slot_ids r @ [i]"] by auto
  moreover have "release_slot i r = Some ([slot_fd (reg_slots r ! i)], ?r)"
    using False i by (simp add: release_slot_def clear_slot_def reg_slot_def upd_slot_def slot_clear_def)
  ultimately show thesis using False i by (intro that(2) [of ?r]) (simp_all add: live_def)
qed

section \<open>The registry as a slot allocator\<close>

text \<open>What the connection manager relies on: a slot is handed to one connection at a time.\<close>

locale slot_allocator =
  fixes ok :: "'r \<Rightarrow> bool"
    and capacity :: "'r \<Rightarrow> nat"
    and busy :: "'r \<Rightarrow> nat \<Rightarrow> bool"
    and acquire :: "int \<Rightarrow> nat \<Rightarrow> 'r \<Rightarrow> (int \<times> 'r) option"
    and free :: "nat \<Rightarrow> 'r \<Rightarrow> ('c \<times> 'r) option"
  assumes busy_capacity: "busy r i \<Longrightarrow> i < capacity r"
    and acquire_full: "ok r \<Longrightarrow> fd \<noteq> 0 \<Longrightarrow> \<forall>i < capacity r. busy r i \<Longrightarrow> acquire fd s r = Some (- 1, r)"
    and acquire_fresh: "ok r \<Longrightarrow> fd \<noteq> 0 \<Longrightarrow> \<not> busy r j \<Longrightarrow> j < capacity r \<Longrightarrow>
      \<exists>i r'. acquire fd s r = Some (int i, r') \<and> ok r' \<and> capacity r' = capacity r \<and> \<not> busy r i \<and>
        busy r' = (busy r)(i := True)"
    and free_busy: "ok r \<Longrightarrow> i < capacity r \<Longrightarrow>
      \<exists>x r'. free i r = Some (x, r') \<and> ok r' \<and> capacity r' = capacity r \<and> busy r' = (busy r)(i := False)"
begin

lemma acquire_total:
  assumes "ok r" and "fd \<noteq> 0"
  obtains "acquire fd s r = Some (- 1, r)"
  | i r' where "acquire fd s r = Some (int i, r')" and "ok r'" and "capacity r' = capacity r"
      and "\<not> busy r i" and "busy r' = (busy r)(i := True)"
proof (cases "\<forall>i < capacity r. busy r i")
  case True
  with assms that(1) show thesis by (auto dest: acquire_full)
next
  case False
  then obtain j where "j < capacity r" "\<not> busy r j" by blast
  with acquire_fresh [OF assms] that(2) show thesis by blast
qed

text \<open>A freed slot can be acquired again.\<close>

lemma free_then_acquire:
  assumes "ok r" and "i < capacity r" and "fd \<noteq> 0"
  shows "\<exists>x r' j r''. free i r = Some (x, r') \<and> acquire fd s r' = Some (int j, r'') \<and> ok r''"
proof -
  obtain x r' where f: "free i r = Some (x, r')" "ok r'" "capacity r' = capacity r"
    "busy r' = (busy r)(i := False)" using free_busy [OF assms(1,2)] by blast
  then have "\<not> busy r' i" "i < capacity r'" using assms(2) by simp_all
  with acquire_fresh [OF f(2) assms(3)] f(1) show ?thesis by blast
qed

end

lemma live_init: "i < reg_size r \<Longrightarrow> fd \<noteq> 0 \<Longrightarrow>
    reg_slots r' = (reg_slots r)[i := slot_init fd s (reg_slots r ! i)] \<Longrightarrow> live r' = (live r)(i := True)"
  by (auto simp: live_def reg_size_def fun_eq_iff nth_list_update)

lemma live_clear: "i < reg_size r \<Longrightarrow>
    reg_slots r' = (reg_slots r)[i := snd (slot_clear (reg_slots r ! i))] \<Longrightarrow> live r' = (live r)(i := False)"
  by (auto simp: live_def reg_size_def fun_eq_iff nth_list_update)

interpretation ra: slot_allocator reg_inv reg_size live acquire_slot release_slot
proof unfold_locales
  fix r :: ConnectionRegistry and fd :: int and s j :: nat
  assume inv: "reg_inv r" and nz: "fd \<noteq> 0" and j: "\<not> live r j" "j < reg_size r"
  show "\<exists>i r'. acquire_slot fd s r = Some (int i, r') \<and> reg_inv r' \<and>
      reg_size r' = reg_size r \<and> \<not> live r i \<and> live r' = (live r)(i := True)"
    using j by (cases rule: acquire_cases [OF inv nz, of s]) (auto simp: live_init [OF _ nz], simp add: reg_size_def)
next
  fix r :: ConnectionRegistry and fd :: int and s :: nat
  assume inv: "reg_inv r" and nz: "fd \<noteq> 0" and full: "\<forall>i < reg_size r. live r i"
  show "acquire_slot fd s r = Some (- 1, r)"
    using full by (cases rule: acquire_cases [OF inv nz, of s]) auto
next
  fix r :: ConnectionRegistry and i :: nat
  assume inv: "reg_inv r" and i: "i < reg_size r"
  show "\<exists>x r'. release_slot i r = Some (x, r') \<and> reg_inv r' \<and> reg_size r' = reg_size r \<and>
      live r' = (live r)(i := False)"
  proof (cases rule: release_cases [OF inv i])
    case 1
    then have "live r = (live r)(i := False)" by (auto simp: fun_eq_iff)
    with 1 inv show ?thesis by simp
  next
    case (2 r')
    with i show ?thesis by (simp add: live_clear) (simp add: reg_size_def)
  qed
qed (simp add: live_def reg_size_def)

text \<open>
  Slots are neither leaked nor shared: with the registry's invariant, accepting a socket
  either takes a slot no live connection uses and makes exactly that slot live with the new
  session, or reports -1 with every slot in use; releasing a slot closes its socket and frees
  exactly that slot; both keep the invariant.
\<close>

theorem registry_slots_exclusive:
  assumes "reg_inv r" and "fd \<noteq> 0"
  shows "((acquire_slot fd s r = Some (- 1, r) \<and> (\<forall>i < reg_size r. live r i)) \<or>
     (\<exists>i r'. acquire_slot fd s r = Some (int i, r') \<and> reg_inv r' \<and> \<not> live r i \<and>
        live r' = (live r)(i := True) \<and> slot_session_id (reg_slots r' ! i) = s)) \<and>
    (\<forall>j < reg_size r. live r j \<longrightarrow>
      (\<exists>r'. release_slot j r = Some ([slot_fd (reg_slots r ! j)], r') \<and> reg_inv r' \<and>
        live r' = (live r)(j := False)))"
proof (intro conjI allI impI)
  show "(acquire_slot fd s r = Some (- 1, r) \<and> (\<forall>i < reg_size r. live r i)) \<or>
    (\<exists>i r'. acquire_slot fd s r = Some (int i, r') \<and> reg_inv r' \<and> \<not> live r i \<and>
       live r' = (live r)(i := True) \<and> slot_session_id (reg_slots r' ! i) = s)"
    by (cases rule: acquire_cases [OF assms, of s]) (auto simp: live_init [OF _ assms(2)] reg_size_def)
next
  fix j
  assume j: "j < reg_size r" "live r j"
  show "\<exists>r'. release_slot j r = Some ([slot_fd (reg_slots r ! j)], r') \<and> reg_inv r' \<and>
      live r' = (live r)(j := False)"
    using j by (cases rule: release_cases [OF assms(1) j(1)]) (auto simp: live_clear)
qed

theorem registry_slots_exclusive_witness:
  "\<exists>i r'. acquire_slot 5 9 (new_registry 1) = Some (int i, r') \<and> slot_session_id (reg_slots r' ! i) = 9"
proof -
  have "\<not> (\<forall>i < reg_size (new_registry 1). live (new_registry 1) i)"
    by (simp add: reg_size_def live_def new_registry_def new_slot_def)
  with registry_slots_exclusive [OF reg_inv_new, of 5 9 1] show ?thesis by auto
qed

end
