(* ===== verification/ReplyChannel.thy ===== *)
theory ReplyChannel
  imports Prelude
begin

text \<open>
  \<open>src/network/ReplyChannel.h\<close> and \<open>ReplyChannel.cpp\<close>: the text form \<open>slot:session\<close> under which
  a task remembers the connection its result belongs to.
\<close>

record ReplyChannel =
  rc_slot_id :: int
  rc_session_id :: nat

definition rc_to_string :: "ReplyChannel \<Rightarrow> string" where
  "rc_to_string ch = int_to_string (rc_slot_id ch) @ '':'' @ nat_to_string (rc_session_id ch)"

text \<open>\<open>std::string::find\<close> of a character from a position.\<close>

definition find_char :: "char \<Rightarrow> nat \<Rightarrow> string \<Rightarrow> nat option" where
  "find_char ch from s =
     (let i = from + length (takeWhile (\<lambda>x. x \<noteq> ch) (drop from s)) in if i < length s then Some i else None)"

definition rc_parse :: "string \<Rightarrow> ReplyChannel option" where
  "rc_parse value =
     (case find_char (CHR '':'') 0 value of
        None \<Rightarrow> None
      | Some separator \<Rightarrow>
          if separator = 0 \<or> separator + 1 \<ge> length value \<or>
             find_char (CHR '':'') (separator + 1) value \<noteq> None then None
          else
            case (stoi (take separator value), stoull (drop (separator + 1) value)) of
              (Some (slot_id, slot_pos), Some (session_id, session_pos)) \<Rightarrow>
                if slot_pos \<noteq> separator \<or> session_pos \<noteq> length value - separator - 1 \<or>
                   slot_id < 0 \<or> session_id = 0 then None
                else Some \<lparr>rc_slot_id = slot_id, rc_session_id = session_id\<rparr>
            | _ \<Rightarrow> None)"

definition valid_channel :: "ReplyChannel \<Rightarrow> bool" where
  "valid_channel ch \<longleftrightarrow> 0 \<le> rc_slot_id ch \<and> rc_slot_id ch \<le> 2147483647 \<and>
     0 < rc_session_id ch \<and> rc_session_id ch < 18446744073709551616"

lemma nat_to_string_no_colon: "CHR '':'' \<notin> set (nat_to_string n)"
  using nat_to_string_digits [of n] digit_not_space_sign by auto

lemma find_char_first:
  assumes "ch \<notin> set xs"
  shows "find_char ch 0 (xs @ ch # ys) = Some (length xs)"
proof -
  have "takeWhile (\<lambda>x. x \<noteq> ch) (xs @ ch # ys) = xs"
    using assms by (subst takeWhile_append2) auto
  then show ?thesis by (simp add: find_char_def)
qed

lemma find_char_none:
  assumes "ch \<notin> set ys"
  shows "find_char ch (Suc (length xs)) (xs @ ch # ys) = None"
proof -
  have "takeWhile (\<lambda>x. x \<noteq> ch) ys = ys" using assms by (auto simp: takeWhile_eq_all_conv)
  then show ?thesis by (simp add: find_char_def del: takeWhile_eq_all_conv)
qed

lemma rc_parse_to_string:
  assumes "valid_channel ch"
  shows "rc_parse (rc_to_string ch) = Some ch"
proof -
  let ?a = "nat_to_string (nat (rc_slot_id ch))" and ?b = "nat_to_string (rc_session_id ch)"
  have s: "rc_to_string ch = ?a @ CHR '':'' # ?b"
    using assms by (simp add: rc_to_string_def int_to_string_def valid_channel_def)
  have "stoi ?a = Some (rc_slot_id ch, length ?a)" "stoull ?b = Some (rc_session_id ch, length ?b)"
    using assms by (auto simp: stoi_def stoull_def valid_channel_def)
  moreover have "find_char (CHR '':'') 0 (rc_to_string ch) = Some (length ?a)"
    "find_char (CHR '':'') (Suc (length ?a)) (rc_to_string ch) = None"
    using find_char_first [OF nat_to_string_no_colon] find_char_none [OF nat_to_string_no_colon]
    by (simp_all add: s)
  ultimately show ?thesis
    using assms by (simp add: rc_parse_def s valid_channel_def)
qed

text \<open>
  Reply channels survive the trip through their text form: parsing the text of a channel
  with a non-negative slot and a non-zero session gives the channel back, and whatever parses
  has a non-negative slot and a non-zero session of the declared widths.
\<close>

theorem rc_roundtrip:
  "(valid_channel ch \<longrightarrow> rc_parse (rc_to_string ch) = Some ch) \<and>
   (rc_parse value = Some ch' \<longrightarrow> valid_channel ch')"
proof -
  have "rc_session_id ch' < 18446744073709551616" if "rc_parse value = Some ch'"
    using that by (auto simp: rc_parse_def stoull_def Let_def split: option.splits if_splits prod.splits)
  then have "rc_parse value = Some ch' \<longrightarrow> valid_channel ch'"
    by (auto simp: rc_parse_def stoi_def valid_channel_def Let_def split: option.splits if_splits prod.splits)
  with rc_parse_to_string show ?thesis by blast
qed

theorem rc_roundtrip_witness:
  "rc_parse (rc_to_string \<lparr>rc_slot_id = 3, rc_session_id = 42\<rparr>) = Some \<lparr>rc_slot_id = 3, rc_session_id = 42\<rparr>"
  using rc_roundtrip [of "\<lparr>rc_slot_id = 3, rc_session_id = 42\<rparr>"] by (simp add: valid_channel_def)

end
