(* ===== verification/AckBarrier.thy ===== *)
theory AckBarrier
  imports Prelude
begin

text \<open>
  \<open>src/network/AckBarrier.h\<close> and \<open>AckBarrier.cpp\<close>: while a connection waits for its
  \<open>submission_ack\<close>, asynchronous messages for it are held back. The three operations run under
  the barrier's mutex.
\<close>

record AckBarrier =
  awaiting :: "string list"
  deferred :: "(string \<times> string list) list"

definition new_barrier :: AckBarrier where
  "new_barrier = \<lparr>awaiting = [], deferred = []\<rparr>"

definition mark_waiting :: "string \<Rightarrow> AckBarrier \<Rightarrow> AckBarrier" where
  "mark_waiting ch ab = ab\<lparr>awaiting := List.insert ch (awaiting ab)\<rparr>"

definition release :: "string \<Rightarrow> AckBarrier \<Rightarrow> string list \<times> AckBarrier" where
  "release ch ab =
     (let ab' = ab\<lparr>awaiting := removeAll ch (awaiting ab)\<rparr> in
      case map_of (deferred ab') ch of
        None \<Rightarrow> ([], ab')
      | Some msgs \<Rightarrow> (msgs, ab'\<lparr>deferred := AList.delete ch (deferred ab')\<rparr>))"

definition try_defer :: "string \<Rightarrow> string \<Rightarrow> AckBarrier \<Rightarrow> bool \<times> AckBarrier" where
  "try_defer ch response ab =
     (if ch \<notin> set (awaiting ab) then (False, ab)
      else (True, ab\<lparr>deferred :=
        AList.update ch ((case map_of (deferred ab) ch of None \<Rightarrow> [] | Some ms \<Rightarrow> ms) @ [response])
          (deferred ab)\<rparr>))"

section \<open>Behaviour\<close>

definition held :: "string \<Rightarrow> AckBarrier \<Rightarrow> string list" where
  "held ch ab = (case map_of (deferred ab) ch of None \<Rightarrow> [] | Some ms \<Rightarrow> ms)"

lemma try_defer_held:
  "held ch' (snd (try_defer ch r ab)) =
     (if ch' = ch \<and> ch \<in> set (awaiting ab) then held ch ab @ [r] else held ch' ab)"
  by (auto simp: try_defer_def held_def update_conv)

lemma try_defer_iff [simp]: "fst (try_defer ch r ab) \<longleftrightarrow> ch \<in> set (awaiting ab)"
  by (simp add: try_defer_def)

lemma try_defer_awaiting [simp]: "awaiting (snd (try_defer ch r ab)) = awaiting ab"
  by (simp add: try_defer_def)

lemma release_held:
  "fst (release ch ab) = held ch ab"
  "held ch' (snd (release ch ab)) = (if ch' = ch then [] else held ch' ab)"
  "set (awaiting (snd (release ch ab))) = set (awaiting ab) - {ch}"
  by (auto simp: release_def held_def Let_def delete_conv split: option.splits)

lemma mark_held [simp]: "held ch (mark_waiting ch' ab) = held ch ab"
  by (simp add: held_def mark_waiting_def)

lemma mark_awaiting [simp]: "set (awaiting (mark_waiting ch ab)) = insert ch (set (awaiting ab))"
  by (simp add: mark_waiting_def)

lemma defer_all_held:
  "ch \<in> set (awaiting ab) \<Longrightarrow>
     held ch (fold (\<lambda>(c, r) b. snd (try_defer c r b)) msgs ab) =
       held ch ab @ map snd (filter (\<lambda>(c, r). c = ch) msgs) \<and>
     awaiting (fold (\<lambda>(c, r) b. snd (try_defer c r b)) msgs ab) = awaiting ab"
  by (induction msgs arbitrary: ab) (auto simp: try_defer_held)

text \<open>
  Between \<open>mark_waiting\<close> and \<open>release\<close> no message for the channel passes the barrier and none
  is lost: every offered message for the waiting channel is held, in order, while other channels'
  messages go through unless they wait too, and \<open>release\<close> returns exactly the held messages.
\<close>

theorem barrier_defers_in_order:
  assumes "held ch ab = []"
  shows "(\<forall>r msgs. fst (try_defer ch r (fold (\<lambda>(c, r) b. snd (try_defer c r b)) msgs (mark_waiting ch ab)))) \<and>
    fst (release ch (fold (\<lambda>(c, r) b. snd (try_defer c r b)) msgs (mark_waiting ch ab))) =
      map snd (filter (\<lambda>(c, r). c = ch) msgs)"
  using defer_all_held [of ch "mark_waiting ch ab"] assms by (simp add: release_held)

theorem barrier_defers_in_order_witness:
  "fst (release ''0:1'' (fold (\<lambda>(c, r) b. snd (try_defer c r b)) [(''0:1'', ''update''), (''0:1'', ''finished'')]
     (mark_waiting ''0:1'' new_barrier))) = [''update'', ''finished'']"
  using barrier_defers_in_order [of "''0:1''" new_barrier "[(''0:1'', ''update''), (''0:1'', ''finished'')]"]
  by (simp add: held_def new_barrier_def)

end
