(* ===== verification/JsonDump.thy ===== *)
theory JsonDump
  imports Json
begin

text \<open>
  The serializer of \<open>src/json.hpp\<close> as the server calls it (\<open>dump()\<close>: no indentation, no ASCII
  escaping, strict error handling): strings are checked with the table-driven UTF-8 decoder and
  an invalid byte throws (None). \<open>dump_float\<close> is a parameter: the protocol writes no floating
  point numbers.
\<close>

section \<open>The UTF-8 automaton\<close>

definition utf8d :: "nat list" where
  "utf8d =
     replicate 128 0 @ replicate 16 1 @ replicate 16 9 @ replicate 32 7 @ [8, 8] @ replicate 30 2 @
     [10, 3, 3, 3, 3, 3, 3, 3, 3, 3, 3, 3, 3, 4, 3, 3] @
     [11, 6, 6, 6, 5, 8, 8, 8, 8, 8, 8, 8, 8, 8, 8, 8] @
     [0, 1, 2, 3, 5, 8, 7, 1, 1, 1, 4, 6, 1, 1, 1, 1] @
     [1, 1, 1, 1, 1, 1, 1, 1, 1, 1, 1, 1, 1, 1, 1, 1, 1, 0, 1, 1, 1, 1, 1, 0, 1, 0, 1, 1, 1, 1, 1, 1] @
     [1, 2, 1, 1, 1, 1, 1, 2, 1, 2, 1, 1, 1, 1, 1, 1, 1, 1, 1, 1, 1, 1, 1, 2, 1, 1, 1, 1, 1, 1, 1, 1] @
     [1, 2, 1, 1, 1, 1, 1, 1, 1, 2, 1, 1, 1, 1, 1, 1, 1, 1, 1, 1, 1, 1, 1, 3, 1, 3, 1, 1, 1, 1, 1, 1] @
     [1, 3, 1, 1, 1, 1, 1, 3, 1, 3, 1, 1, 1, 1, 1, 1, 1, 3, 1, 1, 1, 1, 1, 1, 1, 1, 1, 1, 1, 1, 1, 1]"

definition UTF8_ACCEPT :: nat where "UTF8_ACCEPT = 0"

definition UTF8_REJECT :: nat where "UTF8_REJECT = 1"

definition utf8_decode :: "nat \<Rightarrow> nat \<Rightarrow> nat \<Rightarrow> nat \<times> nat" where
  "utf8_decode state codep byte =
     (let type = utf8d ! byte;
          codep' = (if state \<noteq> UTF8_ACCEPT then or (and byte 63) (push_bit 6 codep)
                    else and (drop_bit type 255) byte)
      in (utf8d ! (256 + state * 16 + type), codep'))"

section \<open>Strings\<close>

definition hex_digit :: "nat \<Rightarrow> char" where
  "hex_digit d = (if d < 10 then char_of (48 + d) else char_of (87 + d))"

text \<open>What an accepted code point adds to the output; \<open>ch\<close> is its last byte.\<close>

definition escape_code_point :: "nat \<Rightarrow> char \<Rightarrow> string" where
  "escape_code_point codepoint ch =
     (if codepoint = 8 then [CHR 0x5C, CHR ''b'']
      else if codepoint = 9 then [CHR 0x5C, CHR ''t'']
      else if codepoint = 10 then [CHR 0x5C, CHR ''n'']
      else if codepoint = 12 then [CHR 0x5C, CHR ''f'']
      else if codepoint = 13 then [CHR 0x5C, CHR ''r'']
      else if codepoint = 34 then [CHR 0x5C, CHR 0x22]
      else if codepoint = 92 then [CHR 0x5C, CHR 0x5C]
      else if codepoint \<le> 31 then
        [CHR 0x5C, CHR ''u'', CHR ''0'', CHR ''0'', hex_digit (codepoint div 16), hex_digit (codepoint mod 16)]
      else [ch])"

fun dump_escaped :: "nat \<Rightarrow> nat \<Rightarrow> string \<Rightarrow> string option" where
  "dump_escaped state codep [] = (if state = UTF8_ACCEPT then Some [] else None)"
| "dump_escaped state codep (ch # rest) =
     (case utf8_decode state codep (of_char ch) of
        (state', codep') \<Rightarrow>
          if state' = UTF8_ACCEPT then
            map_option (\<lambda>out. escape_code_point codep' ch @ out) (dump_escaped state' codep' rest)
          else if state' = UTF8_REJECT then None
          else map_option (\<lambda>out. ch # out) (dump_escaped state' codep' rest))"

definition dump_string :: "string \<Rightarrow> string option" where
  "dump_string s = map_option (\<lambda>out. CHR 0x22 # out @ [CHR 0x22]) (dump_escaped UTF8_ACCEPT 0 s)"

section \<open>Values\<close>

fun join_comma :: "string list \<Rightarrow> string" where
  "join_comma [] = []"
| "join_comma [s] = s"
| "join_comma (s # ss) = s @ '','' @ join_comma ss"

fun all_some :: "'a option list \<Rightarrow> 'a list option" where
  "all_some [] = Some []"
| "all_some (None # xs) = None"
| "all_some (Some x # xs) = map_option ((#) x) (all_some xs)"

definition dump_member :: "string \<Rightarrow> string option \<Rightarrow> string option" where
  "dump_member k v =
     (case dump_string k of None \<Rightarrow> None | Some k' \<Rightarrow> map_option (\<lambda>v'. k' @ '':'' @ v') v)"

fun json_dump :: "(rat \<Rightarrow> string) \<Rightarrow> json \<Rightarrow> string option" where
  "json_dump dump_float JNull = Some ''null''"
| "json_dump dump_float (JBoolean b) = Some (if b then ''true'' else ''false'')"
| "json_dump dump_float (JInteger i) = Some (int_to_string i)"
| "json_dump dump_float (JUnsigned n) = Some (nat_to_string n)"
| "json_dump dump_float (JFloat q) = Some (dump_float q)"
| "json_dump dump_float (JString s) = dump_string s"
| "json_dump dump_float (JArray vs) =
     map_option (\<lambda>ss. ''['' @ join_comma ss @ '']'') (all_some (map (json_dump dump_float) vs))"
| "json_dump dump_float (JObject ms) =
     map_option (\<lambda>ss. ''{'' @ join_comma ss @ ''}'')
       (all_some (map (\<lambda>(k, v). dump_member k (json_dump dump_float v)) ms))"

section \<open>When serialization succeeds\<close>

definition ascii :: "string \<Rightarrow> bool" where
  "ascii s \<longleftrightarrow> list_all (\<lambda>ch. (of_char ch :: nat) < 128) s"

lemma utf8d_ascii: "n < 128 \<Longrightarrow> utf8d ! n = 0"
  by (simp add: utf8d_def nth_append)

lemma utf8d_start: "utf8d ! 256 = 0"
  by code_simp

lemma utf8_decode_ascii: "n < 128 \<Longrightarrow> fst (utf8_decode UTF8_ACCEPT cp n) = UTF8_ACCEPT"
  by (simp add: utf8_decode_def utf8d_ascii utf8d_start UTF8_ACCEPT_def)

lemma dump_escaped_ascii: "ascii s \<Longrightarrow> \<exists>out. dump_escaped UTF8_ACCEPT cp s = Some out"
proof (induction s arbitrary: cp)
  case Nil
  then show ?case by simp
next
  case (Cons ch s)
  then have "fst (utf8_decode UTF8_ACCEPT cp (of_char ch)) = UTF8_ACCEPT" and "ascii s"
    by (simp_all add: ascii_def utf8_decode_ascii)
  with Cons.IH show ?case by (fastforce simp: case_prod_unfold)
qed

lemma dump_string_ascii: "ascii s \<Longrightarrow> \<exists>out. dump_string s = Some out"
  using dump_escaped_ascii [of s 0] by (auto simp: dump_string_def)

text \<open>Every string of a document, keys included, has the property.\<close>

fun json_strings :: "(string \<Rightarrow> bool) \<Rightarrow> json \<Rightarrow> bool" where
  "json_strings P (JString s) = P s"
| "json_strings P (JArray vs) = list_all (json_strings P) vs"
| "json_strings P (JObject ms) = list_all (\<lambda>(k, v). P k \<and> json_strings P v) ms"
| "json_strings P _ = True"

abbreviation json_ascii :: "json \<Rightarrow> bool" where
  "json_ascii \<equiv> json_strings ascii"

lemma all_some_iff: "(\<exists>ys. all_some xs = Some ys) \<longleftrightarrow> (\<forall>x \<in> set xs. x \<noteq> None)"
  by (induction xs rule: all_some.induct) auto

lemma json_dump_strings:
  assumes dumps: "\<And>s. P s \<Longrightarrow> \<exists>out. dump_string s = Some out"
  shows "json_strings P j \<Longrightarrow> \<exists>out. json_dump df j = Some out"
proof (induction df j rule: json_dump.induct)
  case (7 df vs)
  then have "\<forall>x \<in> set (map (json_dump df) vs). x \<noteq> None"
    by (fastforce simp: list_all_iff)
  then obtain ys where "all_some (map (json_dump df) vs) = Some ys"
    using all_some_iff by blast
  then show ?case by simp
next
  case (8 df ms)
  have "dump_member k (json_dump df v) \<noteq> None" if kv: "(k, v) \<in> set ms" for k v
  proof -
    from "8.prems" kv have "P k" and v: "json_strings P v" by (auto simp: list_all_iff)
    moreover from "8.IH" [OF kv refl] v obtain out where "json_dump df v = Some out" by blast
    ultimately show ?thesis using dumps [of k] by (auto simp: dump_member_def)
  qed
  then have "\<forall>x \<in> set (map (\<lambda>(k, v). dump_member k (json_dump df v)) ms). x \<noteq> None" by auto
  then obtain ys where "all_some (map (\<lambda>(k, v). dump_member k (json_dump df v)) ms) = Some ys"
    using all_some_iff by blast
  then show ?case by simp
qed (simp_all add: dumps)

lemma json_dump_strings_only:
  assumes only: "\<And>s out. dump_string s = Some out \<Longrightarrow> P s"
  shows "\<exists>out. json_dump df j = Some out \<Longrightarrow> json_strings P j"
proof (induction df j rule: json_dump.induct)
  case (7 df vs)
  then have "\<forall>x \<in> set (map (json_dump df) vs). x \<noteq> None" using all_some_iff [of "map (json_dump df) vs"] by (auto split: option.splits)
  with 7 show ?case by (auto simp: list_all_iff)
next
  case (8 df ms)
  then have dumped: "\<forall>x \<in> set (map (\<lambda>(k, v). dump_member k (json_dump df v)) ms). x \<noteq> None"
    using all_some_iff [of "map (\<lambda>(k, v). dump_member k (json_dump df v)) ms"] by (auto split: option.splits)
  have "P k \<and> json_strings P v" if kv: "(k, v) \<in> set ms" for k v
  proof -
    from dumped kv have "dump_member k (json_dump df v) \<noteq> None" by fastforce
    then show ?thesis using 8 kv only [of k] by (auto simp: dump_member_def split: option.splits)
  qed
  then show ?case by (auto simp: list_all_iff)
qed (auto dest: only)

lemma json_dump_ascii: "json_ascii j \<Longrightarrow> \<exists>out. json_dump df j = Some out"
  using json_dump_strings [of ascii, OF dump_string_ascii] .

text \<open>A byte that no UTF-8 sequence starts with makes the serializer throw.\<close>

lemma dump_string_reject:
  assumes "ascii s" and "utf8d ! (256 + utf8d ! of_char ch) = UTF8_REJECT"
  shows "dump_string (s @ ch # rest) = None"
proof -
  have "dump_escaped UTF8_ACCEPT cp (s @ ch # rest) = None" for cp
    using assms(1)
  proof (induction s arbitrary: cp)
    case Nil
    then show ?case using assms(2)
      by (simp add: utf8_decode_def UTF8_ACCEPT_def UTF8_REJECT_def)
  next
    case (Cons x s)
    then have "fst (utf8_decode UTF8_ACCEPT cp (of_char x)) = UTF8_ACCEPT" and "ascii s"
      by (simp_all add: ascii_def utf8_decode_ascii)
    with Cons.IH show ?case by (simp add: case_prod_unfold)
  qed
  then show ?thesis by (simp add: dump_string_def)
qed

end
