(* ===== verification/JudgeProtocol.thy ===== *)
theory JudgeProtocol
  imports JsonDump SubmissionTypes
begin

text \<open>
  \<open>src/protocol/JudgeProtocol.h\<close> and \<open>JudgeProtocol.cpp\<close>: decoding of requests and encoding of
  responses. \<open>parse\<close> is the JSON library's parser (None when it throws); the encoders give the
  serialized text, None when the serializer throws.
\<close>

record QueryResultRequest =
  qr_submission_id :: int

section \<open>Decoding\<close>

definition parseObjectPayload :: "(string \<Rightarrow> json option) \<Rightarrow> string \<Rightarrow> json option" where
  "parseObjectPayload parse payload =
     (case parse payload of
        None \<Rightarrow> None
      | Some parsed \<Rightarrow> if is_object parsed then Some parsed else None)"

definition hasType :: "json \<Rightarrow> string \<Rightarrow> bool" where
  "hasType parsed expected_type \<longleftrightarrow>
     json_contains parsed ''type'' \<and>
     (case json_at parsed ''type'' of
        Inl _ \<Rightarrow> False
      | Inr t \<Rightarrow> is_string t \<and> get_string t = Inr expected_type)"

text \<open>None stands for \<open>ok = false\<close>.\<close>

definition toSubmissionLanguage :: "int \<Rightarrow> SubmissionLanguage option" where
  "toSubmissionLanguage legacy_language =
     (if legacy_language = 0 then Some CPP
      else if legacy_language = 1 then Some C
      else if legacy_language = 2 then Some PYTHON
      else None)"

text \<open>\<open>parsed.at(key).get<T>()\<close> inside the \<open>try\<close> block.\<close>

definition member :: "(json \<Rightarrow> json_error + 'a) \<Rightarrow> json \<Rightarrow> string \<Rightarrow> 'a option" where
  "member rd parsed key =
     (case json_at parsed key of
        Inl _ \<Rightarrow> None
      | Inr v \<Rightarrow> (case rd v of Inl _ \<Rightarrow> None | Inr x \<Rightarrow> Some x))"

definition decodeRequest :: "(string \<Rightarrow> json option) \<Rightarrow> string \<Rightarrow> SubmissionRequest option" where
  "decodeRequest parse payload =
     (case parseObjectPayload parse payload of
        None \<Rightarrow> None
      | Some parsed \<Rightarrow>
          if \<not> hasType parsed ''submit'' \<or> \<not> json_contains parsed ''uuid'' \<or>
             \<not> json_contains parsed ''pid'' \<or> \<not> json_contains parsed ''lang'' \<or>
             \<not> json_contains parsed ''code'' then None
          else
            case member get_int parsed ''lang'' of
              None \<Rightarrow> None
            | Some lang \<Rightarrow>
                (case toSubmissionLanguage lang of
                   None \<Rightarrow> None
                 | Some language \<Rightarrow>
                     (case (member get_int parsed ''uuid'', member get_string parsed ''pid'',
                            member get_string parsed ''code'') of
                        (Some uuid, Some pid, Some code) \<Rightarrow>
                          Some \<lparr>req_uuid = uuid, req_pid = pid, req_language = language, req_code = code\<rparr>
                      | _ \<Rightarrow> None)))"

definition decodeQueryRequest :: "(string \<Rightarrow> json option) \<Rightarrow> string \<Rightarrow> QueryResultRequest option" where
  "decodeQueryRequest parse payload =
     (case parseObjectPayload parse payload of
        None \<Rightarrow> None
      | Some parsed \<Rightarrow>
          if \<not> hasType parsed ''query_result'' \<or> \<not> json_contains parsed ''submission_id'' then None
          else map_option (\<lambda>i. \<lparr>qr_submission_id = i\<rparr>) (member get_int parsed ''submission_id''))"

section \<open>Encoding\<close>

fun toStatusString :: "SubmissionStatus \<Rightarrow> string" where
  "toStatusString QUEUED = ''QUEUED''"
| "toStatusString PREPARING = ''PREPARING''"
| "toStatusString COMPILING = ''COMPILING''"
| "toStatusString RUNNING = ''RUNNING''"
| "toStatusString FINISHED = ''FINISHED''"
| "toStatusString FAILED = ''FAILED''"

fun toVerdictString :: "SubmissionVerdict \<Rightarrow> string" where
  "toVerdictString PENDING = ''PENDING''"
| "toVerdictString AC = ''AC''"
| "toVerdictString WA = ''WA''"
| "toVerdictString TLE = ''TLE''"
| "toVerdictString MLE = ''MLE''"
| "toVerdictString RE = ''RE''"
| "toVerdictString OLE = ''OLE''"
| "toVerdictString PE = ''PE''"
| "toVerdictString CE = ''CE''"
| "toVerdictString UNKNOWN = ''UNKNOWN''"
| "toVerdictString SYSTEM_ERROR = ''SYSTEM_ERROR''"

definition encodeCaseResult :: "SubmissionCaseResult \<Rightarrow> json" where
  "encodeCaseResult cr =
     json_object
       [(''seq_id'', JInteger (cr_seq_id cr)),
        (''verdict'', JString (toVerdictString (cr_verdict cr))),
        (''cpu_time_ms'', JInteger (cr_cpu_time_ms cr)),
        (''real_time_ms'', JInteger (cr_real_time_ms cr)),
        (''memory_kb'', JUnsigned (cr_memory_kb cr)),
        (''signal'', JInteger (cr_signal cr)),
        (''exit_code'', JInteger (cr_exit_code cr)),
        (''error_code'', JInteger (cr_error_code cr))]"

text \<open>
  The envelope of the asynchronous messages. The code builds it with an empty array and then
  appends the case results to that member; the model builds it with the final array.
\<close>

definition encodeAsyncEnvelope ::
  "string \<Rightarrow> int \<Rightarrow> SubmissionStatus \<Rightarrow> SubmissionVerdict \<Rightarrow> string \<Rightarrow> json list \<Rightarrow> json" where
  "encodeAsyncEnvelope typ submission_id status verdict message case_results =
     json_object
       [(''type'', JString typ),
        (''submission_id'', JInteger submission_id),
        (''status'', JString (toStatusString status)),
        (''verdict'', JString (toVerdictString verdict)),
        (''message'', JString message),
        (''case_results'', JArray case_results)]"

definition encodeLegacyEnvelope ::
  "int \<Rightarrow> SubmissionStatus \<Rightarrow> SubmissionVerdict \<Rightarrow> string \<Rightarrow> int \<Rightarrow> json" where
  "encodeLegacyEnvelope submission_id status verdict message code =
     json_object
       [(''submission_id'', JInteger submission_id),
        (''status'', JString (toStatusString status)),
        (''verdict'', JString (toVerdictString verdict)),
        (''message'', JString message),
        (''code'', JInteger code),
        (''msg'', JString message),
        (''case_results'', JArray [])]"

definition result_json :: "string \<Rightarrow> SubmissionResult \<Rightarrow> json" where
  "result_json typ result =
     encodeAsyncEnvelope typ (sr_submission_id result) (sr_status result) (sr_verdict result)
       (sr_message result) (map encodeCaseResult (sr_case_results result))"

definition no_float :: "rat \<Rightarrow> string" where "no_float q = []"

definition encodeSubmissionAck :: "int \<Rightarrow> string option" where
  "encodeSubmissionAck submission_id =
     json_dump no_float (encodeAsyncEnvelope ''submission_ack'' submission_id QUEUED PENDING ''queued'' [])"

definition encodeSubmissionUpdate :: "SubmissionResult \<Rightarrow> string option" where
  "encodeSubmissionUpdate result = json_dump no_float (result_json ''submission_update'' result)"

definition encodeSubmissionFinished :: "SubmissionResult \<Rightarrow> string option" where
  "encodeSubmissionFinished result = json_dump no_float (result_json ''submission_finished'' result)"

definition encodeResult :: "SubmissionResult \<Rightarrow> string option" where
  "encodeResult result =
     (if sr_status result = FINISHED \<or> sr_status result = FAILED then encodeSubmissionFinished result
      else encodeSubmissionUpdate result)"

definition encodeError :: "string \<Rightarrow> string option" where
  "encodeError message =
     json_dump no_float (encodeLegacyEnvelope (- 1) FAILED SYSTEM_ERROR message (- 1))"

section \<open>Decoding: facts\<close>

lemma hasType_unique: "hasType j t \<Longrightarrow> hasType j t' \<Longrightarrow> t = t'"
  by (auto simp: hasType_def split: sum.splits)

lemma member_Some_iff: "member rd j k = Some x \<longleftrightarrow> (\<exists>v. json_at j k = Inr v \<and> rd v = Inr x)"
  by (auto simp: member_def split: sum.splits)

lemma member_contains: "member rd j k = Some x \<Longrightarrow> json_contains j k"
  by (auto simp: member_Some_iff json_contains_at)

lemma decodeRequest_Some_iff:
  "decodeRequest parse payload = Some q \<longleftrightarrow>
     (\<exists>j lang. parse payload = Some j \<and> is_object j \<and> hasType j ''submit'' \<and>
        member get_int j ''lang'' = Some lang \<and> toSubmissionLanguage lang = Some (req_language q) \<and>
        member get_int j ''uuid'' = Some (req_uuid q) \<and> member get_string j ''pid'' = Some (req_pid q) \<and>
        member get_string j ''code'' = Some (req_code q))"
  by (cases q) (auto simp: decodeRequest_def parseObjectPayload_def dest: member_contains
      split: option.splits if_splits)

lemma decodeQuery_Some_iff:
  "decodeQueryRequest parse payload = Some q \<longleftrightarrow>
     (\<exists>j. parse payload = Some j \<and> is_object j \<and> hasType j ''query_result'' \<and>
        member get_int j ''submission_id'' = Some (qr_submission_id q))"
  by (cases q) (auto simp: decodeQueryRequest_def parseObjectPayload_def dest: member_contains
      split: option.splits if_splits)

text \<open>The request objects that the clients build.\<close>

definition submit_json :: "SubmissionRequest \<Rightarrow> json" where
  "submit_json q =
     json_object
       [(''type'', JString ''submit''), (''uuid'', JInteger (req_uuid q)), (''pid'', JString (req_pid q)),
        (''lang'', JInteger (case req_language q of CPP \<Rightarrow> 0 | C \<Rightarrow> 1 | PYTHON \<Rightarrow> 2)),
        (''code'', JString (req_code q))]"

definition query_json :: "int \<Rightarrow> json" where
  "query_json i = json_object [(''type'', JString ''query_result''), (''submission_id'', JInteger i)]"

text \<open>
  Requests survive the wire: a payload that parses to the object a client builds for a
  request decodes to that request (for 32-bit identifiers), and likewise for queries.
\<close>

theorem decode_client_request:
  assumes "- 2147483648 \<le> req_uuid q \<and> req_uuid q \<le> 2147483647"
    and "- 2147483648 \<le> i \<and> i \<le> 2147483647"
    and "parse payload = Some (submit_json q)" and "parse payload' = Some (query_json i)"
  shows "decodeRequest parse payload = Some q \<and> decodeQueryRequest parse payload' = Some \<lparr>qr_submission_id = i\<rparr>"
proof
  show "decodeRequest parse payload = Some q"
    unfolding decodeRequest_Some_iff using assms(1,3)
    by (cases "req_language q")
      (auto simp: submit_json_def hasType_def member_def get_int_def toSubmissionLanguage_def wrap32_id)
  show "decodeQueryRequest parse payload' = Some \<lparr>qr_submission_id = i\<rparr>"
    unfolding decodeQuery_Some_iff using assms(2,4)
    by (auto simp: query_json_def hasType_def member_def get_int_def wrap32_id)
qed

theorem decode_client_request_witness:
  "decodeRequest (\<lambda>_. Some (submit_json \<lparr>req_uuid = 1, req_pid = ''1000'', req_language = PYTHON, req_code = ''x''\<rparr>)) ''''
     = Some \<lparr>req_uuid = 1, req_pid = ''1000'', req_language = PYTHON, req_code = ''x''\<rparr>"
  using decode_client_request [of "\<lparr>req_uuid = 1, req_pid = ''1000'', req_language = PYTHON, req_code = ''x''\<rparr>" 7
      "\<lambda>s. if s = '''' then Some (submit_json \<lparr>req_uuid = 1, req_pid = ''1000'', req_language = PYTHON, req_code = ''x''\<rparr>)
           else Some (query_json 7)" "''''" "''q''"]
  by (simp add: decodeRequest_def parseObjectPayload_def)

text \<open>
  No payload is both a submission and a query, and a payload is refused by both decoders
  when it does not parse to an object or its \<open>type\<close> is neither of the two.
\<close>

theorem decode_exclusive:
  "\<not> (decodeRequest parse payload = Some q \<and> decodeQueryRequest parse payload = Some q') \<and>
   ((parse payload = None \<or> (\<exists>j. parse payload = Some j \<and>
       (\<not> is_object j \<or> \<not> hasType j ''submit'' \<and> \<not> hasType j ''query_result''))) \<longrightarrow>
     decodeRequest parse payload = None \<and> decodeQueryRequest parse payload = None)"
proof -
  have "\<not> (decodeRequest parse payload = Some q \<and> decodeQueryRequest parse payload = Some q')"
    unfolding decodeRequest_Some_iff decodeQuery_Some_iff
    using hasType_unique [of _ "''submit''" "''query_result''"] by auto
  then show ?thesis
    by (auto simp: decodeRequest_def decodeQueryRequest_def parseObjectPayload_def)
qed

theorem decode_exclusive_witness:
  "decodeRequest (\<lambda>_. None) ''x'' = None \<and> decodeQueryRequest (\<lambda>_. None) ''x'' = None"
  using decode_exclusive [of "\<lambda>_. None" "''x''"] by simp

text \<open>Submissions whose numeric fields are not integers.\<close>

definition loose_submit_json :: "json \<Rightarrow> json" where
  "loose_submit_json lang =
     json_object [(''type'', JString ''submit''), (''uuid'', JFloat (3 / 2)), (''pid'', JString ''1000''),
       (''lang'', lang), (''code'', JString '''')]"

lemma floor_samples: "\<lfloor>29 / 10 :: rat\<rfloor> = 2" "\<lfloor>3 / 2 :: rat\<rfloor> = 1"
  by (simp_all add: floor_eq_iff)

text \<open>
  The numeric fields are not type-checked: a submission whose \<open>lang\<close> is a boolean or a
  fraction and whose \<open>uuid\<close> is a fraction is accepted, as C (\<open>true\<close>) or as Python (\<open>2.9\<close>).
\<close>

theorem decode_accepts_non_integers:
  "decodeRequest (\<lambda>_. Some (loose_submit_json (JBoolean True))) payload =
     Some \<lparr>req_uuid = 1, req_pid = ''1000'', req_language = C, req_code = ''''\<rparr> \<and>
   decodeRequest (\<lambda>_. Some (loose_submit_json (JFloat (29 / 10)))) payload =
     Some \<lparr>req_uuid = 1, req_pid = ''1000'', req_language = PYTHON, req_code = ''''\<rparr>"
  by (simp add: decodeRequest_def parseObjectPayload_def hasType_def member_def get_int_def
      toSubmissionLanguage_def double_trunc_def wrap32_id loose_submit_json_def floor_samples)

section \<open>Encoding: facts\<close>

lemma toStatusString_inject [simp]: "toStatusString s = toStatusString t \<longleftrightarrow> s = t"
  by (cases s; cases t) simp_all

lemma toVerdictString_inject [simp]: "toVerdictString v = toVerdictString w \<longleftrightarrow> v = w"
  by (cases v; cases w) simp_all

lemma ascii_toStatusString [simp]: "ascii (toStatusString s)"
  by (cases s) (simp_all add: ascii_def)

lemma ascii_toVerdictString [simp]: "ascii (toVerdictString v)"
  by (cases v) (simp_all add: ascii_def)

text \<open>The strings of an object are those of its initialiser.\<close>

lemma json_strings_obj_insert:
  "P k \<Longrightarrow> json_strings P v \<Longrightarrow> json_strings P (JObject ms) \<Longrightarrow> json_strings P (JObject (obj_insert k v ms))"
  by (induction k v ms rule: obj_insert.induct) auto

lemma json_strings_object:
  "list_all (\<lambda>(k, v). P k \<and> json_strings P v) ps \<Longrightarrow> json_strings P (json_object ps)"
proof -
  assume ps: "list_all (\<lambda>(k, v). P k \<and> json_strings P v) ps"
  have "json_strings P (JObject (foldl (\<lambda>ms (k, v). obj_insert k v ms) ms ps))" if "json_strings P (JObject ms)" for ms
    using ps that
  proof (induction ps arbitrary: ms)
    case (Cons p ps)
    obtain k v where p: "p = (k, v)" by (cases p)
    from Cons.prems have "json_strings P (JObject (obj_insert k v ms))"
      by (intro json_strings_obj_insert) (simp_all add: p)
    then show ?case using Cons.IH Cons.prems(1) by (simp add: p)
  qed simp
  then show ?thesis by (simp add: json_object_def)
qed

lemma ascii_literal [simp]:
  "ascii []" "ascii (c # s) \<longleftrightarrow> (of_char c :: nat) < 128 \<and> ascii s"
  by (simp_all add: ascii_def)

text \<open>All of a response but its message is ASCII.\<close>

lemma result_json_strings:
  assumes "\<And>s. ascii s \<Longrightarrow> P s" "ascii typ" "P (sr_message r)"
  shows "json_strings P (result_json typ r)"
  unfolding result_json_def encodeAsyncEnvelope_def
  by (rule json_strings_object) (use assms in \<open>simp add: list_all_iff encodeCaseResult_def json_strings_object\<close>)

lemma envelope_strings:
  assumes "\<And>s. ascii s \<Longrightarrow> P s"
  shows "json_strings P (encodeAsyncEnvelope ''submission_ack'' i QUEUED PENDING ''queued'' [])"
    and "P m \<Longrightarrow> json_strings P (encodeLegacyEnvelope i s v m c)"
  unfolding encodeAsyncEnvelope_def encodeLegacyEnvelope_def
  by (rule json_strings_object, use assms in simp)+

text \<open>One member that cannot be serialized makes the whole object fail.\<close>

lemma json_dump_object_None:
  "map_of ps k = Some v \<Longrightarrow> json_dump df v = None \<Longrightarrow> json_dump df (json_object ps) = None"
proof -
  assume kv: "map_of ps k = Some v" and none: "json_dump df v = None"
  from kv have "map_of (foldl (\<lambda>ms (k, v). obj_insert k v ms) [] ps) k = Some v"
    using foldl_obj_insert [of "[]" ps] by simp
  then have "(k, v) \<in> set (foldl (\<lambda>ms (k, v). obj_insert k v ms) [] ps)" by (rule map_of_SomeD)
  moreover have "dump_member k (json_dump df v) = None"
    using none by (simp add: dump_member_def split: option.splits)
  ultimately have "\<exists>x \<in> set (map (\<lambda>(k, v). dump_member k (json_dump df v))
      (foldl (\<lambda>ms (k, v). obj_insert k v ms) [] ps)). x = None" by force
  then show ?thesis unfolding json_object_def
    using all_some_iff [of "map (\<lambda>(k, v). dump_member k (json_dump df v))
        (foldl (\<lambda>ms (k, v). obj_insert k v ms) [] ps)"]
    by (cases "all_some (map (\<lambda>(k, v). dump_member k (json_dump df v))
        (foldl (\<lambda>ms (k, v). obj_insert k v ms) [] ps))") auto
qed

lemma json_dump_message_None:
  assumes "dump_string m = None"
  shows "json_dump df (encodeAsyncEnvelope ty i s v m c) = None" "json_dump df (encodeLegacyEnvelope i s v m e) = None"
  unfolding encodeAsyncEnvelope_def encodeLegacyEnvelope_def
  using assms by (intro json_dump_object_None [of _ "''message''" "JString m"]; simp)+

text \<open>A response is serialized exactly when its message is.\<close>

abbreviation dumpable :: "string \<Rightarrow> bool" where
  "dumpable s \<equiv> \<exists>out. dump_string s = Some out"

lemma response_dumpable:
  "\<exists>out. json_dump df (encodeAsyncEnvelope ''submission_ack'' i QUEUED PENDING ''queued'' []) = Some out"
  "dumpable m \<Longrightarrow> \<exists>out. json_dump df (encodeLegacyEnvelope i s v m e) = Some out"
  "ascii ty \<Longrightarrow> dumpable (sr_message r) \<Longrightarrow> \<exists>out. json_dump df (result_json ty r) = Some out"
  by (rule json_dump_strings [of dumpable], assumption,
      rule envelope_strings result_json_strings, rule dump_string_ascii, assumption, assumption?, assumption?)+

lemma responses_serialize_iff:
  "encodeError m = None \<longleftrightarrow> \<not> dumpable m"
  "encodeResult r = None \<longleftrightarrow> \<not> dumpable (sr_message r)"
proof -
  have "json_dump df (encodeLegacyEnvelope i s v m e) = None \<longleftrightarrow> \<not> dumpable m" for df i s v e
    using json_dump_message_None(2) [of m] response_dumpable(2) [of m df i s v e]
    by (cases "dump_string m") auto
  then show "encodeError m = None \<longleftrightarrow> \<not> dumpable m" by (simp add: encodeError_def)
  have "json_dump df (result_json ty r) = None \<longleftrightarrow> \<not> dumpable (sr_message r)" if "ascii ty" for ty df
    using json_dump_message_None(1) [of "sr_message r"] response_dumpable(3) [OF that, of r df]
    by (cases "dump_string (sr_message r)") (auto simp: result_json_def)
  then show "encodeResult r = None \<longleftrightarrow> \<not> dumpable (sr_message r)"
    by (simp add: encodeResult_def encodeSubmissionFinished_def encodeSubmissionUpdate_def)
qed

lemma responses_serialize:
  "(\<exists>out. encodeSubmissionAck i = Some out) \<and>
   (ascii m \<longrightarrow> (\<exists>out. encodeError m = Some out)) \<and>
   (ascii (sr_message r) \<longrightarrow> (\<exists>out. encodeResult r = Some out))"
proof (intro conjI impI)
  show "\<exists>out. encodeSubmissionAck i = Some out"
    unfolding encodeSubmissionAck_def by (rule response_dumpable(1))
  show "\<exists>out. encodeError m = Some out" if "ascii m"
    using dump_string_ascii [OF that] responses_serialize_iff(1) [of m] by auto
  show "\<exists>out. encodeResult r = Some out" if "ascii (sr_message r)"
    using dump_string_ascii [OF that] responses_serialize_iff(2) [of r] by auto
qed

text \<open>
  A result whose message holds a byte that starts no UTF-8 sequence (a compiler diagnostic
  may quote one) cannot be encoded: \<open>encodeResult\<close> throws, whatever follows that byte.
\<close>

theorem invalid_utf8_message_throws:
  assumes "ascii pre" and "utf8d ! (256 + utf8d ! of_char ch) = UTF8_REJECT"
    and "sr_message r = pre @ ch # post"
  shows "encodeResult r = None"
  using dump_string_reject [OF assms(1,2)] assms(3) responses_serialize_iff(2) by simp

theorem invalid_utf8_message_throws_witness:
  "encodeResult (default_result\<lparr>sr_message := ''error: '' @ CHR 0xFF # ''x''\<rparr>) = None"
proof (rule invalid_utf8_message_throws)
  show "ascii ''error: ''" by (simp add: ascii_def)
  show "utf8d ! (256 + utf8d ! of_char CHR 0xFF) = UTF8_REJECT" by code_simp
qed simp

end
