(* ===== verification/ClientSockets.thy ===== *)
theory ClientSockets
  imports ConnectionRegistry ReplyChannel AckBarrier JudgeProtocol SubmissionService
begin

text \<open>
  \<open>src/network/ClientSockets.cpp\<close> with \<open>SubmissionRequestHandler.cpp\<close>, \<open>QueryRequestHandler.cpp\<close> and
  \<open>SubmissionEventResponder.cpp\<close>: what the server does with a complete message, with socket events,
  and with the workers' notifications. The state joins the connection registry, the acknowledgement
  barrier, the result store and the task queue.

  None is an exception that leaves the function (the serializer throws, \<open>slots_.at\<close>), an access
  outside an array, a write that is interrupted for ever, or the signal SIGPIPE, which ends the process:
  nothing in the server handles or blocks it, and \<open>send\<close> is called without \<open>MSG_NOSIGNAL\<close>. Worker threads run beside the select thread; where the order of their locked
  operations matters, a handler takes the lists of messages that workers deliver at its points of
  interruption, and the handler itself is the instance with empty lists.
\<close>

record ClientSockets =
  cs_registry :: ConnectionRegistry
  cs_barrier :: AckBarrier
  cs_next_session :: nat
  cs_store :: ResultStore
  cs_queue :: SubmissionQueue
  cs_stopping :: bool
  cs_wakes :: nat

definition new_client_sockets :: "nat \<Rightarrow> ClientSockets" where
  "new_client_sockets slot_count =
     \<lparr>cs_registry = new_registry slot_count, cs_barrier = new_barrier, cs_next_session = 1, cs_store = initial_store,
      cs_queue = empty_queue, cs_stopping = False, cs_wakes = 0\<rparr>"

section \<open>Helpers\<close>

definition make_protocol_frame :: "string \<Rightarrow> string" where
  "make_protocol_frame body = be32_encode (length body mod 4294967296) @ body"

text \<open>The write loop: the answers of \<open>write\<close> are a parameter; the value is the number of bytes written.\<close>

datatype write_answer = Wrote nat | Interrupted | WriteFailed | WriteBrokenPipe

partial_function (option) write_all :: "(nat \<Rightarrow> write_answer) \<Rightarrow> nat \<Rightarrow> nat \<Rightarrow> nat \<Rightarrow> nat option" where
  "write_all wr k frame_size written =
     (if written < frame_size then
        (case wr k of
           Wrote n \<Rightarrow> if n > 0 then write_all wr (Suc k) frame_size (written + n) else Some written
         | Interrupted \<Rightarrow> write_all wr (Suc k) frame_size written
         | WriteFailed \<Rightarrow> Some written
         | WriteBrokenPipe \<Rightarrow> None)
      else Some written)"

declare write_all.simps [code]

text \<open>The bytes sent to the refused client, and the descriptors closed.\<close>

definition send_connection_limit_error_and_close :: "(nat \<Rightarrow> write_answer) \<Rightarrow> int \<Rightarrow> (string \<times> int list) option" where
  "send_connection_limit_error_and_close wr client_socket =
     (case encodeError ''judge server is busy, too many active connections'' of
        None \<Rightarrow> None
      | Some response \<Rightarrow>
          let frm = make_protocol_frame response in
          map_option (\<lambda>written. (take written frm, [client_socket])) (write_all wr 0 (length frm) 0))"

definition kMaxPidLogLength :: nat where
  "kMaxPidLogLength = 32"

definition sanitize_pid_for_log :: "string \<Rightarrow> string" where
  "sanitize_pid_for_log pid =
     (let sanitized = map (\<lambda>ch. if log_safe ch then ch else CHR ''_'') pid in
      if length sanitized > kMaxPidLogLength then take kMaxPidLogLength sanitized @ ''...'' else sanitized)"

section \<open>Connections\<close>

text \<open>
  The descriptors closed and, for a refused client, the bytes sent to it. \<open>next_session_id_\<close> is a 64-bit
  counter that wraps around.
\<close>

definition register_client_socket ::
  "(nat \<Rightarrow> write_answer) \<Rightarrow> int \<Rightarrow> ClientSockets \<Rightarrow> (int list \<times> string \<times> ClientSockets) option" where
  "register_client_socket wr client_socket cs =
     (case acquire_slot client_socket (cs_next_session cs) (cs_registry cs) of
        None \<Rightarrow> None
      | Some (slot_id, r) \<Rightarrow>
          let cs' = cs\<lparr>cs_registry := r, cs_next_session := (cs_next_session cs + 1) mod 18446744073709551616\<rparr> in
          if slot_id < 0 then
            map_option (\<lambda>(out, cl). (cl, out, cs')) (send_connection_limit_error_and_close wr client_socket)
          else Some ([], [], cs'))"

definition release_connection :: "nat \<Rightarrow> ClientSockets \<Rightarrow> (int list \<times> ClientSockets) option" where
  "release_connection slot_id cs =
     map_option (\<lambda>(cl, r). (cl, cs\<lparr>cs_registry := r\<rparr>)) (release_slot slot_id (cs_registry cs))"

section \<open>Delivering messages\<close>

text \<open>A change of one slot of the table.\<close>

definition on_slot :: "nat \<Rightarrow> (ConnectionSlot \<Rightarrow> ConnectionSlot) \<Rightarrow> ClientSockets \<Rightarrow> ClientSockets" where
  "on_slot i f cs = cs\<lparr>cs_registry := upd_slot i f (cs_registry cs)\<rparr>"

definition wake_select_loop :: "ClientSockets \<Rightarrow> ClientSockets" where
  "wake_select_loop cs = cs\<lparr>cs_wakes := Suc (cs_wakes cs)\<rparr>"

definition queue_immediate_response :: "nat \<Rightarrow> string \<Rightarrow> ClientSockets \<Rightarrow> ClientSockets" where
  "queue_immediate_response slot_id response cs =
     on_slot slot_id set_writable (on_slot slot_id (set_pending_response response) cs)"

definition resolve_reply_channel_for_delivery :: "string \<Rightarrow> ClientSockets \<Rightarrow> ReplyChannel option" where
  "resolve_reply_channel_for_delivery reply_channel_id cs =
     (case rc_parse reply_channel_id of
        None \<Rightarrow> None
      | Some ch \<Rightarrow> if rc_slot_id ch \<ge> int (reg_size (cs_registry cs)) then None else Some ch)"

definition queue_protocol_response_for_channel :: "string \<Rightarrow> string \<Rightarrow> ClientSockets \<Rightarrow> ClientSockets" where
  "queue_protocol_response_for_channel reply_channel_id response cs =
     (case try_defer reply_channel_id response (cs_barrier cs) of
        (True, ab) \<Rightarrow> cs\<lparr>cs_barrier := ab\<rparr>
      | (False, ab) \<Rightarrow>
          (case resolve_reply_channel_for_delivery reply_channel_id cs of
             None \<Rightarrow> cs
           | Some ch \<Rightarrow>
               let i = nat (rc_slot_id ch) in
               if fst (set_pending_response_if_session (rc_session_id ch) response (reg_slots (cs_registry cs) ! i))
               then wake_select_loop
                      (on_slot i (\<lambda>sl. snd (set_pending_response_if_session (rc_session_id ch) response sl)) cs)
               else cs))"

section \<open>Requests\<close>

definition handleQuery :: "json \<Rightarrow> QueryResultRequest \<Rightarrow> time \<Rightarrow> ResultStore \<Rightarrow> string option \<times> ResultStore" where
  "handleQuery c request now st =
     (case query c (qr_submission_id request) now st of
        (None, st') \<Rightarrow> (encodeError ''submission not found'', st')
      | (Some result, st') \<Rightarrow> (encodeResult result, st'))"

text \<open>
  \<open>handle_submit_message\<close> with \<open>submitEnsuringAckFirst\<close>: mark the channel, submit, (workers deliver
  \<open>d1\<close>), build the response and release the barrier, (\<open>d2\<close>), queue the response, queue the deferred
  messages, (\<open>d3\<close>).
\<close>

definition submit_steps ::
  "json \<Rightarrow> nat \<Rightarrow> SubmissionRequest \<Rightarrow> time \<Rightarrow> time \<Rightarrow> string list \<Rightarrow> string list \<Rightarrow> string list \<Rightarrow> ClientSockets \<Rightarrow>
     ClientSockets option" where
  "submit_steps c slot_id request now now' d1 d2 d3 cs =
     (let ch = rc_to_string \<lparr>rc_slot_id = int slot_id, rc_session_id = slot_session_id (reg_slots (cs_registry cs) ! slot_id)\<rparr>;
          cs1 = cs\<lparr>cs_barrier := mark_waiting ch (cs_barrier cs)\<rparr>
      in case submitAsync c request ch now now' (cs_store cs1, cs_queue cs1) of
           (submission_id, st, q) \<Rightarrow>
             let cs2 = fold (queue_protocol_response_for_channel ch) d1 (cs1\<lparr>cs_store := st, cs_queue := q\<rparr>) in
             (case (if submission_id \<le> 0 then encodeError ''submission queue unavailable'' else encodeSubmissionAck submission_id) of
                None \<Rightarrow> None
              | Some response \<Rightarrow>
                  (case release ch (cs_barrier cs2) of
                     (deferred_messages, ab) \<Rightarrow>
                       let cs3 = fold (queue_protocol_response_for_channel ch) d2 (cs2\<lparr>cs_barrier := ab\<rparr>);
                           cs4 = queue_immediate_response slot_id response cs3;
                           cs5 = fold (queue_protocol_response_for_channel ch) deferred_messages cs4
                       in Some (fold (queue_protocol_response_for_channel ch) d3 cs5))))"

definition handle_submit_message ::
  "json \<Rightarrow> nat \<Rightarrow> SubmissionRequest \<Rightarrow> time \<Rightarrow> time \<Rightarrow> ClientSockets \<Rightarrow> ClientSockets option" where
  "handle_submit_message c slot_id request now now' cs = submit_steps c slot_id request now now' [] [] [] cs"

definition handle_query_message ::
  "json \<Rightarrow> nat \<Rightarrow> QueryResultRequest \<Rightarrow> time \<Rightarrow> ClientSockets \<Rightarrow> ClientSockets option" where
  "handle_query_message c slot_id request now cs =
     (case handleQuery c request now (cs_store cs) of
        (None, st) \<Rightarrow> None
      | (Some response, st) \<Rightarrow> Some (queue_immediate_response slot_id response (cs\<lparr>cs_store := st\<rparr>)))"

definition handle_query_or_bad_request ::
  "(string \<Rightarrow> json option) \<Rightarrow> json \<Rightarrow> nat \<Rightarrow> string \<Rightarrow> time \<Rightarrow> ClientSockets \<Rightarrow> ClientSockets option" where
  "handle_query_or_bad_request parse c slot_id message_body now cs =
     (case decodeQueryRequest parse message_body of
        Some request \<Rightarrow> handle_query_message c slot_id request now cs
      | None \<Rightarrow> map_option (\<lambda>response. queue_immediate_response slot_id response cs) (encodeError ''bad request''))"

definition handle_complete_message ::
  "(string \<Rightarrow> json option) \<Rightarrow> json \<Rightarrow> nat \<Rightarrow> string \<Rightarrow> time \<Rightarrow> time \<Rightarrow> ClientSockets \<Rightarrow> ClientSockets option" where
  "handle_complete_message parse c slot_id message_body now now' cs =
     (case decodeRequest parse message_body of
        Some request \<Rightarrow> handle_submit_message c slot_id request now now' cs
      | None \<Rightarrow> handle_query_or_bad_request parse c slot_id message_body now cs)"

section \<open>Socket events\<close>

text \<open>The descriptors closed and the new state.\<close>

definition handle_read_event ::
  "(string \<Rightarrow> json option) \<Rightarrow> json \<Rightarrow> nat \<Rightarrow> read_outcome \<Rightarrow> time \<Rightarrow> time \<Rightarrow> ClientSockets \<Rightarrow>
     (int list \<times> ClientSockets) option" where
  "handle_read_event parse c slot_id outcome now now' cs =
     (case reg_slot slot_id (cs_registry cs) of
        None \<Rightarrow> None
      | Some sl \<Rightarrow>
          (case read_message outcome sl of
             None \<Rightarrow> None
           | Some (has_complete_message, bytes_read, message_body, sl') \<Rightarrow>
               let cs' = on_slot slot_id (\<lambda>_. sl') cs in
               if bytes_read = 0 then release_connection slot_id cs'
               else if bytes_read < 0 then release_connection slot_id cs'
               else if has_complete_message then
                 map_option (Pair []) (handle_complete_message parse c slot_id message_body now now' cs')
               else Some ([], cs')))"

datatype send_answer = Sent nat | SendWouldBlock | SendFailed | SendBrokenPipe

text \<open>
  \<open>sent\<close> is the answer of \<open>send\<close> for the bytes it is given, a connection that the peer has closed for
  reading (\<open>SendBrokenPipe\<close>, SIGPIPE) apart from the other failures; \<open>d\<close> are the messages that workers deliver to
  the channel \<open>ch\<close> after the output was consumed and before the slot is set readable.
\<close>

definition write_steps ::
  "string \<Rightarrow> string list \<Rightarrow> nat \<Rightarrow> (string \<Rightarrow> send_answer) \<Rightarrow> ClientSockets \<Rightarrow> (string \<times> int list \<times> ClientSockets) option" where
  "write_steps ch d slot_id sent cs =
     (case reg_slot slot_id (cs_registry cs) of
        None \<Rightarrow> None
      | Some sl \<Rightarrow>
          if \<not> is_writable sl then Some ([], [], cs)
          else if \<not> has_pending_response sl then Some ([], [], on_slot slot_id set_readable cs)
          else
            (let result_data = copy_pending_response sl in
             case (if result_data = [] then Sent 0 else sent result_data) of
               SendWouldBlock \<Rightarrow> Some ([], [], cs)
             | SendBrokenPipe \<Rightarrow> None
             | SendFailed \<Rightarrow> map_option (\<lambda>(cl, cs'). ([], cl, cs')) (release_connection slot_id cs)
             | Sent n \<Rightarrow>
                 let cs' = on_slot slot_id (\<lambda>s. snd (consume_pending_response n s)) cs in
                 if \<not> fst (consume_pending_response n sl) then Some (take n result_data, [], cs')
                 else Some (take n result_data, [],
                        on_slot slot_id set_readable (fold (queue_protocol_response_for_channel ch) d cs'))))"

definition handle_write_event ::
  "nat \<Rightarrow> (string \<Rightarrow> send_answer) \<Rightarrow> ClientSockets \<Rightarrow> (string \<times> int list \<times> ClientSockets) option" where
  "handle_write_event slot_id sent cs = write_steps [] [] slot_id sent cs"

text \<open>
  One round over the slots; \<open>outcome\<close> and \<open>sent\<close> are the answers of the sockets by slot. The value
  lists the descriptors closed and what was sent.
\<close>

fun ready_loop ::
  "(string \<Rightarrow> json option) \<Rightarrow> json \<Rightarrow> int set \<Rightarrow> int set \<Rightarrow> (nat \<Rightarrow> read_outcome) \<Rightarrow> (nat \<Rightarrow> string \<Rightarrow> send_answer) \<Rightarrow>
     time \<Rightarrow> nat list \<Rightarrow> ClientSockets \<Rightarrow> (int list \<times> (nat \<times> string) list \<times> ClientSockets) option" where
  "ready_loop parse c rd wr outcome sent now [] cs = Some ([], [], cs)"
| "ready_loop parse c rd wr outcome sent now (i # is) cs =
     (let fd = slot_fd (reg_slots (cs_registry cs) ! i) in
      if fd = 0 then ready_loop parse c rd wr outcome sent now is cs
      else if fd \<in> rd then
        (case handle_read_event parse c i (outcome i) now now cs of
           None \<Rightarrow> None
         | Some (cl, cs') \<Rightarrow>
             map_option (\<lambda>(cl', out, cs''). (cl @ cl', out, cs'')) (ready_loop parse c rd wr outcome sent now is cs'))
      else if fd \<in> wr then
        (case handle_write_event i (sent i) cs of
           None \<Rightarrow> None
         | Some (bytes, cl, cs') \<Rightarrow>
             map_option (\<lambda>(cl', out, cs''). (cl @ cl', (i, bytes) # out, cs''))
               (ready_loop parse c rd wr outcome sent now is cs'))
      else ready_loop parse c rd wr outcome sent now is cs)"

definition handle_ready_events ::
  "(string \<Rightarrow> json option) \<Rightarrow> json \<Rightarrow> int set \<Rightarrow> int set \<Rightarrow> (nat \<Rightarrow> read_outcome) \<Rightarrow> (nat \<Rightarrow> string \<Rightarrow> send_answer) \<Rightarrow>
     time \<Rightarrow> ClientSockets \<Rightarrow> (int list \<times> (nat \<times> string) list \<times> ClientSockets) option" where
  "handle_ready_events parse c read_sets write_sets outcome sent now cs =
     ready_loop parse c read_sets write_sets outcome sent now [0..<reg_size (cs_registry cs)] cs"

section \<open>Notifications from the workers\<close>

text \<open>\<open>Some None\<close> is \<open>std::nullopt\<close>, None an exception of the serializer.\<close>

definition responder_started :: "json \<Rightarrow> SubmissionTask \<Rightarrow> time \<Rightarrow> ResultStore \<Rightarrow> string option option \<times> ResultStore" where
  "responder_started c task now st =
     (case query c (task_submission_id task) now st of
        (None, st') \<Rightarrow> (Some None, st')
      | (Some result, st') \<Rightarrow>
          if sr_status result = QUEUED then (Some None, st')
          else (map_option Some (encodeSubmissionUpdate result), st'))"

definition responder_finished :: "json \<Rightarrow> SubmissionTask \<Rightarrow> time \<Rightarrow> ResultStore \<Rightarrow> string option option \<times> ResultStore" where
  "responder_finished c task now st =
     (case query c (task_submission_id task) now st of
        (None, st') \<Rightarrow> (Some None, st')
      | (Some result, st') \<Rightarrow> (map_option Some (encodeResult result), st'))"

definition deliver_event ::
  "(string option option \<times> ResultStore) \<Rightarrow> SubmissionTask \<Rightarrow> ClientSockets \<Rightarrow> ClientSockets option" where
  "deliver_event response task cs =
     (case response of
        (None, st) \<Rightarrow> None
      | (Some None, st) \<Rightarrow> Some (cs\<lparr>cs_store := st\<rparr>)
      | (Some (Some msg), st) \<Rightarrow>
          Some (queue_protocol_response_for_channel (task_reply_channel_id task) msg (cs\<lparr>cs_store := st\<rparr>)))"

definition onSubmissionStarted :: "json \<Rightarrow> SubmissionTask \<Rightarrow> time \<Rightarrow> ClientSockets \<Rightarrow> ClientSockets option" where
  "onSubmissionStarted c task now cs =
     (if cs_stopping cs then Some cs else deliver_event (responder_started c task now (cs_store cs)) task cs)"

definition onSubmissionFinished :: "json \<Rightarrow> SubmissionTask \<Rightarrow> time \<Rightarrow> ClientSockets \<Rightarrow> ClientSockets option" where
  "onSubmissionFinished c task now cs =
     (if cs_stopping cs then Some cs else deliver_event (responder_finished c task now (cs_store cs)) task cs)"

end
