(* ===== verification/TcpServer.thy ===== *)
theory TcpServer
  imports ClientSockets
begin

text \<open>
  \<open>src/network/TcpServer.cpp\<close> and the wiring of \<open>src/main.cpp\<close>: the listening socket, the \<open>eventfd\<close>
  that wakes the select loop, and one round of the loop with the callbacks \<open>main\<close> installs
  (\<open>register_client_socket\<close>, \<open>handle_ready_events\<close>, \<open>populate_socket_sets\<close>). The answers of the
  operating system are arguments; the counter of the \<open>eventfd\<close> is \<open>cs_wakes\<close>, which every wake-up
  callback increments.
\<close>

record TcpServer =
  server_fd :: int
  wake_fd :: int
  running :: bool

section \<open>Construction\<close>

datatype socket_call =
    EventFd
  | Socket
  | SetReuseAddr int
  | SetNonBlock int
  | Bind int nat
  | Listen int nat
  | Close int

record socket_os =
  os_eventfd :: int
  os_socket :: int
  os_setsockopt :: int
  os_bind :: int
  os_listen :: int

definition new_tcp_server :: TcpServer where
  "new_tcp_server = \<lparr>server_fd = - 1, wake_fd = - 1, running = False\<rparr>"

definition create_wake_fd :: "socket_os \<Rightarrow> TcpServer \<Rightarrow> bool \<times> socket_call list \<times> TcpServer" where
  "create_wake_fd os s =
     (let s' = s\<lparr>wake_fd := os_eventfd os\<rparr> in
      if wake_fd s' = - 1 then (False, [EventFd], s') else (True, [EventFd], s'))"

definition htons :: "int \<Rightarrow> nat" where
  "htons port = nat (port mod 65536)"

definition create_and_bind_socket ::
  "socket_os \<Rightarrow> int \<Rightarrow> bool \<Rightarrow> bool \<Rightarrow> TcpServer \<Rightarrow> bool \<times> socket_call list \<times> TcpServer" where
  "create_and_bind_socket os port nonblock reuseaddr s0 =
     (let fd = os_socket os; s = s0\<lparr>server_fd := fd\<rparr> in
      if server_fd s = - 1 then (False, [Socket], s)
      else
        let c1 = [Socket] @ (if reuseaddr then [SetReuseAddr fd] else []) in
        if reuseaddr \<and> os_setsockopt os < 0 then (False, c1 @ [Close fd], s\<lparr>server_fd := - 1\<rparr>)
        else
          let c2 = c1 @ (if nonblock then [SetNonBlock fd] else []) @ [Bind fd (htons port)] in
          if os_bind os = - 1 then (False, c2 @ [Close fd], s\<lparr>server_fd := - 1\<rparr>)
          else
            let c3 = c2 @ [Listen fd 10] in
            if os_listen os = - 1 then (False, c3 @ [Close fd], s\<lparr>server_fd := - 1\<rparr>)
            else (True, c3, s))"

text \<open>The constructor: \<open>Inl\<close> is the exception it throws, with the object as it was then.\<close>

definition construct_server ::
  "socket_os \<Rightarrow> int \<Rightarrow> bool \<Rightarrow> bool \<Rightarrow> socket_call list \<times> (string \<times> TcpServer + TcpServer)" where
  "construct_server os port nonblock reuseaddr =
     (case create_wake_fd os new_tcp_server of
        (False, c, s) \<Rightarrow> (c, Inl (''Failed to create wake fd'', s))
      | (True, c, s) \<Rightarrow>
          (case create_and_bind_socket os port nonblock reuseaddr s of
             (False, c', s') \<Rightarrow> (c @ c', Inl (''Failed to create and bind server socket'', s'))
           | (True, c', s') \<Rightarrow> (c @ c', Inr s')))"

section \<open>Waking the loop\<close>

text \<open>
  The \<open>eventfd\<close> counter is below \<open>2^64 - 1\<close>; adding to a full counter fails with \<open>EAGAIN\<close>, which \<open>wake\<close>
  ignores. Reading returns and resets a positive counter, and fails with \<open>EAGAIN\<close> on zero.
\<close>

definition eventfd_max :: nat where "eventfd_max = 18446744073709551614"

definition eventfd_write :: "nat \<Rightarrow> nat" where
  "eventfd_write counter = (if counter + 1 \<le> eventfd_max then counter + 1 else counter)"

definition wake :: "TcpServer \<Rightarrow> nat \<Rightarrow> nat" where
  "wake s counter = (if wake_fd s = - 1 then counter else eventfd_write counter)"

text \<open>
  The drain loop against a counter that other threads may raise between two reads: \<open>raised k\<close> is what
  is added before the k-th read. The value is the number of reads and the counter left; not ending is
  None.
\<close>

definition eventfd_read :: "nat \<Rightarrow> nat option" where
  "eventfd_read counter = (if counter > 0 then Some 0 else None)"

partial_function (option) drain_wake_fd :: "(nat \<Rightarrow> nat) \<Rightarrow> nat \<Rightarrow> nat \<Rightarrow> (nat \<times> nat) option" where
  "drain_wake_fd raised k counter =
     (case eventfd_read (counter + raised k) of
        Some counter' \<Rightarrow> drain_wake_fd raised (Suc k) counter'
      | None \<Rightarrow> Some (Suc k, counter + raised k))"

declare drain_wake_fd.simps [code]

definition stop :: "TcpServer \<Rightarrow> nat \<Rightarrow> TcpServer \<times> nat" where
  "stop s counter = (let s' = s\<lparr>running := False\<rparr> in (s', wake s' counter))"

text \<open>The destructor: the descriptors closed.\<close>

definition destroy_server :: "TcpServer \<Rightarrow> int list" where
  "destroy_server s = (if server_fd s \<noteq> - 1 then [server_fd s] else []) @ (if wake_fd s \<noteq> - 1 then [wake_fd s] else [])"

section \<open>The event loop\<close>

text \<open>The scan over all descriptors for the largest one in the sets.\<close>

fun max_fd_scan :: "int set \<Rightarrow> nat \<Rightarrow> int \<Rightarrow> int" where
  "max_fd_scan sets 0 max_fd = max_fd"
| "max_fd_scan sets (Suc n) max_fd =
     (let fd = FD_SETSIZE - int (Suc n) in
      max_fd_scan sets n (if fd \<in> sets \<and> fd > max_fd then fd else max_fd))"

definition watch_sets :: "TcpServer \<Rightarrow> ClientSockets \<Rightarrow> (int set \<times> int set \<times> int) option" where
  "watch_sets s cs =
     (case FD_SET (server_fd s) {} of
        None \<Rightarrow> None
      | Some rd0 \<Rightarrow>
          (case FD_SET (wake_fd s) rd0 of
             None \<Rightarrow> None
           | Some rd1 \<Rightarrow>
               (case populate_socket_sets rd1 {} (cs_registry cs) of
                  None \<Rightarrow> None
                | Some (rd, wr, _) \<Rightarrow>
                    let max0 = (if server_fd s > wake_fd s then server_fd s else wake_fd s) in
                    Some (rd, wr, max_fd_scan (rd \<union> wr) (nat FD_SETSIZE) max0))))"

text \<open>What the system answers in one round; the sockets' answers are those of \<open>ready_loop\<close>.\<close>

datatype select_answer = SelectInterrupted | SelectFailed | SelectReady "int set" "int set"

record round_os =
  ro_select :: "int \<Rightarrow> int set \<Rightarrow> int set \<Rightarrow> select_answer"
  ro_accept :: int
  ro_write :: "nat \<Rightarrow> write_answer"
  ro_read :: "nat \<Rightarrow> read_outcome"
  ro_send :: "nat \<Rightarrow> string \<Rightarrow> send_answer"
  ro_now :: time

datatype round_end = Continues ClientSockets | Breaks ClientSockets

text \<open>
  The body of the \<open>while\<close> loop. None is an exception or an access outside an \<open>fd_set\<close>.
\<close>

definition drain_wakes :: "ClientSockets \<Rightarrow> ClientSockets option" where
  "drain_wakes cs = map_option (\<lambda>(_, counter). cs\<lparr>cs_wakes := counter\<rparr>) (drain_wake_fd (\<lambda>_. 0) 0 (cs_wakes cs))"

definition accept_client :: "round_os \<Rightarrow> ClientSockets \<Rightarrow> ClientSockets option" where
  "accept_client os cs =
     (if ro_accept os \<noteq> - 1 then map_option (\<lambda>(_, _, cs'). cs') (register_client_socket (ro_write os) (ro_accept os) cs)
      else Some cs)"

definition server_round ::
  "(string \<Rightarrow> json option) \<Rightarrow> json \<Rightarrow> round_os \<Rightarrow> TcpServer \<Rightarrow> ClientSockets \<Rightarrow> round_end option" where
  "server_round parse c os s cs =
     (case watch_sets s cs of
        None \<Rightarrow> None
      | Some (rd, wr, max_fd) \<Rightarrow>
          (case ro_select os (max_fd + 1) rd wr of
             SelectInterrupted \<Rightarrow> Some (Continues cs)
           | SelectFailed \<Rightarrow> Some (Breaks cs)
           | SelectReady read_fds write_fds \<Rightarrow>
               (case (if wake_fd s \<in> read_fds then drain_wakes cs else Some cs) of
                  None \<Rightarrow> None
                | Some cs1 \<Rightarrow>
                    (case (if server_fd s \<in> read_fds then accept_client os cs1 else Some cs1) of
                       None \<Rightarrow> None
                     | Some cs2 \<Rightarrow>
                         map_option (\<lambda>(_, _, cs3). Continues cs3)
                           (handle_ready_events parse c read_fds write_fds (ro_read os) (ro_send os) (ro_now os) cs2)))))"

text \<open>The loop over the rounds until it breaks or another thread cleared \<open>running_\<close>.\<close>

partial_function (option) run_loop ::
  "(string \<Rightarrow> json option) \<Rightarrow> json \<Rightarrow> (nat \<Rightarrow> round_os) \<Rightarrow> (nat \<Rightarrow> bool) \<Rightarrow> nat \<Rightarrow> TcpServer \<Rightarrow> ClientSockets \<Rightarrow>
     ClientSockets option option" where
  "run_loop parse c os go k s cs =
     (if go k then
        (case server_round parse c (os k) s cs of
           None \<Rightarrow> Some None
         | Some (Breaks cs') \<Rightarrow> Some (Some cs')
         | Some (Continues cs') \<Rightarrow> run_loop parse c os go (Suc k) s cs')
      else Some (Some cs))"

definition start_server ::
  "(string \<Rightarrow> json option) \<Rightarrow> json \<Rightarrow> (nat \<Rightarrow> round_os) \<Rightarrow> (nat \<Rightarrow> bool) \<Rightarrow> TcpServer \<Rightarrow> ClientSockets \<Rightarrow>
     ClientSockets option option" where
  "start_server parse c os go s cs = (if running s then Some (Some cs) else run_loop parse c os go 0 (s\<lparr>running := True\<rparr>) cs)"

section \<open>The program\<close>

text \<open>
  \<open>main\<close> up to the exit code: the configuration, the number of connection slots and of workers (a
  negative number makes \<open>reserve\<close> throw), the listening socket, the loop. \<open>readf\<close> gives the contents of
  a file. None: the loop does not end, or leaves C++'s defined behaviour.
\<close>

definition server_main ::
  "(string \<Rightarrow> json option) \<Rightarrow> (string \<Rightarrow> string option) \<Rightarrow> string list \<Rightarrow> socket_os \<Rightarrow> (nat \<Rightarrow> round_os) \<Rightarrow> (nat \<Rightarrow> bool) \<Rightarrow>
     int option" where
  "server_main parse readf argv os ros go =
     (let config_file = (if length argv \<ge> 2 then argv ! 1 else ''config/config.json'');
          c = snd (loadFromFile parse (readf config_file) JNull)
      in if getMaxConcurrentTests c < 0 \<or> getWorkerThreadCount c < 0 then Some 1
         else
           (case snd (construct_server os (getServerPort c) True True) of
              Inl _ \<Rightarrow> Some 1
            | Inr server \<Rightarrow>
                (case start_server parse c ros go server (new_client_sockets (nat (getMaxConcurrentTests c))) of
                   Some (Some _) \<Rightarrow> Some 0
                 | _ \<Rightarrow> None)))"

end
