(* ===== verification/Doubles.thy ===== *)
theory Doubles
  imports Prelude Complex_Main "HOL-Library.Log_Nat"
begin

text \<open>
  IEEE double precision as the sources use it: a finite \<open>double\<close> is the rational number it denotes, and
  every operation rounds its exact result to the nearest one, ties to even. Negative zero is zero.
\<close>

section \<open>Rounding\<close>

definition pow_int :: "rat \<Rightarrow> int \<Rightarrow> rat" where
  "pow_int b e = (if 0 \<le> e then b ^ nat e else 1 / b ^ nat (- e))"

definition floor_log2 :: "rat \<Rightarrow> int" where
  "floor_log2 q =
     (case quotient_of q of
        (a, b) \<Rightarrow> let k = int (floorlog 2 (nat a)) - int (floorlog 2 (nat b)) in if pow_int 2 k \<le> q then k else k - 1)"

definition round_half_even :: "rat \<Rightarrow> int" where
  "round_half_even x =
     (let f = \<lfloor>x\<rfloor>; d = x - of_int f in
      if d < 1 / 2 then f else if d > 1 / 2 then f + 1 else if even f then f else f + 1)"

definition round_double :: "rat \<Rightarrow> rat option" where
  "round_double q =
     (if q = 0 then Some 0
      else
        let m = \<bar>q\<bar>; p = max (floor_log2 m - 52) (- 1074); r = of_int (round_half_even (m / pow_int 2 p)) * pow_int 2 p in
        if r \<ge> pow_int 2 1024 then None else Some (if q < 0 then - r else r))"

section \<open>Rounding is monotone\<close>

lemma pow_int_powi: "pow_int b e = b powi e"
  by (simp add: pow_int_def power_int_def inverse_eq_divide power_one_over)

lemma pow_int_pos [simp]: "0 < pow_int 2 e"
  by (simp add: pow_int_def)

lemma pow_int_sign [simp]: "pow_int 2 e \<noteq> 0" "0 \<le> pow_int 2 e"
  using pow_int_pos [of e] by (linarith, linarith)

lemma pow_int_add: "pow_int 2 (a + b) = pow_int 2 a * pow_int 2 b"
  by (simp add: pow_int_powi power_int_add)

lemma pow_int_less: "a < b \<Longrightarrow> pow_int 2 a < pow_int 2 b"
  unfolding pow_int_powi by (rule power_int_strict_increasing) simp_all

lemma pow_int_le_iff: "pow_int 2 a \<le> pow_int 2 b \<longleftrightarrow> a \<le> b"
  using pow_int_less [of a b] pow_int_less [of b a] by (cases a b rule: linorder_cases) auto

lemma pow_int_nat: "pow_int 2 (int n) = 2 ^ n"
  by (simp add: pow_int_def)

lemma pow_int_integer: "0 \<le> e \<Longrightarrow> pow_int 2 e = of_int (2 ^ nat e)"
  by (simp add: pow_int_def)

lemma bit_bounds:
  assumes "0 < n"
  shows "pow_int 2 (int (floorlog 2 (nat n)) - 1) \<le> of_int n" "of_int n < pow_int 2 (int (floorlog 2 (nat n)))"
proof -
  let ?l = "floorlog 2 (nat n)"
  have l: "0 < ?l" using assms floorlog_eq_zero_iff [of 2 "nat n"] by auto
  have "2 ^ (?l - 1) \<le> nat n" "nat n < 2 ^ ?l" using floorlog_bounds [of "nat n" 2] assms by simp_all
  then have "2 ^ (?l - 1) \<le> n" "n < 2 ^ ?l" using assms by (simp_all add: le_nat_iff nat_less_iff)
  then have lo: "of_int (2 ^ (?l - 1)) \<le> (of_int n :: rat)" and hi: "(of_int n :: rat) < of_int (2 ^ ?l)"
    by (simp_all only: of_int_le_iff of_int_less_iff)
  have "pow_int 2 (int ?l - 1) = of_int (2 ^ (?l - 1))" using l by (subst pow_int_integer) (simp_all add: nat_diff_distrib)
  then show "pow_int 2 (int ?l - 1) \<le> of_int n" using lo by simp
  show "of_int n < pow_int 2 (int ?l)" using hi by (simp add: pow_int_nat)
qed

lemma floor_log2_bounds:
  assumes "0 < q"
  shows "pow_int 2 (floor_log2 q) \<le> q" "q < pow_int 2 (floor_log2 q + 1)"
proof -
  obtain a b where ab: "quotient_of q = (a, b)" by (cases "quotient_of q")
  then have b: "0 < b" using quotient_of_denom_pos by blast
  have q: "q = of_int a / of_int b" using quotient_of_div [OF ab] .
  with assms b have a: "0 < a" by (simp add: zero_less_divide_iff)
  let ?la = "int (floorlog 2 (nat a))" and ?lb = "int (floorlog 2 (nat b))"
  let ?k = "?la - ?lb"
  note bounds = bit_bounds [OF a] bit_bounds [OF b]
  have "q * of_int b = of_int a" using q b by simp
  have "pow_int 2 (?k - 1) * of_int b < pow_int 2 (?k - 1) * pow_int 2 ?lb" using bounds(4) by simp
  also have "\<dots> = pow_int 2 (?la - 1)" by (simp add: pow_int_add [symmetric])
  also have "\<dots> \<le> q * of_int b" using bounds(1) \<open>q * of_int b = of_int a\<close> by simp
  finally have lo: "pow_int 2 (?k - 1) \<le> q" using b by simp
  have "q * of_int b < pow_int 2 (?k + 1) * pow_int 2 (?lb - 1)"
    using bounds(2) \<open>q * of_int b = of_int a\<close> by (simp add: pow_int_add [symmetric])
  also have "\<dots> \<le> pow_int 2 (?k + 1) * of_int b" using bounds(3) by simp
  finally have hi: "q < pow_int 2 (?k + 1)" using b by simp
  have fl: "floor_log2 q = (if pow_int 2 ?k \<le> q then ?k else ?k - 1)" by (simp add: floor_log2_def ab Let_def)
  show "pow_int 2 (floor_log2 q) \<le> q" "q < pow_int 2 (floor_log2 q + 1)" using lo hi unfolding fl by (auto simp: not_le)
qed

lemma floor_log2_mono: "0 < q \<Longrightarrow> q \<le> r \<Longrightarrow> floor_log2 q \<le> floor_log2 r"
proof -
  assume "0 < q" "q \<le> r"
  then have "pow_int 2 (floor_log2 q) < pow_int 2 (floor_log2 r + 1)"
    using floor_log2_bounds(1) [of q] floor_log2_bounds(2) [of r] by linarith
  then have "\<not> floor_log2 r + 1 \<le> floor_log2 q" using pow_int_le_iff [of "floor_log2 r + 1" "floor_log2 q"] by linarith
  then show ?thesis by simp
qed

lemma round_half_even_bounds: "\<lfloor>x\<rfloor> \<le> round_half_even x" "round_half_even x \<le> \<lfloor>x\<rfloor> + 1" "\<bar>of_int (round_half_even x) - x\<bar> \<le> 1 / 2"
proof -
  show "\<lfloor>x\<rfloor> \<le> round_half_even x" "round_half_even x \<le> \<lfloor>x\<rfloor> + 1" by (simp_all add: round_half_even_def Let_def)
  have "0 \<le> x - of_int \<lfloor>x\<rfloor>" "x - of_int \<lfloor>x\<rfloor> < 1" by linarith+
  then show "\<bar>of_int (round_half_even x) - x\<bar> \<le> 1 / 2" by (auto simp: round_half_even_def Let_def)
qed

lemma round_half_even_int [simp]: "round_half_even (of_int n) = n"
  by (simp add: round_half_even_def)

lemma round_half_even_mono: "x \<le> y \<Longrightarrow> round_half_even x \<le> round_half_even y"
proof -
  assume xy: "x \<le> y"
  then have fl: "\<lfloor>x\<rfloor> \<le> \<lfloor>y\<rfloor>" by (rule floor_mono)
  show ?thesis
  proof (cases "\<lfloor>x\<rfloor> = \<lfloor>y\<rfloor>")
    case True
    with xy have "x - of_int \<lfloor>x\<rfloor> \<le> y - of_int \<lfloor>y\<rfloor>" by simp
    with True show ?thesis by (auto simp: round_half_even_def Let_def)
  next
    case False
    then show ?thesis using fl round_half_even_bounds(2) [of x] round_half_even_bounds(1) [of y] by linarith
  qed
qed

text \<open>The value of a rounding, with infinity as the power of two that no finite \<open>double\<close> reaches.\<close>

definition round_unit :: "rat \<Rightarrow> int" where
  "round_unit m = max (floor_log2 m - 52) (- 1074)"

definition round_magnitude :: "rat \<Rightarrow> rat" where
  "round_magnitude m = of_int (round_half_even (m / pow_int 2 (round_unit m))) * pow_int 2 (round_unit m)"

definition fround :: "rat \<Rightarrow> rat" where
  "fround q = (case round_double q of Some r \<Rightarrow> r | None \<Rightarrow> if q < 0 then - pow_int 2 1024 else pow_int 2 1024)"

lemma round_double_magnitude:
  "round_double q = (if q = 0 then Some 0
     else if round_magnitude \<bar>q\<bar> \<ge> pow_int 2 1024 then None else Some (if q < 0 then - round_magnitude \<bar>q\<bar> else round_magnitude \<bar>q\<bar>))"
  by (simp add: round_double_def round_magnitude_def round_unit_def Let_def)

lemma fround_pos: "0 < q \<Longrightarrow> fround q = min (round_magnitude q) (pow_int 2 1024)"
  by (simp add: fround_def round_double_magnitude)

lemma fround_zero [simp]: "fround 0 = 0"
  by (simp add: fround_def round_double_def)

lemma fround_minus: "fround (- q) = - fround q"
  by (simp add: fround_def round_double_magnitude)

lemma round_above:
  assumes "0 < m" "pow_int 2 e \<le> m" "round_unit m \<le> e"
  shows "pow_int 2 e \<le> round_magnitude m"
proof -
  let ?p = "round_unit m"
  have split: "pow_int 2 e = of_int (2 ^ nat (e - ?p)) * pow_int 2 ?p"
    using assms(3) pow_int_add [of "e - ?p" ?p] pow_int_integer [of "e - ?p"] by simp
  then have "of_int (2 ^ nat (e - ?p)) \<le> m / pow_int 2 ?p" using assms(2) by (simp add: le_divide_eq)
  from round_half_even_mono [OF this] have "2 ^ nat (e - ?p) \<le> round_half_even (m / pow_int 2 ?p)" by (simp only: round_half_even_int)
  then have "(of_int (2 ^ nat (e - ?p)) :: rat) \<le> of_int (round_half_even (m / pow_int 2 ?p))" by (simp only: of_int_le_iff)
  then show ?thesis unfolding split round_magnitude_def by simp
qed

lemma round_below:
  assumes "0 < m" "m \<le> pow_int 2 e" "round_unit m \<le> e"
  shows "round_magnitude m \<le> pow_int 2 e"
proof -
  let ?p = "round_unit m"
  have split: "pow_int 2 e = of_int (2 ^ nat (e - ?p)) * pow_int 2 ?p"
    using assms(3) pow_int_add [of "e - ?p" ?p] pow_int_integer [of "e - ?p"] by simp
  then have "m / pow_int 2 ?p \<le> of_int (2 ^ nat (e - ?p))" using assms(2) by (simp add: divide_le_eq)
  from round_half_even_mono [OF this] have "round_half_even (m / pow_int 2 ?p) \<le> 2 ^ nat (e - ?p)" by (simp only: round_half_even_int)
  then have "(of_int (round_half_even (m / pow_int 2 ?p)) :: rat) \<le> of_int (2 ^ nat (e - ?p))" by (simp only: of_int_le_iff)
  then show ?thesis unfolding split round_magnitude_def by simp
qed

lemma round_magnitude_mono:
  assumes "0 < m" "m \<le> n"
  shows "round_magnitude m \<le> round_magnitude n"
proof (cases "round_unit m = round_unit n")
  case True
  have "m / pow_int 2 (round_unit m) \<le> n / pow_int 2 (round_unit m)" using assms(2) by (rule divide_right_mono) (rule less_imp_le [OF pow_int_pos])
  then show ?thesis using round_half_even_mono unfolding round_magnitude_def True [symmetric] by simp
next
  case False
  let ?e = "floor_log2 n"
  have "0 < n" using assms by simp
  have "floor_log2 m \<le> ?e" using floor_log2_mono [OF assms] .
  with False have units: "floor_log2 m < ?e" "round_unit n = ?e - 52" "round_unit m \<le> ?e" by (auto simp: round_unit_def)
  have "pow_int 2 (floor_log2 m + 1) \<le> pow_int 2 ?e" using units(1) by (simp add: pow_int_le_iff)
  then have "m \<le> pow_int 2 ?e" using floor_log2_bounds(2) [OF assms(1)] by simp
  then have "round_magnitude m \<le> pow_int 2 ?e" using round_below [OF assms(1)] units(3) by simp
  also have "\<dots> \<le> round_magnitude n" using round_above [OF \<open>0 < n\<close> floor_log2_bounds(1) [OF \<open>0 < n\<close>]] units(2) by simp
  finally show ?thesis .
qed

lemma round_magnitude_nonneg: "0 < m \<Longrightarrow> 0 \<le> round_magnitude m"
proof -
  assume "0 < m"
  then have "of_int 0 \<le> m / pow_int 2 (round_unit m)" using less_imp_le [OF pow_int_pos] by simp
  from round_half_even_mono [OF this] have "0 \<le> round_half_even (m / pow_int 2 (round_unit m))" by (simp only: round_half_even_int)
  then show ?thesis unfolding round_magnitude_def using less_imp_le [OF pow_int_pos] by (intro mult_nonneg_nonneg) simp_all
qed

text \<open>Rounding is monotone: whatever the order of two exact values, their roundings keep it.\<close>

lemma fround_mono: "q \<le> r \<Longrightarrow> fround q \<le> fround r"
proof -
  have pos: "fround q \<le> fround r" if "0 < q" "q \<le> r" for q r
    using that round_magnitude_mono [OF that] fround_pos [of q] fround_pos [of r] by (auto simp: min_def)
  have sign: "0 \<le> fround q" if "0 \<le> q" for q
    using that round_magnitude_nonneg [of q] fround_pos [of q] by (cases "q = 0") (auto simp: less_imp_le)
  assume "q \<le> r"
  then consider "0 < q" | "q \<le> 0" "0 \<le> r" | "r < 0" by linarith
  then show ?thesis
  proof cases
    case 1
    then show ?thesis using pos \<open>q \<le> r\<close> by blast
  next
    case 2
    then show ?thesis using sign [of r] sign [of "- q"] fround_minus [of q] by linarith
  next
    case 3
    then show ?thesis using pos [of "- r" "- q"] \<open>q \<le> r\<close> fround_minus [of q] fround_minus [of r] by linarith
  qed
qed

section \<open>The error of a rounding\<close>

lemma round_magnitude_error:
  assumes "0 < m"
  shows "\<bar>round_magnitude m - m\<bar> \<le> m * pow_int 2 (- 53) + pow_int 2 (- 1075)"
proof -
  let ?p = "round_unit m"
  have pos: "0 < pow_int 2 ?p" by simp
  have half: "pow_int 2 (- 1) = 1 / 2" by (simp add: pow_int_def)
  have "round_magnitude m - m = (of_int (round_half_even (m / pow_int 2 ?p)) - m / pow_int 2 ?p) * pow_int 2 ?p"
    using pos by (simp add: round_magnitude_def left_diff_distrib)
  then have "\<bar>round_magnitude m - m\<bar> = \<bar>of_int (round_half_even (m / pow_int 2 ?p)) - m / pow_int 2 ?p\<bar> * pow_int 2 ?p"
    using pos by (simp add: abs_mult)
  also have "\<dots> \<le> 1 / 2 * pow_int 2 ?p" by (rule mult_right_mono [OF round_half_even_bounds(3)]) (use pos in simp)
  also have "\<dots> = pow_int 2 (?p - 1)" using half pow_int_add [of ?p "- 1"] by simp
  also have "\<dots> \<le> m * pow_int 2 (- 53) + pow_int 2 (- 1075)"
  proof (cases "?p = - 1074")
    case True
    then have "pow_int 2 (?p - 1) = pow_int 2 (- 1075)" by simp
    moreover have "0 \<le> m * pow_int 2 (- 53)" using assms less_imp_le [OF pow_int_pos] by simp
    ultimately show ?thesis by simp
  next
    case False
    then have "?p - 1 = floor_log2 m + - 53" by (auto simp: round_unit_def max_def split: if_splits)
    then have "pow_int 2 (?p - 1) = pow_int 2 (floor_log2 m) * pow_int 2 (- 53)" by (simp only: pow_int_add)
    also have "\<dots> \<le> m * pow_int 2 (- 53)" by (rule mult_right_mono [OF floor_log2_bounds(1) [OF assms]]) (rule less_imp_le [OF pow_int_pos])
    finally show ?thesis using pow_int_pos [of "- 1075"] by linarith
  qed
  finally show ?thesis .
qed

text \<open>In the range of the numbers that are compared, no rounding overflows and its error is small.\<close>

lemma round_constants:
  "pow_int 2 (- 53) \<le> 12 / 10 ^ 17" "pow_int 2 (- 1075) \<le> 1 / 10 ^ 30" "10 ^ 106 \<le> pow_int 2 1024"
  by (simp_all add: pow_int_def)

lemma fround_error:
  assumes "\<bar>q\<bar> \<le> 10 ^ 105"
  shows "\<bar>fround q - q\<bar> \<le> \<bar>q\<bar> * (12 / 10 ^ 17) + 1 / 10 ^ 30"
proof -
  have pos: "\<bar>fround q - q\<bar> \<le> q * (12 / 10 ^ 17) + 1 / 10 ^ 30" if "0 < q" "q \<le> 10 ^ 105" for q
  proof -
    have "q * pow_int 2 (- 53) \<le> q * (12 / 10 ^ 17)" using that(1) round_constants(1) by (intro mult_left_mono) simp_all
    then have err: "\<bar>round_magnitude q - q\<bar> \<le> q * (12 / 10 ^ 17) + 1 / 10 ^ 30"
      using round_magnitude_error [OF that(1)] round_constants(2) by linarith
    have "(10 ^ 106 :: rat) = 10 * 10 ^ 105" by (simp only: power_Suc [symmetric]) simp
    moreover have "q * (12 / 10 ^ 17) \<le> q" using that(1) by simp
    moreover have "(1 / 10 ^ 30 :: rat) \<le> 10 ^ 105" by simp
    ultimately have "round_magnitude q \<le> pow_int 2 1024" using err that(2) round_constants(3) unfolding abs_le_iff by linarith
    then show ?thesis using fround_pos [OF that(1)] err by simp
  qed
  consider "0 < q" | "q = 0" | "0 < - q" by linarith
  then show ?thesis
  proof cases
    case 1
    then show ?thesis using pos [of q] assms by simp
  next
    case 3
    then show ?thesis using pos [of "- q"] assms fround_minus [of q] by (simp add: abs_minus_commute)
  qed simp
qed

section \<open>Decimal texts\<close>

text \<open>
  The decimal texts of \<open>strtod\<close>: a sign, digits with an optional point, an optional exponent. None
  is an overflow to infinity.
\<close>

definition exponent_char :: "char \<Rightarrow> bool" where
  "exponent_char c \<longleftrightarrow> c = CHR ''e'' \<or> c = CHR ''E''"

definition exponent_value :: "string \<Rightarrow> int" where
  "exponent_value s =
     (case split_sign s of (neg, _, ds) \<Rightarrow> if neg then - int (digits_value ds) else int (digits_value ds))"

definition decimal_value :: "string \<Rightarrow> rat" where
  "decimal_value s =
     (case split_sign s of
        (neg, _, body) \<Rightarrow>
          let mantissa = takeWhile (\<lambda>c. \<not> exponent_char c) body; exponent = tl (dropWhile (\<lambda>c. \<not> exponent_char c) body);
              whole = takeWhile is_digit mantissa; fraction = tl (dropWhile is_digit mantissa);
              m = of_nat (digits_value (whole @ fraction)) * pow_int 10 (exponent_value exponent - int (length fraction))
          in if neg then - m else m)"

definition strtod :: "string \<Rightarrow> rat option" where
  "strtod s = round_double (decimal_value s)"

end
