(* ===== verification/JsonLexer.thy ===== *)
theory JsonLexer
  imports Json Doubles
begin

text \<open>
  The lexer of \<open>src/json.hpp\<close> as \<open>json::parse\<close> and \<open>operator>>\<close> use it (no comments, the C locale's
  decimal point). The input is the list of the bytes not yet read; a pushed-back character is one
  that stays in it. Positions and the texts kept for error messages are left out: every error is the
  token \<open>parse_error\<close>.
\<close>

section \<open>Tokens\<close>

datatype token_type =
    literal_true | literal_false | literal_null
  | value_string string
  | value_unsigned nat
  | value_integer int
  | value_float "rat option"
  | begin_array | begin_object | end_array | end_object | name_separator | value_separator
  | parse_error | end_of_input

section \<open>Strings\<close>

definition byte :: "char \<Rightarrow> nat" where
  "byte c = of_char c"

definition hex_value :: "char \<Rightarrow> nat option" where
  "hex_value c =
     (if 48 \<le> byte c \<and> byte c \<le> 57 then Some (byte c - 48)
      else if 65 \<le> byte c \<and> byte c \<le> 70 then Some (byte c - 55)
      else if 97 \<le> byte c \<and> byte c \<le> 102 then Some (byte c - 87)
      else None)"

text \<open>\<open>get_codepoint\<close>: four hexadecimal digits; None for \<open>-1\<close>.\<close>

fun get_codepoint :: "string \<Rightarrow> (nat \<times> string) option" where
  "get_codepoint (a # b # c # d # r) =
     (case (hex_value a, hex_value b, hex_value c, hex_value d) of
        (Some va, Some vb, Some vc, Some vd) \<Rightarrow> Some (va * 4096 + vb * 256 + vc * 16 + vd, r)
      | _ \<Rightarrow> None)"
| "get_codepoint _ = None"

text \<open>\<open>next_byte_in_range\<close>: one more byte for each range.\<close>

fun next_byte_in_range :: "(nat \<times> nat) list \<Rightarrow> string \<Rightarrow> (string \<times> string) option" where
  "next_byte_in_range [] r = Some ([], r)"
| "next_byte_in_range ((lo, hi) # ranges) [] = None"
| "next_byte_in_range ((lo, hi) # ranges) (c # r) =
     (if lo \<le> byte c \<and> byte c \<le> hi
      then map_option (\<lambda>(bs, r'). (c # bs, r')) (next_byte_in_range ranges r)
      else None)"

text \<open>The ranges after a first byte that is not ASCII; None for the bytes that start nothing.\<close>

definition utf8_ranges :: "nat \<Rightarrow> (nat \<times> nat) list option" where
  "utf8_ranges b =
     (if 194 \<le> b \<and> b \<le> 223 then Some [(128, 191)]
      else if b = 224 then Some [(160, 191), (128, 191)]
      else if (225 \<le> b \<and> b \<le> 236) \<or> b = 238 \<or> b = 239 then Some [(128, 191), (128, 191)]
      else if b = 237 then Some [(128, 159), (128, 191)]
      else if b = 240 then Some [(144, 191), (128, 191), (128, 191)]
      else if 241 \<le> b \<and> b \<le> 243 then Some [(128, 191), (128, 191), (128, 191)]
      else if b = 244 then Some [(128, 143), (128, 191), (128, 191)]
      else None)"

text \<open>The bytes of a code point.\<close>

definition add_codepoint :: "nat \<Rightarrow> string" where
  "add_codepoint cp =
     (if cp < 128 then [char_of cp]
      else if cp \<le> 2047 then [char_of (or 192 (drop_bit 6 cp)), char_of (or 128 (and cp 63))]
      else if cp \<le> 65535 then
        [char_of (or 224 (drop_bit 12 cp)), char_of (or 128 (and (drop_bit 6 cp) 63)), char_of (or 128 (and cp 63))]
      else
        [char_of (or 240 (drop_bit 18 cp)), char_of (or 128 (and (drop_bit 12 cp) 63)),
         char_of (or 128 (and (drop_bit 6 cp) 63)), char_of (or 128 (and cp 63))])"

text \<open>What follows \<open>\u\<close>: a code point, a pair of surrogates, or an error.\<close>

definition unicode_escape :: "string \<Rightarrow> (nat \<times> string) option" where
  "unicode_escape r =
     (case get_codepoint r of
        None \<Rightarrow> None
      | Some (codepoint1, r1) \<Rightarrow>
          if 55296 \<le> codepoint1 \<and> codepoint1 \<le> 56319 then
            (case r1 of
               c # d # r2 \<Rightarrow>
                 if c = CHR 0x5C \<and> d = CHR ''u'' then
                   (case get_codepoint r2 of
                      None \<Rightarrow> None
                    | Some (codepoint2, r3) \<Rightarrow>
                        if 56320 \<le> codepoint2 \<and> codepoint2 \<le> 57343
                        then Some (codepoint1 * 1024 + codepoint2 - 56613888, r3) else None)
                 else None
             | _ \<Rightarrow> None)
          else if 56320 \<le> codepoint1 \<and> codepoint1 \<le> 57343 then None
          else Some (codepoint1, r1))"

definition simple_escape :: "char \<Rightarrow> char option" where
  "simple_escape c =
     (if c = CHR 0x22 then Some (CHR 0x22) else if c = CHR 0x5C then Some (CHR 0x5C)
      else if c = CHR ''/'' then Some (CHR ''/'') else if c = CHR ''b'' then Some (CHR 0x08)
      else if c = CHR ''f'' then Some (CHR 0x0C) else if c = CHR ''n'' then Some (CHR 0x0A)
      else if c = CHR ''r'' then Some (CHR 0x0D) else if c = CHR ''t'' then Some (CHR 0x09)
      else None)"

lemma get_codepoint_length: "get_codepoint r = Some (cp, r') \<Longrightarrow> length r' < length r"
  by (cases r rule: get_codepoint.cases) (auto split: option.splits)

lemma next_byte_length: "next_byte_in_range ranges r = Some (bs, r') \<Longrightarrow> length r' \<le> length r"
proof (induction ranges r arbitrary: bs rule: next_byte_in_range.induct)
  case (3 lo hi ranges c r)
  then show ?case by (auto split: if_splits intro: le_SucI)
qed simp_all

lemma unicode_escape_length: "unicode_escape r = Some (cp, r') \<Longrightarrow> length r' < length r"
  unfolding unicode_escape_def
  by (auto split: option.splits if_splits list.splits dest!: get_codepoint_length)

text \<open>One turn of the loop of \<open>scan_string\<close>: the bytes added and the rest, or None for an error.\<close>

definition string_item :: "char \<Rightarrow> string \<Rightarrow> (string \<times> string) option" where
  "string_item c r =
     (if c = CHR 0x5C then
        (case r of
           [] \<Rightarrow> None
         | e # r' \<Rightarrow>
             (case simple_escape e of
                Some x \<Rightarrow> Some ([x], r')
              | None \<Rightarrow> if e = CHR ''u'' then map_option (\<lambda>(cp, r''). (add_codepoint cp, r'')) (unicode_escape r') else None))
      else if byte c < 32 then None
      else if byte c \<le> 127 then Some ([c], r)
      else
        (case utf8_ranges (byte c) of
           None \<Rightarrow> None
         | Some ranges \<Rightarrow> map_option (\<lambda>(bs, r'). (c # bs, r')) (next_byte_in_range ranges r)))"

lemma string_item_length: "string_item c r = Some (bs, r') \<Longrightarrow> length r' \<le> length r"
  unfolding string_item_def
  by (auto split: if_splits list.splits option.splits dest!: unicode_escape_length next_byte_length)

function scan_string :: "string \<Rightarrow> string \<Rightarrow> (string \<times> string) option" where
  "scan_string token_buffer [] = None"
| "scan_string token_buffer (c # r) =
     (if c = CHR 0x22 then Some (token_buffer, r)
      else case string_item c r of None \<Rightarrow> None | Some (bs, r') \<Rightarrow> scan_string (token_buffer @ bs) r')"
  by pat_completeness auto
termination
  by (relation "measure (\<lambda>(b, r). length r)") (auto dest!: string_item_length)

lemma scan_string_length: "scan_string b r = Some (s, r') \<Longrightarrow> length r' < length r"
  by (induction b r rule: scan_string.induct) (fastforce split: if_splits option.splits dest: string_item_length)+

section \<open>Numbers\<close>

datatype number_state = n_minus | n_zero | n_any1 | n_decimal1 | n_decimal2 | n_exponent | n_sign | n_any2

datatype number_move = Goto number_state | Done | Failure

text \<open>The labels of \<open>scan_number\<close> and the jumps between them.\<close>

fun number_step :: "number_state \<Rightarrow> char \<Rightarrow> number_move" where
  "number_step n_minus c = (if c = CHR ''0'' then Goto n_zero else if is_digit c then Goto n_any1 else Failure)"
| "number_step n_zero c = (if c = CHR ''.'' then Goto n_decimal1 else if exponent_char c then Goto n_exponent else Done)"
| "number_step n_any1 c =
     (if is_digit c then Goto n_any1 else if c = CHR ''.'' then Goto n_decimal1
      else if exponent_char c then Goto n_exponent else Done)"
| "number_step n_decimal1 c = (if is_digit c then Goto n_decimal2 else Failure)"
| "number_step n_decimal2 c = (if is_digit c then Goto n_decimal2 else if exponent_char c then Goto n_exponent else Done)"
| "number_step n_exponent c =
     (if c = CHR ''+'' \<or> c = CHR ''-'' then Goto n_sign else if is_digit c then Goto n_any2 else Failure)"
| "number_step n_sign c = (if is_digit c then Goto n_any2 else Failure)"
| "number_step n_any2 c = (if is_digit c then Goto n_any2 else Done)"

text \<open>At the end of the input the character read is \<open>EOF\<close>, which every label treats as any other.\<close>

fun number_accepts :: "number_state \<Rightarrow> bool" where
  "number_accepts n_zero = True"
| "number_accepts n_any1 = True"
| "number_accepts n_decimal2 = True"
| "number_accepts n_any2 = True"
| "number_accepts _ = False"

datatype number_kind = k_unsigned | k_integer | k_float

fun enter_label :: "number_state \<Rightarrow> number_kind \<Rightarrow> number_kind" where
  "enter_label n_minus k = k_integer"
| "enter_label n_decimal1 k = k_float"
| "enter_label n_exponent k = k_float"
| "enter_label _ k = k"

fun number_loop :: "number_state \<Rightarrow> number_kind \<Rightarrow> string \<Rightarrow> string \<Rightarrow> (number_kind \<times> string \<times> string) option" where
  "number_loop st k token_buffer [] = (if number_accepts st then Some (enter_label st k, token_buffer, []) else None)"
| "number_loop st k token_buffer (c # r) =
     (case number_step st c of
        Goto st' \<Rightarrow> number_loop st' (enter_label st k) (token_buffer @ [c]) r
      | Done \<Rightarrow> Some (enter_label st k, token_buffer, c # r)
      | Failure \<Rightarrow> None)"

lemma number_loop_length: "number_loop st k b r = Some (k', b', r') \<Longrightarrow> length r' \<le> length r"
  by (induction st k b r rule: number_loop.induct) (auto split: if_splits number_move.splits)

text \<open>The conversions at \<open>scan_number_done\<close>: integers that do not fit fall back to \<open>double\<close>.\<close>

definition number_token :: "number_kind \<Rightarrow> string \<Rightarrow> token_type" where
  "number_token k token_buffer =
     (if k = k_unsigned \<and> digits_value token_buffer < 2 ^ 64 then value_unsigned (digits_value token_buffer)
      else if k = k_integer \<and> digits_value (tl token_buffer) \<le> 2 ^ 63 then value_integer (- int (digits_value (tl token_buffer)))
      else value_float (strtod token_buffer))"

definition lexer_scan_number :: "char \<Rightarrow> string \<Rightarrow> token_type \<times> string" where
  "lexer_scan_number current r =
     (let st = (if current = CHR ''-'' then n_minus else if current = CHR ''0'' then n_zero else n_any1) in
      case number_loop st k_unsigned [current] r of
        None \<Rightarrow> (parse_error, r)
      | Some (k, token_buffer, r') \<Rightarrow> (number_token k token_buffer, r'))"

section \<open>The scanner\<close>

definition is_ws :: "char \<Rightarrow> bool" where
  "is_ws c \<longleftrightarrow> c = CHR '' '' \<or> c = CHR 0x09 \<or> c = CHR 0x0A \<or> c = CHR 0x0D"

text \<open>\<open>scan_literal\<close>: the characters after the first; an error may stop within the text.\<close>

definition scan_literal :: "string \<Rightarrow> token_type \<Rightarrow> string \<Rightarrow> token_type \<times> string" where
  "scan_literal literal_text return_type r =
     (if take (length literal_text) r = literal_text then (return_type, drop (length literal_text) r) else (parse_error, r))"

text \<open>\<open>skip_bom\<close>: None when the input starts like a byte order mark and is none.\<close>

definition skip_bom :: "string \<Rightarrow> string option" where
  "skip_bom r =
     (case r of
        c # r' \<Rightarrow> if c = CHR 0xEF then (if take 2 r' = [CHR 0xBB, CHR 0xBF] then Some (drop 2 r') else None) else Some r
      | [] \<Rightarrow> Some r)"

text \<open>A NUL byte is the end of the input, too.\<close>

definition scan :: "string \<Rightarrow> token_type \<times> string" where
  "scan input =
     (case dropWhile is_ws input of
        [] \<Rightarrow> (end_of_input, [])
      | c # r \<Rightarrow>
          if c = CHR ''['' then (begin_array, r)
          else if c = CHR '']'' then (end_array, r)
          else if c = CHR ''{'' then (begin_object, r)
          else if c = CHR ''}'' then (end_object, r)
          else if c = CHR '':'' then (name_separator, r)
          else if c = CHR '','' then (value_separator, r)
          else if c = CHR ''t'' then scan_literal ''rue'' literal_true r
          else if c = CHR ''f'' then scan_literal ''alse'' literal_false r
          else if c = CHR ''n'' then scan_literal ''ull'' literal_null r
          else if c = CHR 0x22 then (case scan_string [] r of None \<Rightarrow> (parse_error, r) | Some (s, r') \<Rightarrow> (value_string s, r'))
          else if c = CHR ''-'' \<or> is_digit c then lexer_scan_number c r
          else if c = CHR 0x00 then (end_of_input, r)
          else (parse_error, r))"

definition first_scan :: "string \<Rightarrow> token_type \<times> string" where
  "first_scan input = (case skip_bom input of None \<Rightarrow> (parse_error, input) | Some r \<Rightarrow> scan r)"

lemma scan_number_length: "length (snd (lexer_scan_number c r)) \<le> length r"
  by (auto simp: lexer_scan_number_def Let_def split: option.splits dest!: number_loop_length)

lemma scan_literal_length: "scan_literal lit tok r = (t, r') \<Longrightarrow> length r' \<le> length r"
  by (auto simp: scan_literal_def split: if_splits)

text \<open>Every token but the two last ones takes a character.\<close>

lemma scan_length:
  assumes "scan input = (t, r)"
  shows "length r \<le> length input \<and> (length r < length input \<or> t = end_of_input \<or> t = parse_error)"
proof (cases "dropWhile is_ws input")
  case Nil
  with assms show ?thesis by (simp add: scan_def)
next
  case (Cons c r')
  have len: "Suc (length r') \<le> length input" using length_dropWhile_le [of is_ws input] Cons by simp
  show ?thesis
    using assms Cons len scan_number_length [of c r']
    by (auto simp: scan_def split: if_splits option.splits dest!: scan_string_length scan_literal_length)
qed

end
