(* ===== verification/JsonParser.thy ===== *)
theory JsonParser
  imports JsonLexer JsonDump
begin

text \<open>
  The parser of \<open>src/json.hpp\<close>: the loop of \<open>sax_parse_internal\<close> with its stack of open arrays and
  objects, and the values that \<open>json_sax_dom_parser\<close> builds. The vector \<open>states\<close> and the stack of
  references are one list of frames; a finished value is put into its parent when it is complete,
  which no one can tell from building it in place, since an error discards everything.
\<close>

section \<open>The loop\<close>

datatype parse_frame = ArrayFrame "json list" | ObjectFrame "(string \<times> json) list" string

text \<open>\<open>operator[]\<close> of the member map and the assignment through \<open>object_element\<close>.\<close>

fun obj_set :: "string \<Rightarrow> json \<Rightarrow> (string \<times> json) list \<Rightarrow> (string \<times> json) list" where
  "obj_set k v [] = [(k, v)]"
| "obj_set k v ((k', v') # ms) =
     (if k < k' then (k, v) # (k', v') # ms else if k = k' then (k, v) # ms else (k', v') # obj_set k v ms)"

text \<open>
  A turn of the loop either looks at the last token, or, after a value, at the state on the stack
  (\<open>skip_to_state_evaluation\<close> goes there, too).
\<close>

datatype parse_phase = Token token_type | State json

fun phase_weight :: "parse_phase \<Rightarrow> nat" where
  "phase_weight (Token t) = (if t = end_of_input \<or> t = parse_error then 0 else 1)"
| "phase_weight (State v) = 0"

text \<open>The key and the separator before a member's value.\<close>

definition scan_key :: "token_type \<Rightarrow> string \<Rightarrow> (string \<times> string) option" where
  "scan_key t r =
     (case t of
        value_string k \<Rightarrow> (case scan r of (t', r') \<Rightarrow> if t' = name_separator then Some (k, r') else None)
      | _ \<Rightarrow> None)"

lemma scan_key_length: "scan_key t r = Some (k, r') \<Longrightarrow> length r' < length r"
  by (auto simp: scan_key_def split: token_type.splits prod.splits if_splits dest!: scan_length)

lemma scan_measure:
  assumes "scan r = (t, r')"
  shows "2 * length r' + phase_weight (Token t) \<le> 2 * length r" "t \<noteq> end_of_input \<Longrightarrow> t \<noteq> parse_error \<Longrightarrow> length r' < length r"
  using scan_length [OF assms] by auto

function sax_parse_internal :: "parse_phase \<Rightarrow> string \<Rightarrow> parse_frame list \<Rightarrow> (json \<times> string) option" where
  "sax_parse_internal (Token t) r states =
     (case t of
        begin_object \<Rightarrow>
          (case scan r of
             (t1, r1) \<Rightarrow>
               if t1 = end_object then sax_parse_internal (State (JObject [])) r1 states
               else
                 (case scan_key t1 r1 of
                    None \<Rightarrow> None
                  | Some (k, r2) \<Rightarrow>
                      (case scan r2 of (t3, r3) \<Rightarrow> sax_parse_internal (Token t3) r3 (ObjectFrame [] k # states))))
      | begin_array \<Rightarrow>
          (case scan r of
             (t1, r1) \<Rightarrow>
               if t1 = end_array then sax_parse_internal (State (JArray [])) r1 states
               else sax_parse_internal (Token t1) r1 (ArrayFrame [] # states))
      | value_float q \<Rightarrow> (case q of None \<Rightarrow> None | Some x \<Rightarrow> sax_parse_internal (State (JFloat x)) r states)
      | literal_false \<Rightarrow> sax_parse_internal (State (JBoolean False)) r states
      | literal_null \<Rightarrow> sax_parse_internal (State JNull) r states
      | literal_true \<Rightarrow> sax_parse_internal (State (JBoolean True)) r states
      | value_integer i \<Rightarrow> sax_parse_internal (State (JInteger i)) r states
      | value_string s \<Rightarrow> sax_parse_internal (State (JString s)) r states
      | value_unsigned n \<Rightarrow> sax_parse_internal (State (JUnsigned n)) r states
      | _ \<Rightarrow> None)"
| "sax_parse_internal (State v) r [] = Some (v, r)"
| "sax_parse_internal (State v) r (ArrayFrame vs # states) =
     (case scan r of
        (t1, r1) \<Rightarrow>
          if t1 = value_separator then
            (case scan r1 of (t2, r2) \<Rightarrow> sax_parse_internal (Token t2) r2 (ArrayFrame (vs @ [v]) # states))
          else if t1 = end_array then sax_parse_internal (State (JArray (vs @ [v]))) r1 states
          else None)"
| "sax_parse_internal (State v) r (ObjectFrame ms key # states) =
     (case scan r of
        (t1, r1) \<Rightarrow>
          if t1 = value_separator then
            (case scan r1 of
               (t2, r2) \<Rightarrow>
                 (case scan_key t2 r2 of
                    None \<Rightarrow> None
                  | Some (k, r3) \<Rightarrow>
                      (case scan r3 of (t4, r4) \<Rightarrow> sax_parse_internal (Token t4) r4 (ObjectFrame (obj_set key v ms) k # states))))
          else if t1 = end_object then sax_parse_internal (State (JObject (obj_set key v ms))) r1 states
          else None)"
  by pat_completeness auto
termination
  by (relation "measure (\<lambda>(ph, r, states). 2 * length r + phase_weight ph)")
    (auto dest!: sym [where t = "scan _"] scan_length scan_key_length)

declare sax_parse_internal.simps(1) [simp del]

text \<open>\<open>json::parse\<close> (strict: nothing may follow the value) and \<open>operator>>\<close>; None is the exception.\<close>

definition json_parse :: "string \<Rightarrow> json option" where
  "json_parse input =
     (case first_scan input of
        (t, r) \<Rightarrow>
          (case sax_parse_internal (Token t) r [] of
             None \<Rightarrow> None
           | Some (v, r') \<Rightarrow> if fst (scan r') \<noteq> end_of_input then None else Some v))"

definition json_read :: "string \<Rightarrow> json option" where
  "json_read input =
     (case first_scan input of (t, r) \<Rightarrow> map_option fst (sax_parse_internal (Token t) r []))"

end
