(* ===== verification/JsonRoundtrip.thy ===== *)
theory JsonRoundtrip
  imports JsonParser
begin

text \<open>
  The parser reads back what the serializer writes. For strings this joins two different treatments
  of UTF-8: the table-driven automaton of the serializer and the byte ranges of the lexer.
\<close>

section \<open>The automaton by ranges\<close>

definition byte_class :: "nat \<Rightarrow> nat" where
  "byte_class b =
     (if b < 128 then 0 else if b < 144 then 1 else if b < 160 then 9 else if b < 192 then 7
      else if b < 194 then 8 else if b < 224 then 2 else if b = 224 then 10 else if b = 237 then 4
      else if b < 240 then 3 else if b = 240 then 11 else if b < 244 then 6 else if b = 244 then 5 else 8)"

lemma utf8d_class: "b < 256 \<Longrightarrow> utf8d ! b = byte_class b"
proof -
  assume b: "b < 256"
  show ?thesis
  proof (cases "b < 224")
    case True
    then show ?thesis by (auto simp: byte_class_def utf8d_def nth_append nth_Cons' less_Suc_eq)
  next
    case False
    then have "b - 224 < 32" "b = 224 + (b - 224)" using b by simp_all
    then obtain k where k: "b = 224 + k" "k < 32" by blast
    then have "k \<in> set [0..<32]" by simp
    then show ?thesis unfolding k(1) by (simp add: upt_rec utf8d_def nth_append byte_class_def) (elim disjE; simp)
  qed
qed

text \<open>The states of the automaton, with the ranges that complete a character.\<close>

definition state_ranges :: "nat \<Rightarrow> (nat \<times> nat) list" where
  "state_ranges st =
     (if st = 2 then [(128, 191)]
      else if st = 3 then [(128, 191), (128, 191)]
      else if st = 4 then [(160, 191), (128, 191)]
      else if st = 5 then [(128, 159), (128, 191)]
      else if st = 6 then [(144, 191), (128, 191), (128, 191)]
      else if st = 7 then [(128, 191), (128, 191), (128, 191)]
      else if st = 8 then [(128, 143), (128, 191), (128, 191)]
      else [])"

text \<open>The state after the first range of a state is met.\<close>

definition state_next :: "nat \<Rightarrow> nat" where
  "state_next st = (if st = 2 then 0 else if st = 3 \<or> st = 4 \<or> st = 5 then 2 else 3)"

definition state_classes :: "nat \<Rightarrow> nat list" where
  "state_classes st =
     (if st = 4 then [7] else if st = 5 then [1, 9] else if st = 6 then [7, 9] else if st = 8 then [1] else [1, 7, 9])"

lemma utf8d_row:
  assumes "st \<in> {2, 3, 4, 5, 6, 7, 8}" "t \<in> set [0..<12]"
  shows "utf8d ! (256 + st * 16 + t) = (if t \<in> set (state_classes st) then state_next st else 1)"
proof -
  have "\<forall>t \<in> set [0..<12]. utf8d ! (256 + st * 16 + t) = (if t \<in> set (state_classes st) then state_next st else 1)"
    if "st = 2 \<or> st = 3 \<or> st = 4 \<or> st = 5 \<or> st = 6 \<or> st = 7 \<or> st = 8"
    using that by (elim disjE) (simp_all add: upt_rec utf8d_def nth_append state_classes_def state_next_def)
  with assms show ?thesis by auto
qed

lemma utf8d_first_row:
  assumes "t \<in> set [0..<12]"
  shows "utf8d ! (256 + t) = [0, 1, 2, 3, 5, 8, 7, 1, 1, 1, 4, 6] ! t"
proof -
  have "\<forall>t \<in> set [0..<12]. utf8d ! (256 + t) = [0, 1, 2, 3, 5, 8, 7, 1, 1, 1, 4, 6] ! t"
    by (simp add: upt_rec utf8d_def nth_append)
  with assms show ?thesis by blast
qed

lemma byte_class_bound: "byte_class b \<in> set [0..<12]"
  by (simp add: byte_class_def)

lemma utf8d_continue:
  assumes "st \<in> {2, 3, 4, 5, 6, 7, 8}" "b < 256"
  shows "utf8d ! (256 + st * 16 + utf8d ! b) =
    (if fst (hd (state_ranges st)) \<le> b \<and> b \<le> snd (hd (state_ranges st)) then state_next st else 1)"
proof -
  have "byte_class b \<in> set (state_classes st) \<longleftrightarrow> fst (hd (state_ranges st)) \<le> b \<and> b \<le> snd (hd (state_ranges st))"
    using assms(1) by (auto simp: byte_class_def state_classes_def state_ranges_def)
  then show ?thesis using utf8d_row [OF assms(1) byte_class_bound] utf8d_class [OF assms(2)] by simp
qed

lemma utf8d_begin:
  assumes "128 \<le> b" "b < 256"
  shows "case utf8_ranges b of
      None \<Rightarrow> utf8d ! (256 + utf8d ! b) = 1
    | Some rs \<Rightarrow> utf8d ! (256 + utf8d ! b) \<in> {2, 3, 4, 5, 6, 7, 8} \<and> rs = state_ranges (utf8d ! (256 + utf8d ! b))"
  using assms(1) unfolding utf8d_class [OF assms(2)] utf8d_first_row [OF byte_class_bound]
  by (simp add: byte_class_def utf8_ranges_def state_ranges_def) arith

section \<open>Code points\<close>

lemma byte_less [simp]: "byte c < 256"
  unfolding byte_def by (metis of_char_mod_256 mod_less_divisor zero_less_numeral)

lemma char_of_byte [simp]: "char_of (byte c) = c"
  by (simp add: byte_def)

lemma code_point_grows: "64 * c \<le> or a (push_bit 6 (c :: nat))"
proof -
  have "int (push_bit 6 c) \<le> or (int (push_bit 6 c)) (int a)" by (rule or_greater_eq) simp
  then have "push_bit 6 c \<le> or a (push_bit 6 c)" by (simp add: of_nat_or_eq [symmetric] or.commute)
  then show ?thesis by (simp add: push_bit_eq_mult mult.commute)
qed

lemma code_point_low: "and b 63 \<le> or (and b 63) (push_bit 6 (c :: nat))"
proof -
  have "int (and b 63) \<le> or (int (and b 63)) (int (push_bit 6 c))" by (rule or_greater_eq) simp
  then show ?thesis by (simp add: of_nat_or_eq [symmetric])
qed

lemma and_mask_nat: "and b (2 ^ n - 1) = b mod (2 ^ n :: nat)"
  by (simp only: mask_eq_exp_minus_1 [symmetric] take_bit_eq_mask [symmetric] take_bit_eq_mod)

lemma and_63: "and b 63 = b mod (64 :: nat)"
  using and_mask_nat [of b 6] by simp

lemma lead_masks:
  "and 63 b = b mod (64 :: nat)" "and 31 b = b mod (32 :: nat)" "and 15 b = b mod (16 :: nat)" "and 7 b = b mod (8 :: nat)"
  "and 3 b = b mod (4 :: nat)"
  using and_mask_nat [of b 6] and_mask_nat [of b 5] and_mask_nat [of b 4] and_mask_nat [of b 3] and_mask_nat [of b 2]
  by (simp_all add: and.commute [of _ b])

text \<open>The bits gathered so far are enough to keep the finished code point out of ASCII.\<close>

definition least_bits :: "nat \<Rightarrow> nat" where
  "least_bits st = (if st = 2 then 2 else if st = 4 \<or> st = 6 then 0 else 1)"

lemma utf8_continue:
  assumes "st \<in> {2, 3, 4, 5, 6, 7, 8}" "least_bits st \<le> cp" "utf8_decode st cp (byte c) = (st', cp')" "st' \<noteq> UTF8_REJECT"
  shows "fst (hd (state_ranges st)) \<le> byte c \<and> byte c \<le> snd (hd (state_ranges st))"
    and "st' = state_next st"
    and "if st = 2 then 128 \<le> cp' else least_bits st' \<le> cp'"
proof -
  have st': "st' = utf8d ! (256 + st * 16 + utf8d ! byte c)" and cp': "cp' = or (and (byte c) 63) (push_bit 6 cp)"
    using assms(1,3) by (auto simp: utf8_decode_def UTF8_ACCEPT_def Let_def)
  show range: "fst (hd (state_ranges st)) \<le> byte c \<and> byte c \<le> snd (hd (state_ranges st))" and succ: "st' = state_next st"
    using utf8d_continue [OF assms(1), of "byte c"] assms(4) st' by (auto simp: UTF8_REJECT_def split: if_splits)
  have up: "64 * cp \<le> cp'" "byte c mod 64 \<le> cp'"
    using code_point_grows [of cp] code_point_low [of "byte c" cp] cp' by (simp_all add: and_63)
  have "16 \<le> byte c mod 64" if "st = 6"
    using range that by (auto simp: state_ranges_def mod_if [of "byte c"] mod_if [of "byte c - 64"] mod_if [of "byte c - 128"])
  moreover have "32 \<le> byte c mod 64" if "st = 4"
    using range that by (auto simp: state_ranges_def mod_if [of "byte c"] mod_if [of "byte c - 64"] mod_if [of "byte c - 128"])
  ultimately show "if st = 2 then 128 \<le> cp' else least_bits st' \<le> cp'"
    using assms(1,2) up unfolding succ by (auto simp: least_bits_def state_next_def)
qed

lemma mod_known: "a * m \<le> b \<Longrightarrow> b < Suc a * m \<Longrightarrow> b mod m = b - a * (m :: nat)"
  by (rule mod_nat_eqI) auto

lemma utf8_begin:
  assumes "128 \<le> byte c" "utf8_decode UTF8_ACCEPT cp (byte c) = (st, cp')" "st \<noteq> UTF8_REJECT"
  shows "st \<in> {2, 3, 4, 5, 6, 7, 8} \<and> utf8_ranges (byte c) = Some (state_ranges st) \<and> least_bits st \<le> cp'"
proof -
  have st: "st = utf8d ! (256 + utf8d ! byte c)" and cp': "cp' = and (drop_bit (utf8d ! byte c) 255) (byte c)"
    using assms(2) by (auto simp: utf8_decode_def UTF8_ACCEPT_def Let_def)
  have main: "st \<in> {2, 3, 4, 5, 6, 7, 8} \<and> utf8_ranges (byte c) = Some (state_ranges st)"
    using utf8d_begin [OF assms(1) byte_less] assms(3) st by (auto simp: UTF8_REJECT_def split: option.splits)
  have first: "st = [0, 1, 2, 3, 5, 8, 7, 1, 1, 1, 4, 6] ! byte_class (byte c)"
    unfolding st utf8d_class [OF byte_less] by (rule utf8d_first_row [OF byte_class_bound])
  let ?b = "byte c"
  have cls: "st = [0, 1, 2, 3, 5, 8, 7, 1, 1, 1, 4, 6] ! k" "cp' = and (drop_bit k 255) ?b" if "byte_class ?b = k" for k
    using first cp' that utf8d_class [OF byte_less, of c] by simp_all
  consider "194 \<le> ?b" "?b < 224" | "?b = 224" | "225 \<le> ?b" "?b < 240" "?b \<noteq> 237" | "?b = 237" | "?b = 240" | "241 \<le> ?b" "?b < 244" | "?b = 244"
    using main unfolding utf8_ranges_def by (auto split: if_splits)
  then have "least_bits st \<le> cp'"
  proof cases
    case 1
    then show ?thesis using cls [of 2] mod_known [of 3 64 ?b] by (simp add: byte_class_def least_bits_def lead_masks)
  next
    case 2
    then show ?thesis using cls [of 10] by (simp add: byte_class_def least_bits_def)
  next
    case 3
    then show ?thesis using cls [of 3] mod_known [of 7 32 ?b] by (simp add: byte_class_def least_bits_def lead_masks)
  next
    case 4
    then show ?thesis using cls [of 4] by (simp add: byte_class_def least_bits_def lead_masks)
  next
    case 5
    then show ?thesis using cls [of 11] by (simp add: byte_class_def least_bits_def)
  next
    case 6
    then show ?thesis using cls [of 6] mod_known [of 60 4 ?b] by (simp add: byte_class_def least_bits_def lead_masks)
  next
    case 7
    then show ?thesis using cls [of 5] by (simp add: byte_class_def least_bits_def lead_masks)
  qed
  with main show ?thesis by simp
qed

section \<open>Strings\<close>

lemma dump_escaped_continue:
  assumes "st \<in> {2, 3, 4, 5, 6, 7, 8}" "least_bits st \<le> cp" "dump_escaped st cp s = Some out"
  shows "\<exists>bs s' out' cp'. s = bs @ s' \<and> out = bs @ out' \<and> (\<forall>X. next_byte_in_range (state_ranges st) (bs @ X) = Some (bs, X)) \<and>
    dump_escaped UTF8_ACCEPT cp' s' = Some out' \<and> length s' < length s"
  using assms
proof (induction s arbitrary: st cp out)
  case Nil
  then show ?case by (auto simp: UTF8_ACCEPT_def)
next
  case (Cons c s)
  obtain st' cp' where d: "utf8_decode st cp (byte c) = (st', cp')" by (cases "utf8_decode st cp (byte c)")
  with Cons.prems(3) have "st' \<noteq> UTF8_REJECT" by (auto simp: byte_def UTF8_ACCEPT_def UTF8_REJECT_def split: if_splits)
  note step = utf8_continue [OF Cons.prems(1,2) d this]
  show ?case
  proof (cases "st = 2")
    case True
    with step(2,3) have "st' = UTF8_ACCEPT" "escape_code_point cp' c = [c]"
      by (simp_all add: state_next_def UTF8_ACCEPT_def escape_code_point_def)
    with Cons.prems(3) d obtain out' where "out = [c] @ out'" "dump_escaped UTF8_ACCEPT cp' s = Some out'"
      by (auto simp: byte_def)
    moreover have "next_byte_in_range (state_ranges st) ([c] @ X) = Some ([c], X)" for X
      using step(1) True by (simp add: state_ranges_def)
    ultimately show ?thesis
      by (intro exI [of _ "[c]"] exI [of _ s] exI [of _ out'] exI [of _ cp']) (simp add: UTF8_ACCEPT_def)
  next
    case False
    with step(2,3) Cons.prems(1) have st': "st' \<in> {2, 3, 4, 5, 6, 7, 8}" "least_bits st' \<le> cp'" "st' \<noteq> UTF8_ACCEPT"
      by (auto simp: state_next_def UTF8_ACCEPT_def)
    with Cons.prems(3) d \<open>st' \<noteq> UTF8_REJECT\<close> obtain out1 where out1: "out = c # out1" "dump_escaped st' cp' s = Some out1"
      by (auto simp: byte_def)
    from Cons.IH [OF st'(1,2) out1(2)] obtain bs s' out' cp''
      where IH: "s = bs @ s'" "out1 = bs @ out'" "\<And>X. next_byte_in_range (state_ranges st') (bs @ X) = Some (bs, X)"
        "dump_escaped UTF8_ACCEPT cp'' s' = Some out'" "length s' < length s"
      by blast
    have "state_ranges st = hd (state_ranges st) # state_ranges st'"
      using Cons.prems(1) False step(2) by (auto simp: state_ranges_def state_next_def)
    with step(1) IH(3) have "next_byte_in_range (state_ranges st) ((c # bs) @ X) = Some (c # bs, X)" for X
      by (cases "hd (state_ranges st)") simp
    with IH out1(1) show ?thesis by (intro exI [of _ "c # bs"] exI [of _ s'] exI [of _ out'] exI [of _ cp'']) auto
  qed
qed

lemma byte_char_of: "n < 256 \<Longrightarrow> byte (char_of n) = n"
  by (simp add: byte_def)

lemma hex_value_digit: "d < 16 \<Longrightarrow> hex_value (hex_digit d) = Some d"
  by (simp add: hex_digit_def hex_value_def byte_char_of)

lemma hex_value_zero: "hex_value (CHR ''0'') = Some 0"
  by (simp add: hex_value_def byte_def)

lemma control_chars:
  "char_of (8 :: nat) = CHR 0x08" "char_of (9 :: nat) = CHR 0x09" "char_of (10 :: nat) = CHR 0x0A" "char_of (12 :: nat) = CHR 0x0C"
  "char_of (13 :: nat) = CHR 0x0D" "char_of (34 :: nat) = CHR 0x22" "char_of (92 :: nat) = CHR 0x5C"
  by code_simp+

lemma unicode_item:
  assumes "byte c \<le> 31"
  shows "string_item (CHR 0x5C) (CHR ''u'' # CHR ''0'' # CHR ''0'' # hex_digit (byte c div 16) # hex_digit (byte c mod 16) # X) = Some ([c], X)"
proof -
  have "byte c div 16 < 16" "byte c mod 16 < 16" using assms by simp_all
  then have "get_codepoint (CHR ''0'' # CHR ''0'' # hex_digit (byte c div 16) # hex_digit (byte c mod 16) # X) = Some (byte c, X)"
    by (simp add: hex_value_digit hex_value_zero)
  then show ?thesis
    using assms by (simp add: string_item_def simple_escape_def unicode_escape_def add_codepoint_def)
qed

lemma escape_step:
  assumes "byte c < 128"
  shows "scan_string buf (escape_code_point (byte c) c @ X) = scan_string (buf @ [c]) X"
proof -
  consider n where "byte c = n" "n \<in> {8, 9, 10, 12, 13, 34, 92}" | "byte c \<notin> {8, 9, 10, 12, 13, 34, 92}" "byte c \<le> 31"
    | "byte c \<notin> {8, 9, 10, 12, 13, 34, 92}" "31 < byte c"
    by fastforce
  then show ?thesis
  proof cases
    case (1 n)
    then have c: "c = char_of n" using char_of_byte [of c] by simp
    from 1(2) show ?thesis
      unfolding 1(1) by (elim insertE emptyE) (simp_all add: escape_code_point_def c control_chars string_item_def simple_escape_def)
  next
    case 2
    then show ?thesis using unicode_item [OF 2(2), of X] by (simp add: escape_code_point_def)
  next
    case 3
    then have "c \<noteq> CHR 0x22" "c \<noteq> CHR 0x5C" by (auto simp: byte_def)
    with 3 assms show ?thesis by (simp add: escape_code_point_def string_item_def)
  qed
qed

lemma scan_string_escaped:
  "dump_escaped UTF8_ACCEPT cp s = Some out \<Longrightarrow> scan_string buf (out @ CHR 0x22 # rest) = Some (buf @ s, rest)"
proof (induction "length s" arbitrary: s cp out buf rule: less_induct)
  case less
  show ?case
  proof (cases s)
    case Nil
    with less.prems show ?thesis by simp
  next
    case (Cons c s1)
    obtain st cp1 where d: "utf8_decode UTF8_ACCEPT cp (byte c) = (st, cp1)" by (cases "utf8_decode UTF8_ACCEPT cp (byte c)")
    show ?thesis
    proof (cases "byte c < 128")
      case True
      have "st = UTF8_ACCEPT" using utf8_decode_ascii [OF True, of cp] d by simp
      moreover have "cp1 = byte c"
        using d True and_mask_nat [of "byte c" 8] by (auto simp: utf8_decode_def Let_def UTF8_ACCEPT_def utf8d_class byte_class_def and.commute)
      ultimately obtain out1 where "out = escape_code_point (byte c) c @ out1" "dump_escaped UTF8_ACCEPT cp1 s1 = Some out1"
        using less.prems d Cons by (auto simp: byte_def)
      with less.hyps [of s1 cp1 out1 "buf @ [c]"] Cons True show ?thesis by (simp add: escape_step)
    next
      case False
      then have ge: "128 \<le> byte c" by simp
      have "st \<noteq> UTF8_REJECT" using less.prems d Cons by (auto simp: byte_def UTF8_ACCEPT_def UTF8_REJECT_def split: if_splits)
      note start = utf8_begin [OF ge d this]
      then have "st \<noteq> UTF8_ACCEPT" by (auto simp: UTF8_ACCEPT_def)
      with less.prems d Cons \<open>st \<noteq> UTF8_REJECT\<close> obtain out1 where out1: "out = c # out1" "dump_escaped st cp1 s1 = Some out1"
        by (auto simp: byte_def)
      from dump_escaped_continue [OF _ _ this(2)] start obtain bs s2 out2 cp2
        where tail: "s1 = bs @ s2" "out1 = bs @ out2" "\<And>X. next_byte_in_range (state_ranges st) (bs @ X) = Some (bs, X)"
          "dump_escaped UTF8_ACCEPT cp2 s2 = Some out2" "length s2 < length s1"
        by blast
      have "c \<noteq> CHR 0x22" "c \<noteq> CHR 0x5C" using ge by (auto simp: byte_def)
      with ge start tail(3) have "scan_string buf (c # bs @ X) = scan_string (buf @ c # bs) X" for X
        by (simp add: string_item_def)
      with less.hyps [OF _ tail(4), of "buf @ c # bs"] tail out1(1) Cons show ?thesis by simp
    qed
  qed
qed

lemma scan_dump_string:
  assumes "dump_string s = Some out"
  shows "scan (out @ rest) = (value_string s, rest)"
proof -
  obtain out' where "dump_escaped UTF8_ACCEPT 0 s = Some out'" "out = CHR 0x22 # out' @ [CHR 0x22]"
    using assms by (auto simp: dump_string_def)
  with scan_string_escaped [of 0 s out' "[]" rest] show ?thesis by (simp add: scan_def is_ws_def)
qed

section \<open>Numbers\<close>

text \<open>What may follow a value in a serialized document.\<close>

definition value_end :: "string \<Rightarrow> bool" where
  "value_end rest \<longleftrightarrow> rest = [] \<or> hd rest \<in> {CHR '','', CHR '']'', CHR ''}''}"

lemma value_end_simps [simp]:
  "value_end []" "value_end (CHR '','' # r)" "value_end (CHR '']'' # r)" "value_end (CHR ''}'' # r)"
  by (simp_all add: value_end_def)

lemma number_step_end:
  assumes "value_end rest" "number_accepts st"
  shows "number_loop st k b rest = Some (enter_label st k, b, rest)"
  using assms by (cases rest; cases st) (auto simp: value_end_def exponent_char_def is_digit_def)

lemma number_loop_digits:
  assumes "\<forall>d \<in> set ds. is_digit d" "value_end rest"
  shows "number_loop n_any1 k b (ds @ rest) = Some (k, b @ ds, rest)"
  using assms(1)
proof (induction ds arbitrary: b)
  case Nil
  then show ?case using number_step_end [OF assms(2), of n_any1] by simp
next
  case (Cons d ds)
  then show ?case by simp
qed

lemma nat_to_string_cases:
  obtains "n = 0" "nat_to_string n = ''0''"
  | d ds where "n \<noteq> 0" "nat_to_string n = d # ds" "is_digit d" "d \<noteq> CHR ''0''" "\<forall>x \<in> set ds. is_digit x"
proof (cases "n = 0")
  case True
  then show ?thesis using that(1) nat_to_string_zero by simp
next
  case False
  then obtain d ds where "nat_to_string n = d # ds" by (cases "nat_to_string n") auto
  then show ?thesis using that(2) False nat_to_string_digits [of n] nat_to_string_hd [OF False] by simp
qed

lemma lex_nat:
  assumes "value_end rest" "n < 2 ^ 64" "nat_to_string n = d # ds"
  shows "is_digit d" "lexer_scan_number d (ds @ rest) = (value_unsigned n, rest)"
proof -
  have "is_digit d \<and> lexer_scan_number d (ds @ rest) = (number_token k_unsigned (nat_to_string n), rest)"
  proof (cases n rule: nat_to_string_cases)
    case 1
    then have "d = CHR ''0''" "ds = []" using assms(3) by simp_all
    then show ?thesis using 1 assms(1) number_step_end [of rest n_zero k_unsigned "''0''"]
      by (simp add: lexer_scan_number_def is_digit_def)
  next
    case (2 e es)
    then have "d \<noteq> CHR ''-''" "d \<noteq> CHR ''0''" using assms(3) digit_not_space_sign by auto
    with 2 assms(1,3) show ?thesis using number_loop_digits [of ds rest k_unsigned "[d]"] by (simp add: lexer_scan_number_def)
  qed
  then show "is_digit d" "lexer_scan_number d (ds @ rest) = (value_unsigned n, rest)"
    using assms(2) by (simp_all add: number_token_def)
qed

lemma lex_negative:
  assumes "value_end rest" "n \<noteq> 0" "n \<le> 2 ^ 63"
  shows "lexer_scan_number (CHR ''-'') (nat_to_string n @ rest) = (value_integer (- int n), rest)"
proof (cases n rule: nat_to_string_cases)
  case 1
  with assms(2) show ?thesis by simp
next
  case (2 d ds)
  then have "lexer_scan_number (CHR ''-'') (nat_to_string n @ rest) = (number_token k_integer (CHR ''-'' # nat_to_string n), rest)"
    using number_loop_digits [of ds rest k_integer "[CHR ''-'', d]"] assms(1) by (simp add: lexer_scan_number_def)
  then show ?thesis using assms(3) by (simp add: number_token_def)
qed

lemma digit_starts_number:
  assumes "is_digit c \<or> c = CHR ''-''"
  shows "scan (c # r) = lexer_scan_number c r"
proof -
  have "c \<notin> {CHR ''['', CHR '']'', CHR ''{'', CHR ''}'', CHR '':'', CHR '','', CHR ''t'', CHR ''f'', CHR ''n'', CHR 0x22}" "\<not> is_ws c"
    using assms by (auto simp: is_digit_def is_ws_def)
  with assms show ?thesis by (auto simp: scan_def)
qed

lemma scan_nat:
  assumes "value_end rest" "n < 2 ^ 64"
  shows "scan (nat_to_string n @ rest) = (value_unsigned n, rest)"
proof -
  obtain d ds where d: "nat_to_string n = d # ds" by (cases "nat_to_string n") auto
  then show ?thesis using lex_nat [OF assms d] digit_starts_number [of d "ds @ rest"] by simp
qed

lemma scan_negative:
  assumes "value_end rest" "- (2 ^ 63) \<le> i" "i < 0"
  shows "scan (int_to_string i @ rest) = (value_integer i, rest)"
  using lex_negative [OF assms(1), of "nat (- i)"] digit_starts_number [of "CHR ''-''"] assms(2,3)
  by (simp add: int_to_string_def)

section \<open>Values\<close>

text \<open>
  The values that serialization keeps: no floating point numbers, negative numbers only as signed
  ones (a non-negative one is read back as unsigned), members in the order of their keys.
\<close>

fun json_normal :: "json \<Rightarrow> bool" where
  "json_normal (JInteger i) \<longleftrightarrow> - (2 ^ 63) \<le> i \<and> i < 0"
| "json_normal (JUnsigned n) \<longleftrightarrow> n < 2 ^ 64"
| "json_normal (JFloat q) \<longleftrightarrow> False"
| "json_normal (JArray vs) \<longleftrightarrow> list_all json_normal vs"
| "json_normal (JObject ms) \<longleftrightarrow> sorted_wrt (<) (map fst ms) \<and> list_all (\<lambda>(k, v). json_normal v) ms"
| "json_normal _ \<longleftrightarrow> True"

lemma all_some_list_all2: "all_some xs = Some ys \<longleftrightarrow> list_all2 (\<lambda>x y. x = Some y) xs ys"
proof (induction xs arbitrary: ys rule: all_some.induct)
  case (3 x xs)
  then show ?case by (cases ys) auto
qed (auto simp: list_all2_Cons1)

text \<open>The separators and elements after the first one.\<close>

definition more :: "string list \<Rightarrow> string" where
  "more ss = concat (map (\<lambda>s. CHR '','' # s) ss)"

lemma join_comma_more: "join_comma (s # ss) = s @ more ss"
  by (induction ss arbitrary: s) (simp_all add: more_def)

lemma more_simps [simp]: "more [] = []" "more (s # ss) = CHR '','' # s @ more ss"
  by (simp_all add: more_def)

lemma value_end_more [simp]: "value_end (more ss @ CHR '']'' # rest)" "value_end (more ss @ CHR ''}'' # rest)"
  by (cases ss; simp)+

lemma scan_punctuation [simp]:
  "scan (CHR ''['' # r) = (begin_array, r)" "scan (CHR '']'' # r) = (end_array, r)" "scan (CHR ''{'' # r) = (begin_object, r)"
  "scan (CHR ''}'' # r) = (end_object, r)" "scan (CHR '':'' # r) = (name_separator, r)" "scan (CHR '','' # r) = (value_separator, r)"
  by (simp_all add: scan_def is_ws_def)

text \<open>The text of a value is read as that value, whatever is open and whatever follows.\<close>

definition reads :: "json \<Rightarrow> string \<Rightarrow> bool" where
  "reads v s \<longleftrightarrow> (\<forall>rest states. value_end rest \<longrightarrow>
     (case scan (s @ rest) of
        (t, r) \<Rightarrow> t \<noteq> end_array \<and> sax_parse_internal (Token t) r states = sax_parse_internal (State v) rest states))"

lemma readsI:
  assumes "\<And>rest. value_end rest \<Longrightarrow> scan (s @ rest) = (t, rest)" "t \<noteq> end_array"
    and "\<And>rest states. sax_parse_internal (Token t) rest states = sax_parse_internal (State v) rest states"
  shows "reads v s"
  using assms by (simp add: reads_def)

lemma readsE:
  assumes "reads v s" "value_end rest"
  obtains t r where "scan (s @ rest) = (t, r)" "t \<noteq> end_array"
    "\<And>states. sax_parse_internal (Token t) r states = sax_parse_internal (State v) rest states"
  using assms unfolding reads_def by (cases "scan (s @ rest)") fastforce

lemma reads_elements:
  assumes "list_all2 reads vs ss"
  shows "sax_parse_internal (State v) (more ss @ CHR '']'' # rest) (ArrayFrame acc # states) =
    sax_parse_internal (State (JArray (acc @ v # vs))) rest states"
  using assms
proof (induction vs ss arbitrary: v acc rule: list_all2_induct)
  case Nil
  then show ?case by simp
next
  case (Cons w vs s ss)
  obtain t r where "scan (s @ more ss @ CHR '']'' # rest) = (t, r)"
    "\<And>states. sax_parse_internal (Token t) r states = sax_parse_internal (State w) (more ss @ CHR '']'' # rest) states"
    using readsE [OF Cons.hyps(1) value_end_more(1)] by metis
  with Cons.IH [of w "acc @ [v]"] show ?case by simp
qed

lemma reads_array:
  assumes "list_all2 reads vs ss"
  shows "reads (JArray vs) (CHR ''['' # join_comma ss @ '']'')"
  unfolding reads_def
proof (intro allI impI)
  fix rest states
  assume "value_end rest"
  show "case scan ((CHR ''['' # join_comma ss @ '']'') @ rest) of
      (t, r) \<Rightarrow> t \<noteq> end_array \<and> sax_parse_internal (Token t) r states = sax_parse_internal (State (JArray vs)) rest states"
  proof (cases vs)
    case Nil
    with assms show ?thesis by (simp add: sax_parse_internal.simps(1))
  next
    case (Cons v vs')
    with assms obtain s ss' where s: "ss = s # ss'" "reads v s" "list_all2 reads vs' ss'" by (auto simp: list_all2_Cons1)
    obtain t r where "scan (s @ more ss' @ CHR '']'' # rest) = (t, r)" "t \<noteq> end_array"
      "\<And>states. sax_parse_internal (Token t) r states = sax_parse_internal (State v) (more ss' @ CHR '']'' # rest) states"
      using readsE [OF s(2) value_end_more(1)] by metis
    then show ?thesis
      using s Cons reads_elements [OF s(3), of v rest "[]" states]
      by (simp add: join_comma_more sax_parse_internal.simps(1) [of begin_array])
  qed
qed

fun member_reads :: "string \<times> json \<Rightarrow> string \<Rightarrow> bool" where
  "member_reads (k, v) m \<longleftrightarrow> (\<exists>k' v'. m = k' @ CHR '':'' # v' \<and> dump_string k = Some k' \<and> reads v v')"

lemma obj_set_append: "\<forall>k' \<in> set (map fst ms). k' < k \<Longrightarrow> obj_set k v ms = ms @ [(k, v)]"
  by (induction ms) auto

text \<open>A member is read as its key, the separator and its value.\<close>

lemma member_readsE:
  assumes "member_reads (k, v) m" "value_end rest"
  obtains r t r' where "scan (m @ rest) = (value_string k, CHR '':'' # r)" "scan r = (t, r')"
    "\<And>states. sax_parse_internal (Token t) r' states = sax_parse_internal (State v) rest states"
proof -
  from assms(1) obtain k' v' where m: "m = k' @ CHR '':'' # v'" "dump_string k = Some k'" "reads v v'" by auto
  obtain t r' where "scan (v' @ rest) = (t, r')" "\<And>states. sax_parse_internal (Token t) r' states = sax_parse_internal (State v) rest states"
    using readsE [OF m(3) assms(2)] by metis
  then show ?thesis using that [of "v' @ rest" t r'] m(1) scan_dump_string [OF m(2), of "CHR '':'' # v' @ rest"] by simp
qed

lemma scan_key_member: "scan_key (value_string k) (CHR '':'' # r) = Some (k, r)"
  by (simp add: scan_key_def)

lemma reads_members:
  assumes "list_all2 member_reads ms mm" "sorted_wrt (<) (map fst (acc @ (key, v) # ms))"
  shows "sax_parse_internal (State v) (more mm @ CHR ''}'' # rest) (ObjectFrame acc key # states) =
    sax_parse_internal (State (JObject (acc @ (key, v) # ms))) rest states"
  using assms
proof (induction ms mm arbitrary: key v acc rule: list_all2_induct)
  case Nil
  then have "obj_set key v acc = acc @ [(key, v)]" by (intro obj_set_append) (auto simp: sorted_wrt_append)
  then show ?case by simp
next
  case (Cons p ms m mm)
  obtain k w where p: "p = (k, w)" by (cases p)
  have set: "obj_set key v acc = acc @ [(key, v)]" using Cons.prems by (intro obj_set_append) (auto simp: sorted_wrt_append)
  obtain r t r' where "scan (m @ more mm @ CHR ''}'' # rest) = (value_string k, CHR '':'' # r)" "scan r = (t, r')"
    "\<And>states. sax_parse_internal (Token t) r' states = sax_parse_internal (State w) (more mm @ CHR ''}'' # rest) states"
    using member_readsE [OF Cons.hyps(1) [unfolded p] value_end_more(2)] by metis
  with Cons.IH [of "acc @ [(key, v)]" k w] Cons.prems show ?case by (simp add: p set scan_key_member)
qed

lemma reads_object:
  assumes "list_all2 member_reads ms mm" "sorted_wrt (<) (map fst ms)"
  shows "reads (JObject ms) (CHR ''{'' # join_comma mm @ ''}'')"
  unfolding reads_def
proof (intro allI impI)
  fix rest states
  show "case scan ((CHR ''{'' # join_comma mm @ ''}'') @ rest) of
      (t, r) \<Rightarrow> t \<noteq> end_array \<and> sax_parse_internal (Token t) r states = sax_parse_internal (State (JObject ms)) rest states"
  proof (cases ms)
    case Nil
    with assms show ?thesis by (simp add: sax_parse_internal.simps(1))
  next
    case (Cons p ms')
    obtain k v where p: "p = (k, v)" by (cases p)
    with assms Cons obtain m mm' where m: "mm = m # mm'" "member_reads (k, v) m" "list_all2 member_reads ms' mm'"
      by (auto simp: list_all2_Cons1)
    obtain r t r' where "scan (m @ more mm' @ CHR ''}'' # rest) = (value_string k, CHR '':'' # r)" "scan r = (t, r')"
      "\<And>states. sax_parse_internal (Token t) r' states = sax_parse_internal (State v) (more mm' @ CHR ''}'' # rest) states"
      using member_readsE [OF m(2) value_end_more(2)] by metis
    then show ?thesis
      using m Cons p reads_members [OF m(3), of "[]" k v rest states] assms(2)
      by (simp add: join_comma_more scan_key_member sax_parse_internal.simps(1) [of begin_object])
  qed
qed

lemma reads_literals: "reads JNull ''null''" "reads (JBoolean True) ''true''" "reads (JBoolean False) ''false''"
proof -
  have "scan (''null'' @ r) = (literal_null, r)" "scan (''true'' @ r) = (literal_true, r)" "scan (''false'' @ r) = (literal_false, r)" for r
    by (simp_all add: scan_def is_ws_def scan_literal_def)
  then show "reads JNull ''null''" "reads (JBoolean True) ''true''" "reads (JBoolean False) ''false''"
    by (simp_all only: reads_def prod.case) (simp_all add: sax_parse_internal.simps(1))
qed

lemma dump_reads: "json_normal j \<Longrightarrow> json_dump dump_float j = Some s \<Longrightarrow> reads j s"
proof (induction dump_float j arbitrary: s rule: json_dump.induct)
  case (7 df vs)
  then obtain ss where ss: "list_all2 (\<lambda>v s. json_dump df v = Some s) vs ss" "s = CHR ''['' # join_comma ss @ '']''"
    by (auto simp: all_some_list_all2 list_all2_map1)
  have "list_all2 reads vs ss"
    using ss(1)
  proof (rule list.rel_mono_strong)
    fix v x
    assume "v \<in> set vs" "json_dump df v = Some x"
    then show "reads v x" using 7(1,2) by (simp add: list_all_iff)
  qed
  then show ?case using reads_array ss(2) by simp
next
  case (8 df ms)
  then obtain mm where mm: "list_all2 (\<lambda>(k, v) s. dump_member k (json_dump df v) = Some s) ms mm" "s = CHR ''{'' # join_comma mm @ ''}''"
    by (auto simp: all_some_list_all2 list_all2_map1 case_prod_unfold)
  have "list_all2 member_reads ms mm"
    using mm(1)
  proof (rule list.rel_mono_strong)
    fix p x
    assume p: "p \<in> set ms" and x: "(case p of (k, v) \<Rightarrow> \<lambda>s. dump_member k (json_dump df v) = Some s) x"
    obtain k v where kv: "p = (k, v)" by (cases p)
    from x kv obtain k' v' where "dump_string k = Some k'" "json_dump df v = Some v'" "x = k' @ CHR '':'' # v'"
      by (auto simp: dump_member_def split: option.splits)
    moreover have "json_normal v" using 8(2) p kv by (auto simp: list_all_iff)
    ultimately show "member_reads p x" using 8(1) [OF p kv [symmetric]] kv by auto
  qed
  then show ?case using reads_object mm(2) 8(2) by simp
qed (auto intro!: readsI simp: reads_literals scan_negative scan_nat scan_dump_string sax_parse_internal.simps(1))

section \<open>Documents\<close>

lemma reads_no_bom:
  assumes "reads j s"
  shows "skip_bom s = Some s"
proof (cases s)
  case (Cons c s')
  from readsE [OF assms value_end_simps(1)] obtain t r where "scan s = (t, r)" "sax_parse_internal (Token t) r [] = Some (j, [])"
    by (metis append_Nil2 sax_parse_internal.simps(2))
  moreover have "scan (CHR 0xEF # s') = (parse_error, s')" by (simp add: scan_def is_ws_def is_digit_def)
  ultimately have "c \<noteq> CHR 0xEF" using Cons by (auto simp: sax_parse_internal.simps(1))
  then show ?thesis using Cons by (simp add: skip_bom_def)
qed (simp add: skip_bom_def)

lemma reads_parse:
  assumes "reads j s"
  shows "json_parse s = Some j" "json_read s = Some j"
proof -
  obtain t r where t: "scan s = (t, r)" "sax_parse_internal (Token t) r [] = Some (j, [])"
    using readsE [OF assms value_end_simps(1)] by (metis append_Nil2 sax_parse_internal.simps(2))
  moreover have "scan [] = (end_of_input, [])" by (simp add: scan_def)
  ultimately show "json_parse s = Some j" "json_read s = Some j"
    using reads_no_bom [OF assms] by (simp_all add: json_parse_def json_read_def first_scan_def)
qed

text \<open>
  A non-negative number is read back as unsigned, whatever it was; everything else comes back as it
  was. The documents that serialize and can be read: no floating point numbers, integers of 64
  bits, members in the order of their keys.
\<close>

fun as_read :: "json \<Rightarrow> json" where
  "as_read (JInteger i) = (if i < 0 then JInteger i else JUnsigned (nat i))"
| "as_read (JArray vs) = JArray (map as_read vs)"
| "as_read (JObject ms) = JObject (map (\<lambda>(k, v). (k, as_read v)) ms)"
| "as_read v = v"

fun json_writable :: "json \<Rightarrow> bool" where
  "json_writable (JInteger i) \<longleftrightarrow> - (2 ^ 63) \<le> i \<and> i < 2 ^ 63"
| "json_writable (JUnsigned n) \<longleftrightarrow> n < 2 ^ 64"
| "json_writable (JFloat q) \<longleftrightarrow> False"
| "json_writable (JArray vs) \<longleftrightarrow> list_all json_writable vs"
| "json_writable (JObject ms) \<longleftrightarrow> sorted_wrt (<) (map fst ms) \<and> list_all (\<lambda>(k, v). json_writable v) ms"
| "json_writable _ \<longleftrightarrow> True"

lemma as_read_normal: "json_writable j \<Longrightarrow> json_normal (as_read j)"
  by (induction j rule: as_read.induct) (auto simp: list_all_iff comp_def case_prod_unfold)

lemma as_read_dump: "json_dump df (as_read j) = json_dump df j"
proof (induction j rule: as_read.induct)
  case (1 i)
  then show ?case by (simp add: int_to_string_def)
next
  case (2 vs)
  then have "map (json_dump df) (map as_read vs) = map (json_dump df) vs" by simp
  then show ?case by (simp only: as_read.simps json_dump.simps)
next
  case (3 ms)
  then have "map (\<lambda>(k, v). dump_member k (json_dump df v)) (map (\<lambda>(k, v). (k, as_read v)) ms) =
      map (\<lambda>(k, v). dump_member k (json_dump df v)) ms" by auto
  then show ?case by (simp only: as_read.simps json_dump.simps)
qed simp_all

lemma dump_parse:
  assumes "json_writable j" "json_dump dump_float j = Some s"
  shows "json_parse s = Some (as_read j)" "json_read s = Some (as_read j)"
  using dump_reads [OF as_read_normal [OF assms(1)]] assms(2) reads_parse by (simp_all add: as_read_dump)


definition sample_document :: json where
  "sample_document =
     JObject [(''a'', JArray [JInteger (- 7), JUnsigned 12, JNull]), (''b'', JString [CHR 0x22, CHR 0xC3, CHR 0xA9, CHR 0x0A, CHR 0x01]), (''c'', JBoolean True)]"


end
