(* ===== verification/JsonUtf8.thy ===== *)
theory JsonUtf8
  imports JsonRoundtrip
begin

text \<open>
  The three treatments of UTF-8 in \<open>src/json.hpp\<close> (the serializer's automaton, the lexer's byte
  ranges, the encoding of escaped code points) agree with one definition of UTF-8. So the serializer
  takes exactly the documents whose strings are UTF-8, and every parsed document is one.
\<close>

section \<open>Valid strings\<close>

definition valid_utf8 :: "string \<Rightarrow> bool" where
  "valid_utf8 s \<longleftrightarrow> (\<forall>cp. dump_escaped UTF8_ACCEPT cp s \<noteq> None)"

definition good_prefix :: "string \<Rightarrow> bool" where
  "good_prefix b \<longleftrightarrow> (\<forall>s. valid_utf8 s \<longrightarrow> valid_utf8 (b @ s))"

lemma valid_Nil: "valid_utf8 []"
  by (simp add: valid_utf8_def)

lemma good_prefix_valid: "good_prefix b \<Longrightarrow> valid_utf8 b"
  using valid_Nil by (force simp: good_prefix_def)

lemma good_prefix_append: "good_prefix a \<Longrightarrow> good_prefix b \<Longrightarrow> good_prefix (a @ b)"
  by (simp add: good_prefix_def)

lemma good_prefix_ascii: "byte c < 128 \<Longrightarrow> good_prefix [c]"
  using utf8_decode_ascii [of "byte c"]
  by (auto simp: good_prefix_def valid_utf8_def byte_def case_prod_unfold split: option.splits)

abbreviation in_range :: "nat \<times> nat \<Rightarrow> char \<Rightarrow> bool" where
  "in_range p c \<equiv> fst p \<le> byte c \<and> byte c \<le> snd p"

lemma next_byte_split: "next_byte_in_range rs r = Some (bs, r') \<Longrightarrow> list_all2 in_range rs bs"
  by (induction rs r arbitrary: bs rule: next_byte_in_range.induct) (auto split: if_splits)

lemma continue_valid:
  assumes "st \<in> {2, 3, 4, 5, 6, 7, 8}" "list_all2 in_range (state_ranges st) bs" "valid_utf8 s"
  shows "dump_escaped st cp (bs @ s) \<noteq> None"
  using assms(1,2)
proof (induction bs arbitrary: st cp)
  case Nil
  then show ?case by (auto simp: state_ranges_def)
next
  case (Cons c bs)
  obtain cp' where d: "utf8_decode st cp (byte c) = (utf8d ! (256 + st * 16 + utf8d ! byte c), cp')"
    by (simp add: utf8_decode_def Let_def)
  have rs: "state_ranges st = hd (state_ranges st) # state_ranges (state_next st)"
    using Cons.prems(1) by (auto simp: state_ranges_def state_next_def)
  then have rs': "list_all2 in_range (hd (state_ranges st) # state_ranges (state_next st)) (c # bs)" using Cons.prems(2) by simp
  then have "utf8d ! (256 + st * 16 + utf8d ! byte c) = state_next st"
    using utf8d_continue [OF Cons.prems(1), of "byte c"] by simp
  with d have d': "utf8_decode st cp (byte c) = (state_next st, cp')" by simp
  show ?case
  proof (cases "st = 2")
    case True
    then have "bs = []" using rs' by (simp add: state_next_def state_ranges_def)
    with True d' assms(3) show ?thesis by (simp add: state_next_def UTF8_ACCEPT_def valid_utf8_def byte_def)
  next
    case False
    then have next_st: "state_next st \<in> {2, 3, 4, 5, 6, 7, 8}" "state_next st \<noteq> UTF8_ACCEPT" "state_next st \<noteq> UTF8_REJECT"
      using Cons.prems(1) by (auto simp: state_next_def UTF8_ACCEPT_def UTF8_REJECT_def)
    with Cons.IH [OF next_st(1), of cp'] rs' d' show ?thesis by (simp add: byte_def)
  qed
qed

lemma sequence_valid:
  assumes "128 \<le> byte c" "utf8_ranges (byte c) = Some rs" "list_all2 in_range rs bs"
  shows "good_prefix (c # bs)"
  unfolding good_prefix_def valid_utf8_def
proof (intro allI impI)
  fix s cp
  assume s: "\<forall>cp. dump_escaped UTF8_ACCEPT cp s \<noteq> None"
  obtain cp' where d: "utf8_decode UTF8_ACCEPT cp (byte c) = (utf8d ! (256 + utf8d ! byte c), cp')"
    by (simp add: utf8_decode_def Let_def UTF8_ACCEPT_def)
  have st: "utf8d ! (256 + utf8d ! byte c) \<in> {2, 3, 4, 5, 6, 7, 8}" "rs = state_ranges (utf8d ! (256 + utf8d ! byte c))"
    using utf8d_begin [OF assms(1) byte_less] assms(2) by simp_all
  then have "dump_escaped (utf8d ! (256 + utf8d ! byte c)) cp' (bs @ s) \<noteq> None"
    using continue_valid [OF st(1)] assms(3) s by (simp add: valid_utf8_def)
  moreover have "utf8d ! (256 + utf8d ! byte c) \<noteq> UTF8_ACCEPT" "utf8d ! (256 + utf8d ! byte c) \<noteq> UTF8_REJECT"
    using st(1) by (auto simp: UTF8_ACCEPT_def UTF8_REJECT_def)
  ultimately show "dump_escaped UTF8_ACCEPT cp ((c # bs) @ s) \<noteq> None" using d by (simp add: byte_def)
qed

section \<open>Code points written out\<close>

lemma or_disjoint:
  fixes a b :: nat
  assumes "b < 2 ^ n"
  shows "or (a * 2 ^ n) b = a * 2 ^ n + b"
proof -
  have "take_bit n (or (a * 2 ^ n) b) = b"
    using assms by (simp add: take_bit_or push_bit_eq_mult [symmetric] take_bit_push_bit take_bit_nat_eq_self)
  moreover have "drop_bit n (or (a * 2 ^ n) b) = a"
    using assms by (simp add: drop_bit_eq_div [of n b] drop_bit_or) (simp add: drop_bit_eq_div)
  ultimately show ?thesis using bits_ident [of n "or (a * 2 ^ n) b"] by (simp add: push_bit_eq_mult)
qed

lemma lead_byte:
  "k < 32 \<Longrightarrow> or 192 k = 192 + (k :: nat)" "k < 16 \<Longrightarrow> or 224 k = 224 + (k :: nat)" "k < 8 \<Longrightarrow> or 240 k = 240 + (k :: nat)"
  "k < 64 \<Longrightarrow> or 128 k = 128 + (k :: nat)"
  using or_disjoint [of k 5 6] or_disjoint [of k 4 14] or_disjoint [of k 3 30] or_disjoint [of k 6 2] by simp_all

text \<open>The bytes of a code point, without bit operations.\<close>

lemma add_codepoint_arith:
  assumes "cp < 1114112"
  shows "map byte (add_codepoint cp) =
    (if cp < 128 then [cp]
     else if cp \<le> 2047 then [192 + cp div 64, 128 + cp mod 64]
     else if cp \<le> 65535 then [224 + cp div 4096, 128 + cp div 64 mod 64, 128 + cp mod 64]
     else [240 + cp div 262144, 128 + cp div 4096 mod 64, 128 + cp div 64 mod 64, 128 + cp mod 64])"
proof -
  have tail: "byte (char_of (or 128 (and k 63))) = 128 + k mod 64" for k :: nat
    using lead_byte(4) [of "k mod 64"] byte_char_of [of "128 + k mod 64"] by (simp add: and_63)
  have low: "byte (char_of (or h k)) = h + k" if "or h k = h + k" "h + k < 256" for h k :: nat
    using that byte_char_of [of "h + k"] by simp
  have "cp div 64 < 32" if "cp \<le> 2047" using that by (simp add: less_mult_imp_div_less)
  moreover have "cp div 4096 < 16" if "cp \<le> 65535" using that by (simp add: less_mult_imp_div_less)
  moreover have "cp div 262144 < 8" using assms by (simp add: less_mult_imp_div_less)
  ultimately show ?thesis
    using assms by (auto simp: add_codepoint_def tail drop_bit_eq_div lead_byte low byte_char_of)
qed

abbreviation bytes_in :: "(nat \<times> nat) list \<Rightarrow> nat list \<Rightarrow> bool" where
  "bytes_in \<equiv> list_all2 (\<lambda>p n. fst p \<le> n \<and> n \<le> snd p)"

lemma bytes_good:
  assumes "map byte s = b # ns" "128 \<le> b" "utf8_ranges b = Some rs" "bytes_in rs ns"
  shows "good_prefix s"
proof -
  obtain c bs where s: "s = c # bs" "byte c = b" "map byte bs = ns" using assms(1) by auto
  then have "list_all2 in_range rs bs" using assms(4) by (auto simp: list_all2_conv_all_nth)
  with s assms(2,3) show ?thesis using sequence_valid by blast
qed

lemma ranges_two:
  assumes "k < 16" "k = 0 \<longrightarrow> 32 \<le> m" "k = 13 \<longrightarrow> m < 32" "m < 64" "n < 64"
  shows "\<exists>rs. utf8_ranges (224 + k) = Some rs \<and> bytes_in rs [128 + m, 128 + n]"
proof -
  consider "k = 0" | "k = 13" | "k \<noteq> 0" "k \<noteq> 13" "k < 13 \<or> k = 14 \<or> k = 15" using assms(1) by linarith
  then show ?thesis by cases (use assms in \<open>auto simp: utf8_ranges_def\<close>)
qed

lemma ranges_three:
  assumes "k < 5" "k = 0 \<longrightarrow> 16 \<le> m" "k = 4 \<longrightarrow> m < 16" "m < 64" "n < 64" "l < 64"
  shows "\<exists>rs. utf8_ranges (240 + k) = Some rs \<and> bytes_in rs [128 + m, 128 + n, 128 + l]"
proof -
  consider "k = 0" | "k = 4" | "0 < k" "k < 4" using assms(1) by linarith
  then show ?thesis by cases (use assms in \<open>auto simp: utf8_ranges_def\<close>)
qed

lemma add_codepoint_good:
  assumes "cp < 1114112" "\<not> (55296 \<le> cp \<and> cp \<le> 57343)"
  shows "good_prefix (add_codepoint cp)"
proof -
  have tail: "k mod 64 < 64" for k :: nat by simp
  consider "cp < 128" | "128 \<le> cp" "cp \<le> 2047" | "2047 < cp" "cp \<le> 65535" | "65535 < cp" by linarith
  then show ?thesis
  proof cases
    case 1
    then show ?thesis by (simp add: add_codepoint_def byte_char_of good_prefix_ascii)
  next
    case 2
    then have "2 \<le> cp div 64" "cp div 64 < 32" by (simp_all add: less_eq_div_iff_mult_less_eq less_mult_imp_div_less)
    with 2 assms(1) show ?thesis
      using tail [of cp] by (intro bytes_good [of _ "192 + cp div 64" "[128 + cp mod 64]" "[(128, 191)]"]) (simp_all add: add_codepoint_arith utf8_ranges_def)
  next
    case 3
    let ?k = "cp div 4096" and ?m = "cp div 64 mod 64"
    have k: "?k < 16" using 3 by (simp add: less_mult_imp_div_less)
    have split: "cp div 64 = 64 * ?k + ?m" using mult_div_mod_eq [of 64 "cp div 64"] by (simp add: div_mult2_eq [symmetric])
    have lo: "32 \<le> ?m" if "?k = 0" using split 3(1) that div_le_mono [of 2048 cp 64] by simp
    have hi: "?m < 32" if "?k = 13"
    proof -
      have "cp < 57344" using that div_less_iff_less_mult [of 4096 cp 14] by simp
      then have "cp < 55296" using assms(2) by linarith
      then have "cp div 64 < 864" by (simp add: less_mult_imp_div_less)
      with split that show ?thesis by simp
    qed
    obtain rs where "utf8_ranges (224 + ?k) = Some rs" "bytes_in rs [128 + ?m, 128 + cp mod 64]"
      using ranges_two [of ?k ?m "cp mod 64"] k lo hi tail by blast
    with 3 assms(1) show ?thesis by (intro bytes_good [of _ "224 + ?k" "[128 + ?m, 128 + cp mod 64]" rs]) (simp_all add: add_codepoint_arith)
  next
    case 4
    let ?k = "cp div 262144" and ?m = "cp div 4096 mod 64"
    have k: "?k < 5" using assms(1) by (simp add: less_mult_imp_div_less)
    have split: "cp div 4096 = 64 * ?k + ?m" using mult_div_mod_eq [of 64 "cp div 4096"] by (simp add: div_mult2_eq [symmetric])
    have lo: "16 \<le> ?m" if "?k = 0" using split 4 that div_le_mono [of 65536 cp 4096] by simp
    have hi: "?m < 16" if "?k = 4"
    proof -
      have "cp div 4096 < 272" using assms(1) by (simp add: less_mult_imp_div_less)
      with split that show ?thesis by simp
    qed
    obtain rs where "utf8_ranges (240 + ?k) = Some rs"
      "bytes_in rs [128 + ?m, 128 + cp div 64 mod 64, 128 + cp mod 64]"
      using ranges_three [of ?k ?m "cp div 64 mod 64" "cp mod 64"] k lo hi tail by blast
    with 4 assms(1) show ?thesis
      by (intro bytes_good [of _ "240 + ?k" "[128 + ?m, 128 + cp div 64 mod 64, 128 + cp mod 64]" rs]) (simp_all add: add_codepoint_arith)
  qed
qed

section \<open>Scanned strings\<close>

lemma get_codepoint_bound: "get_codepoint r = Some (cp, r') \<Longrightarrow> cp < 65536"
proof (cases r rule: get_codepoint.cases)
  case (1 a b c d r1)
  have hex: "hex_value x = Some v \<Longrightarrow> v < 16" for x v by (auto simp: hex_value_def split: if_splits)
  assume "get_codepoint r = Some (cp, r')"
  with 1 show ?thesis by (fastforce split: option.splits dest!: hex)
qed simp_all

lemma unicode_escape_good: "unicode_escape r = Some (cp, r') \<Longrightarrow> good_prefix (add_codepoint cp)"
  by (rule add_codepoint_good) (fastforce simp: unicode_escape_def split: option.splits if_splits list.splits dest: get_codepoint_bound)+

lemma string_item_good:
  assumes "string_item c r = Some (bs, r')"
  shows "good_prefix bs"
proof -
  have esc: "simple_escape e = Some x \<Longrightarrow> byte x < 128" for e x
    by (auto simp: simple_escape_def byte_def split: if_splits)
  show ?thesis
    using assms unfolding string_item_def
    by (auto split: if_splits list.splits option.splits intro: good_prefix_ascii esc unicode_escape_good sequence_valid dest!: next_byte_split)
qed

lemma scan_string_good: "scan_string b r = Some (s, r') \<Longrightarrow> good_prefix b \<Longrightarrow> valid_utf8 s"
proof (induction b r rule: scan_string.induct)
  case (2 b c r)
  show ?case
  proof (cases "c = CHR 0x22")
    case True
    with 2 show ?thesis by (auto intro: good_prefix_valid)
  next
    case False
    with "2.prems"(1) obtain bs r1 where item: "string_item c r = Some (bs, r1)" "scan_string (b @ bs) r1 = Some (s, r')"
      by (auto split: option.splits)
    then show ?thesis
      using "2.IH" [OF False item(1) refl item(2)] "2.prems"(2) string_item_good [OF item(1)] good_prefix_append by blast
  qed
qed simp

lemma scan_valid:
  assumes "scan r = (value_string s, r')"
  shows "valid_utf8 s"
proof -
  have num: "lexer_scan_number c x \<noteq> (value_string s, r')" for c x
    by (auto simp: lexer_scan_number_def number_token_def Let_def split: option.splits)
  have start: "good_prefix []" by (simp add: good_prefix_def)
  show ?thesis
    using assms num start by (auto simp: scan_def scan_literal_def split: list.splits if_splits option.splits dest: scan_string_good)
qed

section \<open>Exactly UTF-8\<close>

text \<open>
  The definition of UTF-8 (RFC 3629), in arithmetic: a text is a sequence of encoded Unicode scalar
  values. Neither the automaton's table nor the lexer's ranges occur in it.
\<close>

definition scalar :: "nat \<Rightarrow> bool" where
  "scalar cp \<longleftrightarrow> cp < 1114112 \<and> \<not> (55296 \<le> cp \<and> cp \<le> 57343)"

definition utf8_bytes :: "nat \<Rightarrow> nat list" where
  "utf8_bytes cp =
    (if cp < 128 then [cp]
     else if cp \<le> 2047 then [192 + cp div 64, 128 + cp mod 64]
     else if cp \<le> 65535 then [224 + cp div 4096, 128 + cp div 64 mod 64, 128 + cp mod 64]
     else [240 + cp div 262144, 128 + cp div 4096 mod 64, 128 + cp div 64 mod 64, 128 + cp mod 64])"

definition utf8_text :: "string \<Rightarrow> bool" where
  "utf8_text s \<longleftrightarrow> (\<exists>cps. list_all scalar cps \<and> map byte s = concat (map utf8_bytes cps))"

lemma utf8_text_Nil [simp]: "utf8_text []"
  by (auto simp: utf8_text_def intro: exI [of _ "[]"])

lemma utf8_text_append:
  assumes "scalar cp" "map byte b = utf8_bytes cp" "utf8_text s"
  shows "utf8_text (b @ s)"
proof -
  obtain cps where "list_all scalar cps" "map byte s = concat (map utf8_bytes cps)" using assms(3) by (auto simp: utf8_text_def)
  with assms(1,2) show ?thesis unfolding utf8_text_def by (intro exI [of _ "cp # cps"]) simp
qed

lemma byte_inject: "map byte s = map byte t \<longleftrightarrow> s = t"
proof
  assume "map byte s = map byte t"
  then have "map char_of (map byte s) = map char_of (map byte t)" by simp
  then show "s = t" by (simp add: comp_def)
qed simp

lemma utf8_text_valid: "utf8_text s \<Longrightarrow> valid_utf8 s"
proof -
  have "valid_utf8 s" if "list_all scalar cps" "map byte s = concat (map utf8_bytes cps)" for cps
    using that
  proof (induction cps arbitrary: s)
    case Nil
    then show ?case by (simp add: valid_Nil)
  next
    case (Cons cp cps)
    then have cp: "cp < 1114112" "\<not> (55296 \<le> cp \<and> cp \<le> 57343)" by (simp_all add: scalar_def)
    obtain b s' where s: "s = b @ s'" "map byte b = utf8_bytes cp" "map byte s' = concat (map utf8_bytes cps)"
      using Cons.prems(2) by (auto simp: map_eq_append_conv)
    then have "map byte b = map byte (add_codepoint cp)" using add_codepoint_arith [OF cp(1)] by (simp add: utf8_bytes_def)
    then have "b = add_codepoint cp" by (simp only: byte_inject)
    with s(1) add_codepoint_good [OF cp] Cons.IH [OF _ s(3)] Cons.prems(1) show ?case by (simp add: good_prefix_def)
  qed
  then show "utf8_text s \<Longrightarrow> valid_utf8 s" by (auto simp: utf8_text_def)
qed

text \<open>Conversely, bytes within the ranges encode a scalar value.\<close>

lemma digits_64: "n < 64 \<Longrightarrow> (64 * m + n) div 64 = m" "n < 64 \<Longrightarrow> (64 * m + n) mod 64 = (n :: nat)"
  by simp_all

lemma add_up: "a \<le> (b :: nat) \<Longrightarrow> \<exists>k. b = a + k"
  by (rule le_Suc_ex)

lemma encode_two:
  assumes "2 \<le> k" "k < 32" "x < 64"
  shows "scalar (64 * k + x) \<and> utf8_bytes (64 * k + x) = [192 + k, 128 + x]"
  using assms digits_64 [OF assms(3), of k] by (simp add: scalar_def utf8_bytes_def)

lemma encode_three:
  assumes "k < 16" "x < 64" "y < 64" "k = 0 \<longrightarrow> 32 \<le> x" "k = 13 \<longrightarrow> x < 32"
  shows "scalar (64 * (64 * k + x) + y) \<and> utf8_bytes (64 * (64 * k + x) + y) = [224 + k, 128 + x, 128 + y]"
proof -
  let ?q = "64 * k + x"
  let ?cp = "64 * ?q + y"
  have parts: "?cp div 64 = ?q" "?cp mod 64 = y" "?q div 64 = k" "?q mod 64 = x" using assms(2,3) by (simp_all only: digits_64)
  then have top: "?cp div 4096 = k" using div_mult2_eq [of ?cp 64 64] by simp
  have "k < 13 \<or> k = 13 \<or> 14 \<le> k" by linarith
  then have "?q < 864 \<or> 896 \<le> ?q" using assms(2,5) by (elim disjE) simp_all
  moreover have "32 \<le> ?q" "?q < 1024" using assms(1,2,4) by linarith+
  ultimately have "2047 < ?cp" "?cp \<le> 65535" "?cp < 55296 \<or> 57343 < ?cp" using assms(3) by auto
  then show ?thesis using parts top by (auto simp only: scalar_def utf8_bytes_def split: if_splits)
qed

lemma utf8_bytes_four:
  "65535 < cp \<Longrightarrow> cp < 1114112 \<Longrightarrow>
     scalar cp \<and> utf8_bytes cp = [240 + cp div 262144, 128 + cp div 4096 mod 64, 128 + cp div 64 mod 64, 128 + cp mod 64]"
  by (simp add: scalar_def utf8_bytes_def)

lemma four_byte_bounds:
  assumes "16 \<le> p" "p < 272" "x < 64" "y < 64"
  shows "65535 < 64 * (64 * p + x) + y" "64 * (64 * p + x) + y < (1114112 :: nat)"
  using assms by simp_all

lemma encode_four:
  assumes "k < 5" "w < 64" "x < 64" "y < 64" "k = 0 \<longrightarrow> 16 \<le> w" "k = 4 \<longrightarrow> w < 16"
  shows "scalar (64 * (64 * (64 * k + w) + x) + y) \<and> utf8_bytes (64 * (64 * (64 * k + w) + x) + y) = [240 + k, 128 + w, 128 + x, 128 + y]"
proof -
  let ?p = "64 * k + w"
  let ?q = "64 * ?p + x"
  let ?cp = "64 * ?q + y"
  have parts: "?cp div 64 = ?q" "?cp mod 64 = y" "?q div 64 = ?p" "?q mod 64 = x" "?p div 64 = k" "?p mod 64 = w"
    using assms(2-4) by (simp_all only: digits_64)
  have top: "?cp div 4096 = ?p" using parts div_mult2_eq [of ?cp 64 64] by simp
  have "?cp div 262144 = k" using parts top div_mult2_eq [of ?cp 4096 64] by simp
  moreover have "16 \<le> ?p" "?p < 272" using assms by linarith+
  then have "65535 < ?cp" "?cp < 1114112" using four_byte_bounds [of ?p] assms(3,4) by blast+
  ultimately show ?thesis using parts top utf8_bytes_four [of ?cp] by (simp only: simp_thms)
qed

lemma ranges_encode:
  assumes "128 \<le> b" "utf8_ranges b = Some rs" "bytes_in rs ns"
  shows "\<exists>cp. scalar cp \<and> b # ns = utf8_bytes cp"
proof -
  consider "194 \<le> b" "b \<le> 223" "rs = [(128, 191)]"
    | lo hi where "224 \<le> b" "b \<le> 239" "rs = [(lo, hi), (128, 191)]" "128 \<le> lo" "hi \<le> 191" "b = 224 \<longrightarrow> lo = 160" "b = 237 \<longrightarrow> hi = 159"
    | lo hi where "240 \<le> b" "b \<le> 244" "rs = [(lo, hi), (128, 191), (128, 191)]" "128 \<le> lo" "hi \<le> 191" "b = 240 \<longrightarrow> lo = 144" "b = 244 \<longrightarrow> hi = 143"
    using assms(2) unfolding utf8_ranges_def by (auto split: if_splits)
  then show ?thesis
  proof cases
    case 1
    then obtain n where "ns = [n]" "128 \<le> n" "n \<le> 191" using assms(3) by (auto simp: list_all2_Cons1)
    moreover obtain k where "b = 192 + k" using add_up [of 192 b] 1 by auto
    ultimately show ?thesis using encode_two [of k "n - 128"] 1 by (intro exI [of _ "64 * k + (n - 128)"]) simp
  next
    case 2
    then obtain m n where ns: "ns = [m, n]" "lo \<le> m" "m \<le> hi" "128 \<le> n" "n \<le> 191" using assms(3) by (auto simp: list_all2_Cons1)
    obtain k where b: "b = 224 + k" using add_up [OF 2(1)] by auto
    obtain x where m: "m = 128 + x" using add_up [OF order_trans [OF 2(4) ns(2)]] by auto
    obtain y where n: "n = 128 + y" using add_up [OF ns(4)] by auto
    have "k < 16" "x < 64" "y < 64" "k = 0 \<longrightarrow> 32 \<le> x" "k = 13 \<longrightarrow> x < 32" using 2 ns b m n by auto
    from encode_three [OF this] show ?thesis unfolding b ns(1) m n by metis
  next
    case 3
    then obtain l m n where ns: "ns = [l, m, n]" "lo \<le> l" "l \<le> hi" "128 \<le> m" "m \<le> 191" "128 \<le> n" "n \<le> 191"
      using assms(3) by (auto simp: list_all2_Cons1)
    obtain k where b: "b = 240 + k" using add_up [OF 3(1)] by auto
    obtain w where l: "l = 128 + w" using add_up [OF order_trans [OF 3(4) ns(2)]] by auto
    obtain x where m: "m = 128 + x" using add_up [OF ns(4)] by auto
    obtain y where n: "n = 128 + y" using add_up [OF ns(6)] by auto
    have "k < 5" "w < 64" "x < 64" "y < 64" "k = 0 \<longrightarrow> 16 \<le> w" "k = 4 \<longrightarrow> w < 16" using 3 ns b l m n by auto
    from encode_four [OF this] show ?thesis unfolding b ns(1) l m n by metis
  qed
qed

lemma dump_escaped_utf8: "dump_escaped UTF8_ACCEPT cp s = Some out \<Longrightarrow> utf8_text s"
proof (induction "length s" arbitrary: s cp out rule: less_induct)
  case less
  show ?case
  proof (cases s)
    case Nil
    then show ?thesis by simp
  next
    case (Cons c s1)
    obtain st cp1 where d: "utf8_decode UTF8_ACCEPT cp (byte c) = (st, cp1)" by (cases "utf8_decode UTF8_ACCEPT cp (byte c)")
    show ?thesis
    proof (cases "byte c < 128")
      case True
      then obtain out1 where "dump_escaped UTF8_ACCEPT cp1 s1 = Some out1"
        using less.prems d Cons utf8_decode_ascii [OF True, of cp] by (auto simp: byte_def)
      then have "utf8_text s1" using less.hyps Cons by simp
      then show ?thesis using utf8_text_append [of "byte c" "[c]" s1] True Cons by (simp add: scalar_def utf8_bytes_def)
    next
      case False
      then have ge: "128 \<le> byte c" by simp
      have "st \<noteq> UTF8_REJECT" using less.prems d Cons by (auto simp: byte_def UTF8_ACCEPT_def UTF8_REJECT_def split: if_splits)
      note start = utf8_begin [OF ge d this]
      then have "st \<noteq> UTF8_ACCEPT" by (auto simp: UTF8_ACCEPT_def)
      with less.prems d Cons \<open>st \<noteq> UTF8_REJECT\<close> obtain out1 where "dump_escaped st cp1 s1 = Some out1" by (auto simp: byte_def)
      from dump_escaped_continue [OF _ _ this] start obtain bs s2 out2 cp2
        where tail: "s1 = bs @ s2" "next_byte_in_range (state_ranges st) (bs @ s2) = Some (bs, s2)" "dump_escaped UTF8_ACCEPT cp2 s2 = Some out2"
          "length s2 < length s1"
        by blast
      have "bytes_in (state_ranges st) (map byte bs)" using next_byte_split [OF tail(2)] by (simp add: list_all2_conv_all_nth)
      with ranges_encode [OF ge] start obtain cp where "scalar cp" "map byte (c # bs) = utf8_bytes cp" by fastforce
      then show ?thesis using utf8_text_append [of cp "c # bs" s2] less.hyps [OF _ tail(3)] tail(1,4) Cons by simp
    qed
  qed
qed

lemma valid_iff_utf8: "valid_utf8 s \<longleftrightarrow> utf8_text s"
  using utf8_text_valid dump_escaped_utf8 by (fastforce simp: valid_utf8_def)

lemma dump_string_utf8: "(\<exists>out. dump_string s = Some out) \<longleftrightarrow> utf8_text s"
proof
  show "utf8_text s \<Longrightarrow> \<exists>out. dump_string s = Some out"
    using utf8_text_valid [of s] by (auto simp: valid_utf8_def dump_string_def)
qed (auto simp: dump_string_def dest: dump_escaped_utf8)

text \<open>
  C30. The serializer accepts exactly the documents whose strings, keys included, are UTF-8, and throws
  on every other one.
\<close>

theorem serializes_iff_utf8: "(\<exists>out. json_dump dump_float j = Some out) \<longleftrightarrow> json_strings utf8_text j"
proof
  show "json_strings utf8_text j \<Longrightarrow> \<exists>out. json_dump dump_float j = Some out"
    by (rule json_dump_strings [of utf8_text]) (simp_all add: dump_string_utf8)
  show "\<exists>out. json_dump dump_float j = Some out \<Longrightarrow> json_strings utf8_text j"
    by (rule json_dump_strings_only) (simp add: dump_string_utf8 [symmetric])
qed

section \<open>Parsed documents\<close>

text \<open>A property of all scanned strings is one of all strings of the parsed document.\<close>

fun frame_strings :: "(string \<Rightarrow> bool) \<Rightarrow> parse_frame \<Rightarrow> bool" where
  "frame_strings P (ArrayFrame vs) \<longleftrightarrow> list_all (json_strings P) vs"
| "frame_strings P (ObjectFrame ms k) \<longleftrightarrow> P k \<and> json_strings P (JObject ms)"

fun phase_strings :: "(string \<Rightarrow> bool) \<Rightarrow> parse_phase \<Rightarrow> bool" where
  "phase_strings P (Token t) \<longleftrightarrow> (\<forall>s. t = value_string s \<longrightarrow> P s)"
| "phase_strings P (State v) \<longleftrightarrow> json_strings P v"

lemma obj_set_strings: "P k \<Longrightarrow> json_strings P v \<Longrightarrow> json_strings P (JObject ms) \<Longrightarrow> json_strings P (JObject (obj_set k v ms))"
  by (induction k v ms rule: obj_set.induct) auto

lemma scan_key_string: "scan_key t r = Some (k, r') \<Longrightarrow> t = value_string k"
  by (auto simp: scan_key_def split: token_type.splits prod.splits if_splits)

lemma sax_strings:
  assumes scanned: "\<And>r s r'. scan r = (value_string s, r') \<Longrightarrow> P s"
  shows "sax_parse_internal ph r states = Some (v, r') \<Longrightarrow> phase_strings P ph \<Longrightarrow> list_all (frame_strings P) states \<Longrightarrow> json_strings P v"
proof (induction ph r states rule: sax_parse_internal.induct)
  case (1 t r states)
  show ?case
  proof (cases "t = begin_object \<or> t = begin_array")
    case True
    then show ?thesis
    proof
      assume t: "t = begin_object"
      obtain t1 r1 where s1: "scan r = (t1, r1)" by (cases "scan r")
      show ?thesis
      proof (cases "t1 = end_object")
        case True
        with t s1 1 show ?thesis by (simp add: sax_parse_internal.simps(1) [of begin_object])
      next
        case False
        with "1.prems"(1) t s1 obtain k r2 t3 r3 where s3: "scan_key t1 r1 = Some (k, r2)" "scan r2 = (t3, r3)"
          "sax_parse_internal (Token t3) r3 (ObjectFrame [] k # states) = Some (v, r')"
          by (auto simp: sax_parse_internal.simps(1) [of begin_object] split: option.splits prod.splits)
        moreover have "P k" using scan_key_string [OF s3(1)] scanned s1 by blast
        ultimately show ?thesis
          using "1.IH"(11) [OF t s1 [symmetric] False s3(1) refl s3(2) [symmetric]] scanned [of r2] "1.prems"(3) by simp
      qed
    next
      assume t: "t = begin_array"
      obtain t1 r1 where s1: "scan r = (t1, r1)" by (cases "scan r")
      with t "1.prems" "1.IH"(8,9) [OF t s1 [symmetric]] scanned [of r] show ?thesis
        by (simp add: sax_parse_internal.simps(1) [of begin_array] split: if_splits)
    qed
  next
    case False
    with 1 show ?thesis by (cases t) (auto simp: sax_parse_internal.simps(1) split: option.splits)
  qed
next
  case (2 w r)
  then show ?case by simp
next
  case (3 w r vs states)
  then show ?case using scanned by (fastforce split: prod.splits if_splits)
next
  case (4 w r ms key states)
  then show ?case using scanned obj_set_strings [of P key w ms] by (fastforce split: prod.splits if_splits option.splits dest: scan_key_string)
qed

lemma scan_utf8: "scan r = (value_string s, r') \<Longrightarrow> utf8_text s"
  using scan_valid valid_iff_utf8 by blast

text \<open>
  C31. Parsing yields UTF-8 only: whatever bytes are parsed, escapes and surrogate pairs included, every
  string of the document is UTF-8, so the document can be serialized again; text that is not UTF-8
  never gets past the parser.
\<close>

theorem parsed_documents_utf8:
  assumes "json_parse payload = Some j \<or> json_read payload = Some j"
  shows "json_strings utf8_text j \<and> (\<exists>out. json_dump dump_float j = Some out)"
proof -
  obtain t r where first: "first_scan payload = (t, r)" by (cases "first_scan payload")
  with assms obtain r' where sax: "sax_parse_internal (Token t) r [] = Some (j, r')"
    by (auto simp: json_parse_def json_read_def split: option.splits if_splits)
  have "phase_strings utf8_text (Token t)"
    using first scan_utf8 by (auto simp: first_scan_def split: option.splits)
  with sax_strings [of utf8_text, OF scan_utf8 sax] have "json_strings utf8_text j" by simp
  moreover from this have "\<exists>out. json_dump dump_float j = Some out"
    by (rule json_dump_strings [of utf8_text, rotated]) (simp add: dump_string_utf8)
  ultimately show ?thesis ..
qed

text \<open>A document with an escaped code point.\<close>

definition sample_payload :: string where
  "sample_payload = ''['' @ [CHR 0x22, CHR 0x5C] @ ''u00e9'' @ [CHR 0x22] @ '']''"

lemma sample_chars: "char_of (195 :: nat) = CHR 0xC3" "char_of (169 :: nat) = CHR 0xA9"
  by code_simp+

lemma sample_item: "string_item (CHR 0x5C) (''u00e9'' @ r) = Some ([CHR 0xC3, CHR 0xA9], r)"
proof -
  have "add_codepoint 233 = [CHR 0xC3, CHR 0xA9]" by (simp add: add_codepoint_def sample_chars drop_bit_eq_div)
  moreover have "unicode_escape (''00e9'' @ r) = Some (233, r)" by (simp add: unicode_escape_def hex_value_def byte_def)
  ultimately show ?thesis by (simp add: string_item_def simple_escape_def)
qed

lemma sample_parsed: "json_parse sample_payload = Some (JArray [JString [CHR 0xC3, CHR 0xA9]])"
  using sample_item [of "CHR 0x22 # '']''"]
  by (simp add: json_parse_def sample_payload_def first_scan_def skip_bom_def scan_def is_ws_def
      sax_parse_internal.simps(1) [of begin_array] sax_parse_internal.simps(1) [of "value_string s" for s])

theorem parsed_documents_utf8_witness: "json_strings utf8_text (JArray [JString [CHR 0xC3, CHR 0xA9]])"
  using parsed_documents_utf8 [of sample_payload] sample_parsed by blast

end
