(* ===== verification/ProtocolWire.thy ===== *)
theory ProtocolWire
  imports JsonUtf8 JudgeProtocol
begin

text \<open>
  The protocol on bytes: requests that a client serializes are decoded by the server, and responses
  that the server serializes are read back by a client, both with the parser of the JSON library.
\<close>

section \<open>Reading members of a parsed document\<close>

lemma as_read_is_object [simp]: "is_object (as_read j) = is_object j" "is_string (as_read j) = is_string j"
  by (cases j; simp)+

lemma as_read_get [simp]: "get_int (as_read v) = get_int v" "get_string (as_read v) = get_string v" "get_bool (as_read v) = get_bool v"
  by (cases v; simp add: get_int_def)+

lemma as_read_at: "json_at (as_read j) k = (case json_at j k of Inl e \<Rightarrow> Inl e | Inr v \<Rightarrow> Inr (as_read v))"
  by (cases j) (simp_all add: map_of_map split: option.split)

lemma as_read_contains [simp]: "json_contains (as_read j) k = json_contains j k"
  by (cases j) (simp_all add: map_of_map)

lemma as_read_member: "(\<And>v. rd (as_read v) = rd v) \<Longrightarrow> member rd (as_read j) k = member rd j k"
  by (simp add: member_def as_read_at split: sum.split)

lemma as_read_hasType [simp]: "hasType (as_read j) t = hasType j t"
  by (simp add: hasType_def as_read_at split: sum.split)

section \<open>Objects with sorted members\<close>

lemma strict_obj_insert: "sorted_wrt (<) (map fst ms) \<Longrightarrow> sorted_wrt (<) (map fst (obj_insert k v ms))"
proof (induction k v ms rule: obj_insert.induct)
  case (2 k v k' v' ms)
  then show ?case using keys_obj_insert [of k v ms] by (auto simp: neq_iff)
qed simp

lemma writable_obj_insert:
  "json_writable v \<Longrightarrow> json_writable (JObject ms) \<Longrightarrow> json_writable (JObject (obj_insert k v ms))"
proof -
  assume v: "json_writable v" and ms: "json_writable (JObject ms)"
  have "list_all (\<lambda>(k, v). json_writable v) (obj_insert k v ms)"
    using v ms by (induction k v ms rule: obj_insert.induct) auto
  with ms strict_obj_insert show ?thesis by simp
qed

lemma writable_object: "list_all (\<lambda>(k, v). json_writable v) ps \<Longrightarrow> json_writable (json_object ps)"
proof -
  assume ps: "list_all (\<lambda>(k, v). json_writable v) ps"
  have "json_writable (JObject (foldl (\<lambda>ms (k, v). obj_insert k v ms) ms ps))" if "json_writable (JObject ms)" for ms
    using ps that
  proof (induction ps arbitrary: ms)
    case (Cons p ps)
    obtain k v where p: "p = (k, v)" by (cases p)
    from Cons.prems have "json_writable (JObject (obj_insert k v ms))" by (intro writable_obj_insert) (simp_all add: p)
    then show ?case using Cons.IH Cons.prems(1) by (simp add: p)
  qed simp
  then show ?thesis by (simp add: json_object_def)
qed

section \<open>Requests\<close>

text \<open>
  C26. A request survives the wire: the bytes a client gets by serializing its submission or query
  object are decoded by the server to that request, for 32-bit identifiers and any text the
  serializer accepts.
\<close>

theorem requests_survive_wire:
  assumes "- 2147483648 \<le> req_uuid q \<and> req_uuid q \<le> 2147483647" "- 2147483648 \<le> i \<and> i \<le> 2147483647"
    and "json_dump no_float (submit_json q) = Some payload" "json_dump no_float (query_json i) = Some payload'"
  shows "decodeRequest json_parse payload = Some q \<and> decodeQueryRequest json_parse payload' = Some \<lparr>qr_submission_id = i\<rparr>"
proof -
  have "json_writable (submit_json q)" "json_writable (query_json i)"
    unfolding submit_json_def query_json_def using assms(1,2)
    by (auto intro!: writable_object split: SubmissionLanguage.split)
  then have parsed: "json_parse payload = Some (as_read (submit_json q))" "json_parse payload' = Some (as_read (query_json i))"
    using dump_parse(1) assms(3,4) by blast+
  have "decodeRequest (\<lambda>_. Some (submit_json q)) [] = Some q" "decodeQueryRequest (\<lambda>_. Some (query_json i)) [] = Some \<lparr>qr_submission_id = i\<rparr>"
    using decode_client_request [of q i "\<lambda>s. if s = [] then Some (submit_json q) else Some (query_json i)" "[]" "''q''"] assms(1,2)
    by (simp_all add: decodeRequest_def decodeQueryRequest_def parseObjectPayload_def)
  then show ?thesis
    unfolding decodeRequest_Some_iff decodeQuery_Some_iff using parsed by (simp add: as_read_member)
qed

theorem requests_survive_wire_witness:
  "\<exists>payload. json_dump no_float (submit_json \<lparr>req_uuid = 7, req_pid = ''1000'', req_language = PYTHON, req_code = ''x''\<rparr>) = Some payload \<and>
     decodeRequest json_parse payload = Some \<lparr>req_uuid = 7, req_pid = ''1000'', req_language = PYTHON, req_code = ''x''\<rparr>"
proof -
  let ?q = "\<lparr>req_uuid = 7, req_pid = ''1000'', req_language = PYTHON, req_code = ''x''\<rparr>"
  have "json_dump no_float (submit_json ?q) \<noteq> None" "json_dump no_float (query_json 1) \<noteq> None" by code_simp+
  then obtain p p' where "json_dump no_float (submit_json ?q) = Some p" "json_dump no_float (query_json 1) = Some p'" by auto
  with requests_survive_wire [of ?q 1 p p'] show ?thesis by simp
qed

section \<open>Which responses can be sent\<close>

lemma result_utf8: "(\<exists>out. encodeResult r = Some out) \<longleftrightarrow> utf8_text (sr_message r)"
  using responses_serialize_iff(2) [of r] dump_string_utf8 by auto

text \<open>
  C29. Acknowledgements are always serialized; an error response and a result are serialized exactly when
  their message is UTF-8, and otherwise the encoder throws.
\<close>

theorem responses_serialize_iff_utf8:
  "(\<exists>out. encodeSubmissionAck i = Some out) \<and> ((\<exists>out. encodeError m = Some out) \<longleftrightarrow> utf8_text m) \<and>
   ((\<exists>out. encodeResult r = Some out) \<longleftrightarrow> utf8_text (sr_message r))"
  using responses_serialize responses_serialize_iff(1) [of m] dump_string_utf8 result_utf8 by auto

section \<open>Responses\<close>

text \<open>The values a result may hold: the fields are C++ integers of their width.\<close>

definition int32 :: "int \<Rightarrow> bool" where
  "int32 i \<longleftrightarrow> - 2147483648 \<le> i \<and> i \<le> 2147483647"

definition result_fits :: "SubmissionResult \<Rightarrow> bool" where
  "result_fits r \<longleftrightarrow> int32 (sr_submission_id r) \<and>
     (\<forall>c \<in> set (sr_case_results r). int32 (cr_seq_id c) \<and> int32 (cr_cpu_time_ms c) \<and> int32 (cr_real_time_ms c) \<and>
        cr_memory_kb c < 2 ^ 64 \<and> int32 (cr_signal c) \<and> int32 (cr_exit_code c) \<and> int32 (cr_error_code c))"

lemma result_writable: "result_fits r \<Longrightarrow> json_writable (result_json ty r)"
  unfolding result_json_def encodeAsyncEnvelope_def
  by (rule writable_object) (auto simp: result_fits_def int32_def list_all_iff encodeCaseResult_def intro!: writable_object)

lemma case_result_members:
  "int32 (cr_seq_id c) \<Longrightarrow> member get_int (encodeCaseResult c) ''seq_id'' = Some (cr_seq_id c)"
  "member get_string (encodeCaseResult c) ''verdict'' = Some (toVerdictString (cr_verdict c))"
  by (simp_all add: encodeCaseResult_def member_def get_int_def wrap32_id int32_def)

text \<open>
  C28. A client reads back what the server sent: the bytes of a result parse to an object with the
  identifier, status, verdict and message of the result and with one entry for each case that
  carries the case's number and verdict.
\<close>

theorem client_reads_result:
  assumes "result_fits r" "encodeResult r = Some payload"
  shows "\<exists>j cases. json_parse payload = Some j \<and>
    hasType j (if sr_status r = FINISHED \<or> sr_status r = FAILED then ''submission_finished'' else ''submission_update'') \<and>
    member get_int j ''submission_id'' = Some (sr_submission_id r) \<and>
    member get_string j ''status'' = Some (toStatusString (sr_status r)) \<and>
    member get_string j ''verdict'' = Some (toVerdictString (sr_verdict r)) \<and>
    member get_string j ''message'' = Some (sr_message r) \<and>
    json_at j ''case_results'' = Inr (JArray cases) \<and>
    map (\<lambda>c. (member get_int c ''seq_id'', member get_string c ''verdict'')) cases =
      map (\<lambda>c. (Some (cr_seq_id c), Some (toVerdictString (cr_verdict c)))) (sr_case_results r)"
proof -
  define ty where "ty = (if sr_status r = FINISHED \<or> sr_status r = FAILED then ''submission_finished'' else ''submission_update'')"
  let ?j = "as_read (result_json ty r)"
  have "json_dump no_float (result_json ty r) = Some payload"
    using assms(2) by (auto simp: encodeResult_def encodeSubmissionFinished_def encodeSubmissionUpdate_def ty_def split: if_splits)
  then have parsed: "json_parse payload = Some ?j" using dump_parse(1) [OF result_writable [OF assms(1)]] by blast
  have fields: "hasType (result_json ty r) ty" "member get_int (result_json ty r) ''submission_id'' = Some (sr_submission_id r)"
    "member get_string (result_json ty r) ''status'' = Some (toStatusString (sr_status r))"
    "member get_string (result_json ty r) ''verdict'' = Some (toVerdictString (sr_verdict r))"
    "member get_string (result_json ty r) ''message'' = Some (sr_message r)"
    "json_at (result_json ty r) ''case_results'' = Inr (JArray (map encodeCaseResult (sr_case_results r)))"
    using assms(1) by (simp_all add: result_json_def encodeAsyncEnvelope_def hasType_def member_def get_int_def wrap32_id result_fits_def int32_def)
  have "map (\<lambda>c. (member get_int c ''seq_id'', member get_string c ''verdict'')) (map as_read (map encodeCaseResult (sr_case_results r))) =
      map (\<lambda>c. (Some (cr_seq_id c), Some (toVerdictString (cr_verdict c)))) (sr_case_results r)"
    using assms(1) by (simp add: as_read_member case_result_members result_fits_def)
  then show ?thesis
    using parsed fields unfolding ty_def [symmetric]
    by (intro exI [of _ ?j] exI [of _ "map as_read (map encodeCaseResult (sr_case_results r))"]) (simp add: as_read_member as_read_at)
qed

theorem client_reads_result_witness:
  "\<exists>payload j. encodeResult default_result = Some payload \<and> json_parse payload = Some j \<and>
     member get_string j ''verdict'' = Some (toVerdictString (sr_verdict default_result))"
proof -
  have "ascii (sr_message default_result)" by (simp add: ascii_def default_result_def)
  then obtain p where p: "encodeResult default_result = Some p" using responses_serialize by blast
  have "result_fits default_result" by (simp add: result_fits_def int32_def default_result_def)
  from client_reads_result [OF this p] p show ?thesis by blast
qed

end
