(* ===== verification/NetworkProps.thy ===== *)
theory NetworkProps
  imports ClientSockets ServiceFacts ProtocolWire
begin

text \<open>
  What the connection manager promises: the order of the frames a client receives, one response per
  request, delivery to the session that submitted and to no other, and the state of a connection
  after a write event.
\<close>

section \<open>Delivery\<close>

text \<open>A slot after the messages \<open>ms\<close> were queued for it by workers.\<close>

definition append_frames :: "string list \<Rightarrow> ConnectionSlot \<Rightarrow> ConnectionSlot" where
  "append_frames ms sl =
     sl\<lparr>pending_response := pending_response sl @ concat (map frame ms),
        slot_status := (if ms = [] then slot_status sl else WRITABLE)\<rparr>"

definition serves :: "ClientSockets \<Rightarrow> nat \<Rightarrow> nat \<Rightarrow> bool" where
  "serves cs i s \<longleftrightarrow> live (cs_registry cs) i \<and> slot_session_id (reg_slots (cs_registry cs) ! i) = s"

definition channel_of :: "nat \<Rightarrow> nat \<Rightarrow> string" where
  "channel_of i s = rc_to_string \<lparr>rc_slot_id = int i, rc_session_id = s\<rparr>"

definition numbered :: "nat \<Rightarrow> nat \<Rightarrow> bool" where
  "numbered i s \<longleftrightarrow> i \<le> 2147483647 \<and> 0 < s \<and> s < 18446744073709551616"

lemma parse_channel: "numbered i s \<Longrightarrow> rc_parse (channel_of i s) = Some \<lparr>rc_slot_id = int i, rc_session_id = s\<rparr>"
  by (simp add: channel_of_def numbered_def rc_parse_to_string valid_channel_def)

lemma upd_slot_same [simp]: "upd_slot i f (upd_slot i g r) = upd_slot i (f \<circ> g) r"
  by (cases "i < length (reg_slots r)") (simp_all add: upd_slot_def list_update_beyond)

lemma upd_slot_id: "upd_slot i (\<lambda>sl. sl) r = r"
  by (simp add: upd_slot_def)

lemma append_frames_comp [simp]: "append_frames ms \<circ> append_frames ms' = append_frames (ms' @ ms)"
  by (auto simp: append_frames_def fun_eq_iff)

lemma append_frames_Nil [simp]: "append_frames [] = (\<lambda>sl. sl)"
  by (simp add: append_frames_def fun_eq_iff)

lemma serves_upd [simp]:
  "serves (cs\<lparr>cs_registry := upd_slot i (append_frames ms) (cs_registry cs)\<rparr>) j s = serves cs j s"
  by (cases "j = i") (auto simp: serves_def live_def upd_slot_def append_frames_def nth_list_update)

lemma serves_indep [simp]:
  "serves (cs\<lparr>cs_barrier := b\<rparr>) = serves cs" "serves (cs\<lparr>cs_store := st\<rparr>) = serves cs"
  "serves (cs\<lparr>cs_queue := q\<rparr>) = serves cs" "serves (cs\<lparr>cs_wakes := w\<rparr>) = serves cs"
  by (simp_all add: serves_def fun_eq_iff)

lemma append_frames_single: "append_frames [r] = set_writable \<circ> set_pending_response r"
  by (simp add: fun_eq_iff append_frames_def set_writable_def set_pending_response_def queue_response_locked_def frame_def)

lemma frames_immediate:
  "queue_immediate_response i r cs = cs\<lparr>cs_registry := upd_slot i (append_frames [r]) (cs_registry cs)\<rparr>"
  by (simp add: queue_immediate_response_def on_slot_def append_frames_single)

lemma deliver_held:
  "ch \<in> set (awaiting (cs_barrier cs)) \<Longrightarrow>
     queue_protocol_response_for_channel ch m cs = cs\<lparr>cs_barrier := snd (try_defer ch m (cs_barrier cs))\<rparr>"
  by (simp add: queue_protocol_response_for_channel_def try_defer_def)

lemma deliver_open:
  assumes "numbered i s" and "serves cs i s" and "channel_of i s \<notin> set (awaiting (cs_barrier cs))"
  shows "queue_protocol_response_for_channel (channel_of i s) m cs =
    cs\<lparr>cs_registry := upd_slot i (append_frames [m]) (cs_registry cs), cs_wakes := Suc (cs_wakes cs)\<rparr>"
  using assms
  by (simp add: queue_protocol_response_for_channel_def try_defer_def resolve_reply_channel_for_delivery_def
      parse_channel serves_def live_def reg_size_def set_pending_response_if_session_def wake_select_loop_def
      on_slot_def upd_slot_def queue_response_locked_def append_frames_def frame_def)

lemma deliver_stale:
  assumes "numbered i s" and "\<not> serves cs i s"
  shows "cs_registry (queue_protocol_response_for_channel (channel_of i s) m cs) = cs_registry cs"
  using assms
  by (auto simp: queue_protocol_response_for_channel_def try_defer_def resolve_reply_channel_for_delivery_def
      parse_channel serves_def live_def reg_size_def set_pending_response_if_session_def)

lemma deliver_all_open:
  assumes "numbered i s" and "serves cs i s" and "channel_of i s \<notin> set (awaiting (cs_barrier cs))"
  shows "fold (queue_protocol_response_for_channel (channel_of i s)) ms cs =
    cs\<lparr>cs_registry := upd_slot i (append_frames ms) (cs_registry cs), cs_wakes := cs_wakes cs + length ms\<rparr>"
  using assms
proof (induction ms arbitrary: cs)
  case Nil
  then show ?case by (simp add: upd_slot_id)
next
  case (Cons m ms)
  let ?cs = "cs\<lparr>cs_registry := upd_slot i (append_frames [m]) (cs_registry cs), cs_wakes := Suc (cs_wakes cs)\<rparr>"
  have "serves ?cs i s"
    using Cons.prems(2) serves_upd [where i = i and ms = "[m]" and j = i] by (simp add: serves_def)
  with Cons show ?case by (simp add: deliver_open)
qed

lemma deliver_all_held:
  assumes "ch \<in> set (awaiting (cs_barrier cs))"
  shows "\<exists>b. fold (queue_protocol_response_for_channel ch) ms cs = cs\<lparr>cs_barrier := b\<rparr> \<and>
    awaiting b = awaiting (cs_barrier cs) \<and> held ch b = held ch (cs_barrier cs) @ ms \<and>
    (\<forall>ch'. ch' \<noteq> ch \<longrightarrow> held ch' b = held ch' (cs_barrier cs))"
  using assms
proof (induction ms arbitrary: cs)
  case Nil
  then show ?case by (intro exI [of _ "cs_barrier cs"]) simp
next
  case (Cons m ms)
  let ?b = "snd (try_defer ch m (cs_barrier cs))"
  from Cons.IH [of "cs\<lparr>cs_barrier := ?b\<rparr>"] Cons.prems obtain b where
    "fold (queue_protocol_response_for_channel ch) ms (cs\<lparr>cs_barrier := ?b\<rparr>) = cs\<lparr>cs_barrier := b\<rparr>"
    "awaiting b = awaiting ?b" "held ch b = held ch ?b @ ms" "\<forall>ch'. ch' \<noteq> ch \<longrightarrow> held ch' b = held ch' ?b" by auto
  with Cons.prems show ?case by (intro exI [of _ b]) (simp add: deliver_held try_defer_held)
qed

section \<open>Order of responses\<close>

text \<open>The response to a submission, and the general effect of handling one.\<close>

definition submit_response :: "int \<Rightarrow> string option" where
  "submit_response submission_id =
     (if submission_id \<le> 0 then encodeError ''submission queue unavailable'' else encodeSubmissionAck submission_id)"

lemma submit_response_total: "\<exists>response. submit_response k = Some response"
  using responses_serialize [of k "''submission queue unavailable''"]
  by (simp add: submit_response_def ascii_def)

lemma submit_steps_output:
  assumes ok: "numbered i s" "serves cs i s" and empty: "held (channel_of i s) (cs_barrier cs) = []"
    and sub: "submitAsync c request (channel_of i s) now now' (cs_store cs, cs_queue cs) = (k, st, q)"
    and resp: "submit_response k = Some response"
  shows "\<exists>b. submit_steps c i request now now' d1 d2 d3 cs =
      Some (cs\<lparr>cs_registry := upd_slot i (append_frames (d2 @ response # d1 @ d3)) (cs_registry cs), cs_barrier := b,
               cs_store := st, cs_queue := q, cs_wakes := cs_wakes cs + length d2 + length d1 + length d3\<rparr>) \<and>
    set (awaiting b) = set (awaiting (cs_barrier cs)) - {channel_of i s} \<and>
    (\<forall>ch. held ch b = (if ch = channel_of i s then [] else held ch (cs_barrier cs)))"
proof -
  let ?ch = "channel_of i s"
  have ch: "rc_to_string \<lparr>rc_slot_id = int i, rc_session_id = slot_session_id (reg_slots (cs_registry cs) ! i)\<rparr> = ?ch"
    using ok(2) by (simp add: channel_of_def serves_def)
  let ?cs1 = "cs\<lparr>cs_barrier := mark_waiting ?ch (cs_barrier cs), cs_store := st, cs_queue := q\<rparr>"
  have "?ch \<in> set (awaiting (cs_barrier ?cs1))" by simp
  from deliver_all_held [OF this, of d1] empty obtain b where
    b: "fold (queue_protocol_response_for_channel ?ch) d1 ?cs1 = ?cs1\<lparr>cs_barrier := b\<rparr>" "held ?ch b = d1"
      "awaiting b = awaiting (mark_waiting ?ch (cs_barrier cs))" "\<forall>ch'. ch' \<noteq> ?ch \<longrightarrow> held ch' b = held ch' (cs_barrier cs)"
    by auto
  obtain b' where b': "release ?ch b = (d1, b')" "set (awaiting b') = set (awaiting (cs_barrier cs)) - {?ch}"
    "\<forall>ch. held ch b' = (if ch = ?ch then [] else held ch (cs_barrier cs))"
    using release_held(1) [of ?ch b] release_held(2) [of _ ?ch b] release_held(3) [of ?ch b] b(2-4)
    by (cases "release ?ch b") auto
  let ?cs2 = "cs\<lparr>cs_barrier := b', cs_store := st, cs_queue := q\<rparr>"
  note open_simps = deliver_all_open [OF ok(1)] frames_immediate
  have "serves (cs'\<lparr>cs_registry := upd_slot i (append_frames ms) (cs_registry cs)\<rparr>) i s" for cs' :: ClientSockets and ms
    using ok(2) serves_upd [where cs = cs and i = i and ms = ms and j = i] by (simp add: serves_def)
  then have "submit_steps c i request now now' d1 d2 d3 cs =
      Some (cs\<lparr>cs_registry := upd_slot i (append_frames (d2 @ response # d1 @ d3)) (cs_registry cs), cs_barrier := b',
               cs_store := st, cs_queue := q, cs_wakes := cs_wakes cs + length d2 + length d1 + length d3\<rparr>)"
    using ok sub resp b(1) b'
    by (simp add: submit_steps_def ch Let_def submit_response_def open_simps)
  with b'(2,3) show ?thesis by blast
qed

text \<open>A server with two slots whose first slot serves session 1.\<close>

definition demo_sockets :: ClientSockets where
  "demo_sockets = (new_client_sockets 2)\<lparr>cs_registry :=
     (upd_slot 0 (slot_init 7 1) (new_registry 2))\<lparr>free_slot_ids := [1]\<rparr>, cs_next_session := 2\<rparr>"

definition demo_submission :: SubmissionRequest where
  "demo_submission = \<lparr>req_uuid = 0, req_pid = ''1000'', req_language = PYTHON, req_code = ''print(1)''\<rparr>"

lemma demo_serves: "serves demo_sockets 0 1" "numbered 0 1" "held ch (cs_barrier demo_sockets) = []"
  by (simp_all add: serves_def numbered_def demo_sockets_def new_client_sockets_def live_def upd_slot_def new_registry_def
      held_def new_barrier_def)

text \<open>
  C10. A client gets the acknowledgement of a submission before any message about it, in the schedule
  the barrier is made for: messages that workers send before the response is built (\<open>d1\<close>) are held
  and follow the acknowledgement, later ones (\<open>d3\<close>) come after them; the frames are appended to the
  connection's output and nothing else of the table changes; the barrier is open again.
\<close>

theorem ack_precedes_results:
  assumes "numbered i s" and "serves cs i s" and "held (channel_of i s) (cs_barrier cs) = []"
  shows "\<exists>k st q response b.
    submitAsync c request (channel_of i s) now now' (cs_store cs, cs_queue cs) = (k, st, q) \<and>
    (if k \<le> 0 then encodeError ''submission queue unavailable'' else encodeSubmissionAck k) = Some response \<and>
    submit_steps c i request now now' d1 [] d3 cs =
      Some (cs\<lparr>cs_registry := upd_slot i (append_frames (response # d1 @ d3)) (cs_registry cs), cs_barrier := b,
               cs_store := st, cs_queue := q, cs_wakes := cs_wakes cs + length d1 + length d3\<rparr>) \<and>
    channel_of i s \<notin> set (awaiting b) \<and> held (channel_of i s) b = []"
proof -
  obtain k st q where sub: "submitAsync c request (channel_of i s) now now' (cs_store cs, cs_queue cs) = (k, st, q)"
    by (cases "submitAsync c request (channel_of i s) now now' (cs_store cs, cs_queue cs)") auto
  obtain response where "submit_response k = Some response" using submit_response_total by blast
  with sub submit_steps_output [OF assms sub, of response d1 "[]" d3] show ?thesis
    by (force simp: submit_response_def)
qed

theorem ack_precedes_results_witness:
  "\<exists>cs'. submit_steps JNull 0 demo_submission 0 0 [''update''] [] [''finished''] demo_sockets = Some cs' \<and>
     held (channel_of 0 1) (cs_barrier cs') = []"
  using ack_precedes_results [OF demo_serves(2,1,3), of JNull demo_submission 0 0 "[''update'']" "[''finished'']"]
  by auto

text \<open>
  The barrier does not cover the whole handler: it is released before the acknowledgement is
  queued, so a message that a worker delivers in between (\<open>d2\<close>) precedes the acknowledgement on the
  wire.
\<close>

theorem message_overtakes_ack:
  assumes "numbered i s" and "serves cs i s" and "held (channel_of i s) (cs_barrier cs) = []"
  shows "\<exists>response cs'. submit_steps c i request now now' [] [m] [] cs = Some cs' \<and>
    pending_response (reg_slots (cs_registry cs') ! i) =
      pending_response (reg_slots (cs_registry cs) ! i) @ frame m @ frame response"
proof -
  obtain k st q where sub: "submitAsync c request (channel_of i s) now now' (cs_store cs, cs_queue cs) = (k, st, q)"
    by (cases "submitAsync c request (channel_of i s) now now' (cs_store cs, cs_queue cs)") auto
  obtain response where "submit_response k = Some response" using submit_response_total by blast
  moreover have "i < length (reg_slots (cs_registry cs))" using assms(2) by (simp add: serves_def live_def)
  ultimately show ?thesis
    using submit_steps_output [OF assms sub, of response "[]" "[m]" "[]"]
    by (auto simp: upd_slot_def append_frames_def)
qed

theorem message_overtakes_ack_witness:
  "\<exists>response cs'. submit_steps JNull 0 demo_submission 0 0 [] [''finished''] [] demo_sockets = Some cs' \<and>
     pending_response (reg_slots (cs_registry cs') ! 0) = frame ''finished'' @ frame response"
  using message_overtakes_ack [OF demo_serves(2,1,3), of JNull demo_submission 0 0 "''finished''"]
  by (simp add: demo_sockets_def upd_slot_def new_registry_def slot_init_def)

section \<open>One response per request\<close>

definition messages_utf8 :: "ResultStore \<Rightarrow> bool" where
  "messages_utf8 st \<longleftrightarrow> (\<forall>k r. lookup_result st k = Some r \<longrightarrow> utf8_text (sr_message r))"

lemma query_lookup:
  assumes "store_inv st" and "query c k now st = (Some r, st')"
  shows "lookup_result st k = Some r"
  using assms(2) lookup_cleanup [OF assms(1), of c now k]
  by (auto simp: query_def getResult_def Let_def lookup_result_def split: option.splits)

text \<open>The response that the protocol prescribes for a message.\<close>

definition response_to ::
  "(string \<Rightarrow> json option) \<Rightarrow> json \<Rightarrow> string \<Rightarrow> string \<Rightarrow> time \<Rightarrow> time \<Rightarrow> ClientSockets \<Rightarrow> string option" where
  "response_to parse c ch body now now' cs =
     (case (decodeRequest parse body, decodeQueryRequest parse body) of
        (Some request, _) \<Rightarrow> submit_response (fst (submitAsync c request ch now now' (cs_store cs, cs_queue cs)))
      | (None, Some q) \<Rightarrow>
          (case fst (query c (qr_submission_id q) now (cs_store cs)) of
             None \<Rightarrow> encodeError ''submission not found''
           | Some result \<Rightarrow> encodeResult result)
      | (None, None) \<Rightarrow> encodeError ''bad request'')"

lemma handle_query_output:
  assumes "store_inv (cs_store cs)" and "messages_utf8 (cs_store cs)"
  shows "\<exists>response. (case fst (query c (qr_submission_id q) now (cs_store cs)) of
      None \<Rightarrow> encodeError ''submission not found'' | Some result \<Rightarrow> encodeResult result) = Some response \<and>
    handle_query_message c i q now cs =
      Some (cs\<lparr>cs_registry := upd_slot i (append_frames [response]) (cs_registry cs), cs_store := snd (query c (qr_submission_id q) now (cs_store cs))\<rparr>)"
proof (cases "query c (qr_submission_id q) now (cs_store cs)")
  case (Pair a st)
  show ?thesis
  proof (cases a)
    case None
    obtain response where "encodeError ''submission not found'' = Some response"
      using responses_serialize [of 0 "''submission not found''"] by (auto simp: ascii_def)
    with Pair None show ?thesis
      by (intro exI [of _ response]) (simp add: handle_query_message_def handleQuery_def frames_immediate)
  next
    case (Some r)
    then have "utf8_text (sr_message r)"
      using assms Pair by (auto simp: messages_utf8_def dest: query_lookup)
    then obtain response where "encodeResult r = Some response" using result_utf8 by blast
    with Pair Some show ?thesis
      by (intro exI [of _ response]) (simp add: handle_query_message_def handleQuery_def frames_immediate)
  qed
qed

lemma handle_message_output:
  assumes "numbered i s" and "serves cs i s" and "held (channel_of i s) (cs_barrier cs) = []"
    and "store_inv (cs_store cs)" and "messages_utf8 (cs_store cs)"
  shows "\<exists>response cs'. handle_complete_message parse c i body now now' cs = Some cs' \<and>
    response_to parse c (channel_of i s) body now now' cs = Some response \<and>
    cs_registry cs' = upd_slot i (append_frames [response]) (cs_registry cs)"
proof (cases "decodeRequest parse body")
  case (Some request)
  obtain k st q where sub: "submitAsync c request (channel_of i s) now now' (cs_store cs, cs_queue cs) = (k, st, q)"
    by (cases "submitAsync c request (channel_of i s) now now' (cs_store cs, cs_queue cs)") auto
  obtain response where "submit_response k = Some response" using submit_response_total by blast
  with Some sub submit_steps_output [OF assms(1-3) sub, of response "[]" "[]" "[]"] show ?thesis
    by (auto simp: handle_complete_message_def handle_submit_message_def response_to_def)
next
  case None
  show ?thesis
  proof (cases "decodeQueryRequest parse body")
    case (Some q)
    with None handle_query_output [OF assms(4,5), of c q now i] show ?thesis
      by (auto simp: handle_complete_message_def handle_query_or_bad_request_def response_to_def)
  next
    case no: None
    obtain response where "encodeError ''bad request'' = Some response"
      using responses_serialize [of 0 "''bad request''"] by (auto simp: ascii_def)
    with None no show ?thesis
      by (simp add: handle_complete_message_def handle_query_or_bad_request_def response_to_def frames_immediate)
  qed
qed

text \<open>A query that finds a result whose message is not UTF-8: its response cannot be serialized.\<close>

definition unserializable_query ::
  "(string \<Rightarrow> json option) \<Rightarrow> json \<Rightarrow> string \<Rightarrow> time \<Rightarrow> ResultStore \<Rightarrow> bool" where
  "unserializable_query parse c body now st \<longleftrightarrow> decodeRequest parse body = None \<and>
     (case decodeQueryRequest parse body of
        None \<Rightarrow> False
      | Some q \<Rightarrow> (case fst (query c (qr_submission_id q) now st) of
            None \<Rightarrow> False
          | Some result \<Rightarrow> \<not> utf8_text (sr_message result)))"

lemma fixed_errors_serialize:
  "encodeError ''submission not found'' \<noteq> None" "encodeError ''bad request'' \<noteq> None"
  using responses_serialize [of 0 "''submission not found''"] responses_serialize [of 0 "''bad request''"]
  by (auto simp: ascii_def)

lemma result_none_iff: "encodeResult r = None \<longleftrightarrow> \<not> utf8_text (sr_message r)"
  using result_utf8 [of r] by (cases "encodeResult r") auto

lemma response_to_none_iff:
  "response_to parse c ch body now now' cs = None \<longleftrightarrow> unserializable_query parse c body now (cs_store cs)"
proof (cases "decodeRequest parse body")
  case (Some request)
  then show ?thesis
    using submit_response_total [of "fst (submitAsync c request ch now now' (cs_store cs, cs_queue cs))"]
    by (auto simp: response_to_def unserializable_query_def)
next
  case None
  then show ?thesis
    using fixed_errors_serialize
    by (auto simp: response_to_def unserializable_query_def result_none_iff split: option.split)
qed

lemma handle_message_exact:
  assumes "numbered i s" and "serves cs i s" and "held (channel_of i s) (cs_barrier cs) = []"
  shows "map_option cs_registry (handle_complete_message parse c i body now now' cs) =
    map_option (\<lambda>response. upd_slot i (append_frames [response]) (cs_registry cs))
      (response_to parse c (channel_of i s) body now now' cs)"
proof (cases "decodeRequest parse body")
  case (Some request)
  obtain k st q where sub: "submitAsync c request (channel_of i s) now now' (cs_store cs, cs_queue cs) = (k, st, q)"
    by (cases "submitAsync c request (channel_of i s) now now' (cs_store cs, cs_queue cs)") auto
  obtain response where "submit_response k = Some response" using submit_response_total by blast
  with Some sub submit_steps_output [OF assms sub, of response "[]" "[]" "[]"] show ?thesis
    by (auto simp: handle_complete_message_def handle_submit_message_def response_to_def)
next
  case None
  then show ?thesis
    by (auto simp: handle_complete_message_def handle_query_or_bad_request_def handle_query_message_def handleQuery_def
        response_to_def frames_immediate option.map_comp comp_def split: option.split prod.split)
qed


text \<open>A stored result whose message is the byte 0xFF, and a query for it.\<close>

definition bad_message_sockets :: ClientSockets where
  "bad_message_sockets = demo_sockets\<lparr>cs_store := initial_store\<lparr>results :=
     [(1, \<lparr>ss_result = default_result\<lparr>sr_submission_id := 1, sr_status := FAILED, sr_message := [CHR 0xFF]\<rparr>,
           last_access_at = 0, finished_at = Some 0\<rparr>)]\<rparr>\<rparr>"

lemma bad_message_query:
  "unserializable_query (\<lambda>_. Some (query_json 1)) JNull ''query'' 0 (cs_store bad_message_sockets)"
proof -
  have "decodeRequest (\<lambda>_. Some (query_json 1)) ''query'' = None"
    and "decodeQueryRequest (\<lambda>_. Some (query_json 1)) ''query'' = Some \<lparr>qr_submission_id = 1\<rparr>" by code_simp+
  moreover have "map_option sr_message (fst (query JNull 1 0 (cs_store bad_message_sockets))) = Some [CHR 0xFF]" by code_simp
  moreover have "\<not> utf8_text [CHR 0xFF]"
  proof -
    have "dump_string [CHR 0xFF] = None" by code_simp
    then show ?thesis using dump_string_utf8 [of "[CHR 0xFF]"] by simp
  qed
  ultimately show ?thesis by (auto simp: unserializable_query_def)
qed


section \<open>Write events\<close>

lemma write_steps_drained:
  assumes "serves cs i s" and "numbered i s" and "slot_inv (reg_slots (cs_registry cs) ! i)"
    and "slot_status (reg_slots (cs_registry cs) ! i) = WRITABLE" and "pending_response (reg_slots (cs_registry cs) ! i) \<noteq> []"
    and "sent (copy_pending_response (reg_slots (cs_registry cs) ! i)) = Sent n"
    and "length (copy_pending_response (reg_slots (cs_registry cs) ! i)) \<le> n"
    and "channel_of i s \<notin> set (awaiting (cs_barrier cs))"
  shows "write_steps (channel_of i s) d i sent cs =
    Some (copy_pending_response (reg_slots (cs_registry cs) ! i), [],
      cs\<lparr>cs_wakes := cs_wakes cs + length d,
         cs_registry := upd_slot i (\<lambda>sl. sl\<lparr>pending_write_offset := 0, pending_response := concat (map frame d),
           slot_status := READABLE\<rparr>) (cs_registry cs)\<rparr>)"
proof -
  let ?sl = "reg_slots (cs_registry cs) ! i"
  let ?f = "\<lambda>sl. snd (consume_pending_response n sl)"
  let ?cs = "on_slot i ?f cs"
  have i: "i < length (reg_slots (cs_registry cs))" using assms(1) by (simp add: serves_def live_def)
  have all: "length (pending_response ?sl) \<le> pending_write_offset ?sl + n"
    using assms(7) by (simp add: copy_pending_response_def)
  have ne: "copy_pending_response ?sl \<noteq> []" using assms(3,5) by (simp add: copy_pending_response_def slot_inv_def)
  have "serves ?cs i s"
    using assms(1) i by (simp add: serves_def live_def on_slot_def upd_slot_def consume_pending_response_def Let_def)
  moreover have "channel_of i s \<notin> set (awaiting (cs_barrier ?cs))" using assms(8) by (simp add: on_slot_def)
  ultimately have "fold (queue_protocol_response_for_channel (channel_of i s)) d ?cs =
      ?cs\<lparr>cs_registry := upd_slot i (append_frames d) (cs_registry ?cs), cs_wakes := cs_wakes ?cs + length d\<rparr>"
    by (rule deliver_all_open [OF assms(2)])
  then show ?thesis
    using assms(4-7) i all ne
    by (simp add: write_steps_def reg_slot_def is_writable_def has_pending_response_def Let_def)
      (simp add: consume_pending_response_def on_slot_def upd_slot_def append_frames_def set_readable_def Let_def)
qed

text \<open>
  What a write event leaves behind: when the socket took all the pending output, the slot returns
  to READABLE with nothing pending. A message that a worker queues between the two locked steps of the
  handler (\<open>d\<close>) stays pending while its WRITABLE mark is overwritten by READABLE: it waits for the next
  event of that client or the next message.
\<close>

theorem write_event_can_lose_wakeup:
  assumes "serves cs i s" and "numbered i s" and "slot_inv (reg_slots (cs_registry cs) ! i)"
    and "slot_status (reg_slots (cs_registry cs) ! i) = WRITABLE" and "pending_response (reg_slots (cs_registry cs) ! i) \<noteq> []"
    and "sent (copy_pending_response (reg_slots (cs_registry cs) ! i)) = Sent n"
    and "length (copy_pending_response (reg_slots (cs_registry cs) ! i)) \<le> n"
    and "channel_of i s \<notin> set (awaiting (cs_barrier cs))"
  shows "\<exists>cs'. write_steps (channel_of i s) d i sent cs =
      Some (copy_pending_response (reg_slots (cs_registry cs) ! i), [], cs') \<and>
    slot_status (reg_slots (cs_registry cs') ! i) = READABLE \<and>
    copy_pending_response (reg_slots (cs_registry cs') ! i) = concat (map frame d)"
proof -
  have "i < length (reg_slots (cs_registry cs))" using assms(1) by (simp add: serves_def live_def)
  then show ?thesis
    using assms write_steps_drained [of cs i s sent n d] by (simp add: upd_slot_def copy_pending_response_def)
qed

definition demo_writing :: ClientSockets where
  "demo_writing = on_slot 0 (append_frames [''ack'']) demo_sockets"

theorem write_event_can_lose_wakeup_witness:
  "\<exists>cs'. write_steps (channel_of 0 1) [''finished''] 0 (\<lambda>bytes. Sent (length bytes)) demo_writing =
      Some (frame ''ack'', [], cs') \<and>
    slot_status (reg_slots (cs_registry cs') ! 0) = READABLE \<and>
    copy_pending_response (reg_slots (cs_registry cs') ! 0) = frame ''finished''"
proof -
  have sl: "reg_slots (cs_registry demo_writing) ! 0 = append_frames [''ack''] (slot_init 7 1 new_slot)"
    by (simp add: demo_writing_def demo_sockets_def on_slot_def upd_slot_def new_registry_def append_frames_def)
  have "slot_inv (append_frames [''ack''] (slot_init 7 1 new_slot))"
    using slot_inv_queue [OF slot_inv_init [OF slot_inv_new], of "''ack''" 7 1]
    by (simp add: append_frames_single set_writable_def set_pending_response_def)
  moreover have "serves demo_writing 0 1"
    using serves_upd [where cs = demo_sockets and i = 0 and ms = "[''ack'']" and j = 0 and s = 1] demo_serves(1)
    by (simp add: demo_writing_def on_slot_def)
  moreover have "channel_of 0 1 \<notin> set (awaiting (cs_barrier demo_writing))"
    by (simp add: demo_writing_def demo_sockets_def on_slot_def new_client_sockets_def new_barrier_def)
  ultimately show ?thesis
    using write_event_can_lose_wakeup [of demo_writing 0 1 "\<lambda>bytes. Sent (length bytes)" "length (frame ''ack'')" "[''finished'']"]
    unfolding sl
    by (simp add: numbered_def append_frames_def slot_init_def copy_pending_response_def frame_def be32_encode_def)
qed

section \<open>Notifications\<close>

text \<open>
  The start notification is silent: a worker announces a task before it processes it, when the
  record is still QUEUED, and the responder sends nothing for a QUEUED record. No connection's output
  changes.
\<close>

theorem started_notification_is_silent:
  assumes "store_inv (cs_store cs)" and "lookup_result (cs_store cs) (task_submission_id task) = Some r"
    and "sr_status r = QUEUED"
  shows "\<exists>cs'. onSubmissionStarted c task now cs = Some cs' \<and> cs_registry cs' = cs_registry cs \<and>
    cs_barrier cs' = cs_barrier cs \<and> cs_wakes cs' = cs_wakes cs"
proof -
  obtain a st where q: "query c (task_submission_id task) now (cs_store cs) = (a, st)"
    by (cases "query c (task_submission_id task) now (cs_store cs)")
  with assms query_lookup [OF assms(1)] have "\<And>r'. a = Some r' \<Longrightarrow> sr_status r' = QUEUED" by fastforce
  with q show ?thesis
    by (cases a) (auto simp: onSubmissionStarted_def responder_started_def deliver_event_def)
qed

theorem started_notification_is_silent_witness:
  "\<exists>cs'. onSubmissionStarted JNull \<lparr>task_submission_id = 1, task_request = demo_submission, task_reply_channel_id = ''0:1''\<rparr> 9
      (demo_sockets\<lparr>cs_store := snd (createSubmission JNull demo_submission 0 0 initial_store)\<rparr>) = Some cs' \<and>
    cs_registry cs' = cs_registry demo_sockets"
proof -
  let ?st = "snd (createSubmission JNull demo_submission 0 0 initial_store)"
  have "store_inv ?st"
    by (rule store_inv_create [OF store_inv_initial]) (simp add: initial_store_def int32_max_def)
  moreover have "lookup_result ?st 1 = Some (default_result\<lparr>sr_submission_id := 1, sr_status := QUEUED\<rparr>)"
    by (simp add: createSubmission_def Let_def lookup_result_def update_conv initial_store_def)
  ultimately show ?thesis
    using started_notification_is_silent [of "demo_sockets\<lparr>cs_store := ?st\<rparr>"
        "\<lparr>task_submission_id = 1, task_request = demo_submission, task_reply_channel_id = ''0:1''\<rparr>"
        "default_result\<lparr>sr_submission_id := 1, sr_status := QUEUED\<rparr>" JNull 9]
    by auto
qed


definition demo_finished_store :: ResultStore where
  "demo_finished_store = initial_store\<lparr>results := [(1, \<lparr>ss_result = default_result\<lparr>sr_submission_id := 1, sr_status := FAILED\<rparr>,
     last_access_at = 0, finished_at = Some 0\<rparr>)], next_submission_id := 2\<rparr>"


section \<open>Sessions\<close>

text \<open>
  A history of the connection manager: clients connect, sockets become readable or writable, and
  workers notify. The socket and write answers are part of the event.
\<close>

datatype net_event =
    Accepted int "nat \<Rightarrow> write_answer"
  | Readable nat read_outcome time time
  | Writable nat "string \<Rightarrow> send_answer"
  | Started SubmissionTask time
  | Finished SubmissionTask time

fun net_step :: "(string \<Rightarrow> json option) \<Rightarrow> json \<Rightarrow> net_event \<Rightarrow> ClientSockets \<Rightarrow> ClientSockets option" where
  "net_step parse c (Accepted fd wr) cs = map_option (\<lambda>(_, _, cs'). cs') (register_client_socket wr fd cs)"
| "net_step parse c (Readable i outcome now now') cs = map_option snd (handle_read_event parse c i outcome now now' cs)"
| "net_step parse c (Writable i sent) cs = map_option (\<lambda>(_, _, cs'). cs') (handle_write_event i sent cs)"
| "net_step parse c (Started task now) cs = onSubmissionStarted c task now cs"
| "net_step parse c (Finished task now) cs = onSubmissionFinished c task now cs"

fun net_run :: "(string \<Rightarrow> json option) \<Rightarrow> json \<Rightarrow> net_event list \<Rightarrow> ClientSockets \<Rightarrow> ClientSockets option" where
  "net_run parse c [] cs = Some cs"
| "net_run parse c (e # es) cs = Option.bind (net_step parse c e cs) (net_run parse c es)"

text \<open>The sockets and sessions of the table.\<close>

definition conns :: "ClientSockets \<Rightarrow> (int \<times> nat) list" where
  "conns cs = map (\<lambda>sl. (slot_fd sl, slot_session_id sl)) (reg_slots (cs_registry cs))"

definition keeps_conn :: "(ConnectionSlot \<Rightarrow> ConnectionSlot) \<Rightarrow> bool" where
  "keeps_conn f \<longleftrightarrow> (\<forall>sl. slot_fd (f sl) = slot_fd sl \<and> slot_session_id (f sl) = slot_session_id sl)"

named_theorems conn_simps

lemma keeps_conn_slot [conn_simps]:
  "keeps_conn set_writable" "keeps_conn set_readable" "keeps_conn (set_pending_response r)"
  "keeps_conn (\<lambda>sl. snd (set_pending_response_if_session s r sl))" "keeps_conn (\<lambda>sl. snd (consume_pending_response n sl))"
  by (simp_all add: keeps_conn_def set_writable_def set_readable_def set_pending_response_def queue_response_locked_def
      set_pending_response_if_session_def consume_pending_response_def Let_def)

lemma conns_indep [conn_simps]:
  "conns (cs\<lparr>cs_barrier := b\<rparr>) = conns cs" "conns (cs\<lparr>cs_store := st\<rparr>) = conns cs"
  "conns (cs\<lparr>cs_queue := q\<rparr>) = conns cs" "conns (wake_select_loop cs) = conns cs"
  "conns (cs\<lparr>cs_next_session := k\<rparr>) = conns cs"
  by (simp_all add: conns_def wake_select_loop_def)

lemma conns_on_slot_at:
  assumes "slot_fd (f (reg_slots (cs_registry cs) ! i)) = slot_fd (reg_slots (cs_registry cs) ! i)"
    and "slot_session_id (f (reg_slots (cs_registry cs) ! i)) = slot_session_id (reg_slots (cs_registry cs) ! i)"
  shows "conns (on_slot i f cs) = conns cs"
  using assms
  by (cases "i < length (reg_slots (cs_registry cs))")
    (simp_all add: conns_def on_slot_def upd_slot_def map_update list_update_same_conv list_update_beyond)

lemma conns_on_slot [conn_simps]: "keeps_conn f \<Longrightarrow> conns (on_slot i f cs) = conns cs"
  by (rule conns_on_slot_at) (simp_all add: keeps_conn_def)

lemma conns_deliver [conn_simps]: "conns (queue_protocol_response_for_channel ch m cs) = conns cs"
  by (simp add: queue_protocol_response_for_channel_def Let_def conn_simps split: prod.split bool.split option.split)

lemma conns_deliver_all [conn_simps]: "conns (fold (queue_protocol_response_for_channel ch) ms cs) = conns cs"
  by (induction ms arbitrary: cs) (simp_all add: conn_simps)

lemma conns_immediate [conn_simps]: "conns (queue_immediate_response i r cs) = conns cs"
  by (simp add: queue_immediate_response_def conn_simps)

lemma next_session_deliver [conn_simps]: "cs_next_session (queue_protocol_response_for_channel ch m cs) = cs_next_session cs"
  by (simp add: queue_protocol_response_for_channel_def Let_def on_slot_def wake_select_loop_def
      split: prod.split bool.split option.split)

lemma next_session_deliver_all [conn_simps]:
  "cs_next_session (fold (queue_protocol_response_for_channel ch) ms cs) = cs_next_session cs"
  by (induction ms arbitrary: cs) (simp_all add: conn_simps)

lemma next_session_slot [conn_simps]:
  "cs_next_session (on_slot i f cs) = cs_next_session cs" "cs_next_session (queue_immediate_response i r cs) = cs_next_session cs"
  by (simp_all add: on_slot_def queue_immediate_response_def)

lemma conns_message:
  assumes "handle_complete_message parse c i body now now' cs = Some cs'"
  shows "conns cs' = conns cs" and "cs_next_session cs' = cs_next_session cs"
  using assms
  by (auto simp: handle_complete_message_def handle_submit_message_def submit_steps_def Let_def conn_simps
      handle_query_or_bad_request_def handle_query_message_def split: option.splits prod.splits)

lemma release_conns:
  assumes "release_connection i cs = Some (cl, cs')"
  shows "(conns cs' = conns cs \<or> conns cs' = (conns cs)[i := (0, 0)]) \<and> cs_next_session cs' = cs_next_session cs"
  using assms
  by (auto simp: release_connection_def release_slot_def clear_slot_def reg_slot_def upd_slot_def conns_def map_update
      slot_clear_def split: option.splits if_splits)

lemma read_message_conn:
  assumes "read_message outcome sl = Some (b, n, body, sl')"
  shows "slot_fd sl' = slot_fd sl" "slot_session_id sl' = slot_session_id sl"
  using assms by (auto simp: read_message_def Let_def set_idle_def split: option.splits if_splits)

lemma read_event_conns:
  assumes "handle_read_event parse c i outcome now now' cs = Some (cl, cs')"
  shows "(conns cs' = conns cs \<or> conns cs' = (conns cs)[i := (0, 0)]) \<and> cs_next_session cs' = cs_next_session cs"
proof -
  from assms obtain b n body sl' where rm: "reg_slot i (cs_registry cs) = Some (reg_slots (cs_registry cs) ! i)"
    "read_message outcome (reg_slots (cs_registry cs) ! i) = Some (b, n, body, sl')"
    by (auto simp: handle_read_event_def reg_slot_def split: option.splits if_splits)
  let ?cs = "on_slot i (\<lambda>_. sl') cs"
  have k: "conns ?cs = conns cs" "cs_next_session ?cs = cs_next_session cs"
    using read_message_conn [OF rm(2)] by (simp_all add: conns_on_slot_at conn_simps)
  from assms rm have "release_connection i ?cs = Some (cl, cs') \<or> cs' = ?cs \<or>
      handle_complete_message parse c i body now now' ?cs = Some cs'"
    by (auto simp: handle_read_event_def Let_def split: if_splits)
  with k release_conns [of i ?cs cl cs'] conns_message [of parse c i body now now' ?cs cs'] show ?thesis by auto
qed

lemma write_event_conns:
  assumes "handle_write_event i sent cs = Some (out, cl, cs')"
  shows "(conns cs' = conns cs \<or> conns cs' = (conns cs)[i := (0, 0)]) \<and> cs_next_session cs' = cs_next_session cs"
proof -
  from assms have "release_connection i cs = Some (cl, cs') \<or> conns cs' = conns cs \<and> cs_next_session cs' = cs_next_session cs"
    by (auto simp: handle_write_event_def write_steps_def Let_def conn_simps
        split: option.splits if_splits send_answer.splits)
  with release_conns [of i cs cl cs'] show ?thesis by auto
qed

lemma register_conns:
  assumes "register_client_socket wr fd cs = Some (cl, out, cs')"
  shows "(conns cs' = conns cs \<or> (\<exists>i. conns cs' = (conns cs)[i := (fd, cs_next_session cs)])) \<and>
    cs_next_session cs' = (cs_next_session cs + 1) mod 18446744073709551616"
  using assms
  by (auto simp: register_client_socket_def acquire_slot_def init_slot_def reg_slot_def upd_slot_def conns_def map_update
      slot_init_def Let_def split: option.splits if_splits list.splits) blast

lemma notify_conns:
  assumes "onSubmissionStarted c task now cs = Some cs' \<or> onSubmissionFinished c task now cs = Some cs'"
  shows "conns cs' = conns cs" and "cs_next_session cs' = cs_next_session cs"
  using assms
  by (auto simp: onSubmissionStarted_def onSubmissionFinished_def deliver_event_def conn_simps
      split: if_splits prod.splits option.splits)

text \<open>The session numbers that a history uses; \<open>sessions_left\<close> says that the counter does not wrap around.\<close>

fun accepted_by :: "net_event \<Rightarrow> nat" where
  "accepted_by (Accepted fd wr) = 1"
| "accepted_by _ = 0"

definition sessions_left :: "net_event list \<Rightarrow> ClientSockets \<Rightarrow> bool" where
  "sessions_left es cs \<longleftrightarrow> cs_next_session cs + sum_list (map accepted_by es) < 18446744073709551616"

lemma net_step_conns:
  assumes "net_step parse c e cs = Some cs'" and "cs_next_session cs + accepted_by e < 18446744073709551616"
  shows "cs_next_session cs' = cs_next_session cs + accepted_by e \<and> (conns cs' = conns cs \<or> (\<exists>i. conns cs' = (conns cs)[i := (0, 0)]) \<or>
    (\<exists>i fd. conns cs' = (conns cs)[i := (fd, cs_next_session cs)] \<and> cs_next_session cs < cs_next_session cs'))"
proof (cases e)
  case (Accepted fd wr)
  with assms(1) obtain cl out where "register_client_socket wr fd cs = Some (cl, out, cs')" by auto
  from register_conns [OF this] Accepted assms(2) show ?thesis by auto
next
  case (Readable i outcome now now')
  with assms(1) read_event_conns show ?thesis by (fastforce simp: map_option_case split: option.splits)
next
  case (Writable i sent)
  with assms(1) write_event_conns show ?thesis by (fastforce simp: map_option_case split: option.splits)
next
  case (Started task now)
  with assms(1) notify_conns [of c task now cs cs'] show ?thesis by simp
next
  case (Finished task now)
  with assms(1) notify_conns [of c task now cs cs'] show ?thesis by simp
qed

text \<open>The session was issued and no connection has it any more.\<close>

definition session_over :: "nat \<Rightarrow> ClientSockets \<Rightarrow> bool" where
  "session_over s cs \<longleftrightarrow> s < cs_next_session cs \<and> (\<forall>(fd, t) \<in> set (conns cs). fd \<noteq> 0 \<longrightarrow> t \<noteq> s)"

lemma session_over_not_served: "session_over s cs \<Longrightarrow> \<not> serves cs i s"
  by (force simp: session_over_def serves_def live_def conns_def)

lemma session_over_update:
  assumes "session_over s cs" and "conns cs' = (conns cs)[i := (fd, t)]" and "fd = 0 \<or> t \<noteq> s"
    and "cs_next_session cs \<le> cs_next_session cs'"
  shows "session_over s cs'"
  using assms set_update_subset_insert [of "conns cs" i "(fd, t)"] by (fastforce simp: session_over_def)

lemma session_over_step:
  assumes "session_over s cs" and "net_step parse c e cs = Some cs'" and "cs_next_session cs + accepted_by e < 18446744073709551616"
  shows "session_over s cs'"
proof -
  note step = net_step_conns [OF assms(2,3)]
  then have le: "cs_next_session cs \<le> cs_next_session cs'" by simp
  from step show ?thesis
  proof (elim conjE disjE exE)
    assume "conns cs' = conns cs"
    with assms(1) le show ?thesis by (auto simp: session_over_def)
  qed (use assms(1) le session_over_update in \<open>force simp: session_over_def\<close>)+
qed

lemma session_over_run:
  "session_over s cs \<Longrightarrow> net_run parse c es cs = Some cs' \<Longrightarrow> sessions_left es cs \<Longrightarrow> session_over s cs'"
proof (induction es arbitrary: cs)
  case (Cons e es)
  from Cons.prems(2) obtain cs1 where step: "net_step parse c e cs = Some cs1" and rest: "net_run parse c es cs1 = Some cs'"
    by (auto simp: bind_eq_Some_conv)
  have left: "cs_next_session cs + accepted_by e < 18446744073709551616"
    using Cons.prems(3) by (simp add: sessions_left_def)
  have "sessions_left es cs1" using Cons.prems(3) net_step_conns [OF step left] by (simp add: sessions_left_def)
  with Cons.IH [OF session_over_step [OF Cons.prems(1) step left] rest] show ?case by simp
qed simp

text \<open>
  C11. A result never reaches the wrong client, as long as the 64-bit counter of sessions does not wrap
  around: once a session's connection is closed, after any further events with at most as many new
  connections as there are session numbers left, new connections in the same slot included, a message
  for the session's channel changes no connection.
\<close>

theorem closed_session_never_served:
  assumes "session_over s cs" and "net_run parse c es cs = Some cs'" and "sessions_left es cs" and "numbered i s"
  shows "cs_registry (queue_protocol_response_for_channel (channel_of i s) m cs') = cs_registry cs'"
  using deliver_stale [OF assms(4)] session_over_not_served [OF session_over_run [OF assms(1-3)]] by blast

theorem closed_session_never_served_witness:
  "\<exists>cs cs'. release_connection 0 demo_sockets = Some ([7], cs) \<and>
     net_run (\<lambda>_. None) JNull [Accepted 8 (\<lambda>_. WriteFailed), Accepted 9 (\<lambda>_. WriteFailed)] cs = Some cs' \<and>
     serves cs' 0 3 \<and>
     cs_registry (queue_protocol_response_for_channel (channel_of 0 1) ''finished'' cs') = cs_registry cs'"
proof -
  note defs = demo_sockets_def new_client_sockets_def new_registry_def upd_slot_def new_slot_def reg_slot_def
  define cs where "cs = snd (the (release_connection 0 demo_sockets))"
  note steps = defs release_connection_def release_slot_def clear_slot_def slot_clear_def slot_init_def upt_rec
  have cs: "release_connection 0 demo_sockets = Some ([7], cs)" by (simp add: cs_def steps)
  have over: "session_over 1 cs" by (simp add: cs_def steps session_over_def conns_def numeral_2_eq_2)
  have "\<exists>cs'. net_run (\<lambda>_. None) JNull [Accepted 8 (\<lambda>_. WriteFailed), Accepted 9 (\<lambda>_. WriteFailed)] cs = Some cs' \<and>
      serves cs' 0 3"
    by (simp add: cs_def steps register_client_socket_def acquire_slot_def init_slot_def Let_def serves_def live_def)
  moreover have "sessions_left [Accepted 8 (\<lambda>_. WriteFailed), Accepted 9 (\<lambda>_. WriteFailed)] cs"
    by (simp add: sessions_left_def cs_def steps)
  ultimately show ?thesis using cs closed_session_never_served [OF over _ _ demo_serves(2)] by blast
qed

end
