(* ===== verification/ServerSafety.thy ===== *)
theory ServerSafety
  imports TcpServer NetworkProps
begin

text \<open>
  The select thread does not fail: with the invariant of the connection manager every read event,
  every write event and every round of the loop returns and keeps the invariant, whatever the
  clients send and whatever the sockets answer.
\<close>

section \<open>Reading never fails\<close>

fun outcome_ok :: "read_outcome \<Rightarrow> bool" where
  "outcome_ok (ReadBytes bs) = (length bs \<le> extrabuf_size)"
| "outcome_ok (ReadError e) = True"

lemma retrieve_body:
  assumes "buffer_inv b" and "4 + n \<le> readableBytes b"
  shows "\<exists>body. retrieveAsString n (retrieve 4 b) = Some (body, retrieve n (retrieve 4 b))"
  using assms retrieveAsString_readable [of "retrieve 4 b" n]
  by (simp add: buffer_inv_retrieve length_readable [symmetric] readable_retrieve)

lemma read_message_total:
  assumes "slot_inv sl" and "outcome_ok outcome"
  shows "\<exists>has n body sl'. read_message outcome sl = Some (has, n, body, sl') \<and> slot_inv sl'"
proof (cases outcome)
  case (ReadError e)
  with assms(1) have "read_message outcome sl = Some (False, - 1, [], sl)" by (simp add: read_message_def readFd_def)
  with assms(1) show ?thesis by blast
next
  case (ReadBytes bs)
  have "buffer_inv (input_buffer sl)" using assms(1) by (simp add: slot_inv_def)
  with assms(2) ReadBytes obtain b where b: "readFd (ReadBytes bs) (input_buffer sl) = Some (int (length bs), 0, b)" "buffer_inv b"
    using rb.fill_bytes [of "input_buffer sl" bs] by auto
  have inv: "slot_inv (sl\<lparr>input_buffer := b\<rparr>)" if "buffer_inv b" for b
    using assms(1) that by (simp add: slot_inv_def)
  show ?thesis
  proof (cases "bs = [] \<or> readableBytes b < 4")
    case True
    with ReadBytes b inv show ?thesis by (auto simp: read_message_def Let_def)
  next
    case False
    with b(2) have p: "peek_bytes 4 b = Some (take 4 (readable b))" by (simp add: peek_readable length_readable)
    let ?n = "be32_decode (take 4 (readable b))"
    show ?thesis
    proof (cases "readableBytes b < 4 + ?n")
      case True
      with False ReadBytes b inv p show ?thesis by (auto simp: read_message_def Let_def)
    next
      case enough: False
      then obtain body where "retrieveAsString ?n (retrieve 4 b) = Some (body, retrieve ?n (retrieve 4 b))"
        using retrieve_body [OF b(2), of ?n] by auto
      with False enough ReadBytes b p have "read_message outcome sl = Some (True, int (length bs), body,
          sl\<lparr>input_buffer := retrieve ?n (retrieve 4 b), slot_status := IDLE\<rparr>)"
        by (simp add: read_message_def Let_def set_idle_def)
      then show ?thesis using inv [of "retrieve ?n (retrieve 4 b)"] b(2) by (simp add: buffer_inv_retrieve) (rule exI, rule TrueI)
    qed
  qed
qed

section \<open>The invariant\<close>

definition sessions_ok :: "ClientSockets \<Rightarrow> bool" where
  "sessions_ok cs \<longleftrightarrow> 0 < cs_next_session cs \<and>
     (\<forall>(fd, s) \<in> set (conns cs). fd \<noteq> 0 \<longrightarrow> 0 < s \<and> s < cs_next_session cs)"

definition net_ok :: "ClientSockets \<Rightarrow> bool" where
  "net_ok cs \<longleftrightarrow> reg_inv (cs_registry cs) \<and> reg_size (cs_registry cs) \<le> 2147483648 \<and> sessions_ok cs \<and>
     store_inv (cs_store cs) \<and> messages_utf8 (cs_store cs) \<and>
     awaiting (cs_barrier cs) = [] \<and> (\<forall>ch. held ch (cs_barrier cs) = [])"

text \<open>The counters are far enough from their ends for \<open>n\<close> more events.\<close>

definition room :: "nat \<Rightarrow> ClientSockets \<Rightarrow> bool" where
  "room n cs \<longleftrightarrow> cs_next_session cs + n < 18446744073709551616 \<and> next_submission_id (cs_store cs) + int n \<le> int32_max"

lemma room_mono: "room n cs \<Longrightarrow> m \<le> n \<Longrightarrow> room m cs"
  by (auto simp: room_def)

lemma reg_inv_keep:
  assumes "reg_inv r" and "\<And>sl. slot_fd (f sl) = slot_fd sl" and "\<And>sl. slot_inv sl \<Longrightarrow> slot_inv (f sl)"
  shows "reg_inv (upd_slot i f r)"
proof (cases "i < length (reg_slots r)")
  case True
  then have "reg_inv (r\<lparr>reg_slots := (reg_slots r)[i := f (reg_slots r ! i)], free_slot_ids := free_slot_ids r\<rparr>)"
    using assms by (intro reg_inv_upd) (auto simp: reg_inv_def)
  then show ?thesis by (simp add: upd_slot_def)
next
  case False
  with assms(1) show ?thesis by (simp add: upd_slot_def list_update_beyond)
qed

lemma slot_inv_append_frames: "slot_inv sl \<Longrightarrow> slot_inv (append_frames [r] sl)"
  by (simp add: append_frames_single set_writable_def set_pending_response_def slot_inv_queue)

lemma append_frames_fd [simp]: "slot_fd (append_frames ms sl) = slot_fd sl" "slot_session_id (append_frames ms sl) = slot_session_id sl"
  by (simp_all add: append_frames_def)

lemma reg_size_upd [simp]: "reg_size (upd_slot i f r) = reg_size r"
  by (simp add: reg_size_def upd_slot_def)

lemma live_session:
  assumes "sessions_ok cs" and "live (cs_registry cs) i" and "room n cs" and "reg_size (cs_registry cs) \<le> 2147483648"
  shows "numbered i (slot_session_id (reg_slots (cs_registry cs) ! i))" and "serves cs i (slot_session_id (reg_slots (cs_registry cs) ! i))"
proof -
  have "(slot_fd (reg_slots (cs_registry cs) ! i), slot_session_id (reg_slots (cs_registry cs) ! i)) \<in> set (conns cs)"
    using assms(2) by (force simp: conns_def live_def)
  with assms show "numbered i (slot_session_id (reg_slots (cs_registry cs) ! i))"
    by (auto simp: sessions_ok_def live_def numbered_def room_def reg_size_def)
qed (use assms(2) in \<open>simp add: serves_def\<close>)

section \<open>The store\<close>

lemma messages_utf8_cleanup:
  assumes "store_inv st" and "messages_utf8 st"
  shows "messages_utf8 (cleanupExpiredResultsLocked c now st)"
  unfolding messages_utf8_def
proof (intro allI impI)
  fix k r
  assume "lookup_result (cleanupExpiredResultsLocked c now st) k = Some r"
  with lookup_cleanup [OF assms(1), of c now k] have "lookup_result st k = Some r" by auto
  with assms(2) show "utf8_text (sr_message r)" by (simp add: messages_utf8_def)
qed

lemma lookup_create:
  "lookup_result (snd (createSubmission c request now now' st)) k =
     (if k = next_submission_id st then Some (default_result\<lparr>sr_submission_id := k, sr_status := QUEUED\<rparr>)
      else lookup_result (cleanupExpiredResultsLocked c now st) k)"
  by (simp add: createSubmission_def Let_def lookup_result_def update_conv)

lemma lookup_query:
  "lookup_result (snd (query c i now st)) k = lookup_result (cleanupExpiredResultsLocked c now st) k"
  by (auto simp: query_def getResult_def Let_def lookup_result_def update_conv split: option.split)

lemma messages_utf8_create:
  assumes "store_inv st" and "messages_utf8 st"
  shows "messages_utf8 (snd (createSubmission c request now now' st))"
  using messages_utf8_cleanup [OF assms, of c now]
  by (auto simp: messages_utf8_def lookup_create) (simp add: default_result_def ascii_def)

lemma messages_utf8_query:
  assumes "store_inv st" and "messages_utf8 st"
  shows "messages_utf8 (snd (query c k now st))"
  using messages_utf8_cleanup [OF assms, of c now] by (simp add: messages_utf8_def lookup_query)

lemma submitAsync_store:
  "fst (snd (submitAsync c request ch now now' (st, q))) = snd (createSubmission c request now now' st)"
  by (simp add: submitAsync_def split: prod.split bool.split)

section \<open>Messages\<close>

text \<open>A change of the connection table and of the store that keeps the invariant.\<close>

lemma net_ok_change:
  assumes "net_ok cs" and "reg_inv r" and "reg_size r = reg_size (cs_registry cs)" and "cs_registry cs' = r"
    and "set (conns cs') \<subseteq> insert (0, 0) (set (conns cs))" and "cs_next_session cs' = cs_next_session cs"
    and "store_inv (cs_store cs')" and "messages_utf8 (cs_store cs')"
    and "awaiting (cs_barrier cs') = []" and "\<forall>ch. held ch (cs_barrier cs') = []"
  shows "net_ok cs'"
  using assms by (fastforce simp: net_ok_def sessions_ok_def)

lemma net_ok_slot:
  assumes "net_ok cs" and "slot_inv sl'" and "slot_fd sl' = slot_fd (reg_slots (cs_registry cs) ! i)"
    and "slot_session_id sl' = slot_session_id (reg_slots (cs_registry cs) ! i)"
  shows "net_ok (on_slot i (\<lambda>_. sl') cs)"
proof -
  have "reg_inv (upd_slot i (\<lambda>_. sl') (cs_registry cs))"
  proof (cases "i < length (reg_slots (cs_registry cs))")
    case True
    then have "reg_inv ((cs_registry cs)\<lparr>reg_slots := (reg_slots (cs_registry cs))[i := sl'],
        free_slot_ids := free_slot_ids (cs_registry cs)\<rparr>)"
      using assms by (intro reg_inv_upd) (auto simp: net_ok_def reg_inv_def)
    then show ?thesis by (simp add: upd_slot_def)
  next
    case False
    with assms(1) show ?thesis by (simp add: upd_slot_def list_update_beyond net_ok_def)
  qed
  then show ?thesis
    using assms(1) conns_on_slot_at [of "\<lambda>_. sl'" cs i] assms(3,4)
    by (intro net_ok_change [OF assms(1) _ _ refl]) (auto simp: on_slot_def net_ok_def)
qed

lemma net_ok_message:
  assumes ok: "net_ok cs" and room: "room (Suc n) cs" and live: "live (cs_registry cs) i"
  shows "\<exists>cs'. handle_complete_message parse c i body now now' cs = Some cs' \<and> net_ok cs' \<and> room n cs' \<and>
    (\<exists>response. cs_registry cs' = upd_slot i (append_frames [response]) (cs_registry cs))"
proof -
  let ?s = "slot_session_id (reg_slots (cs_registry cs) ! i)"
  have ns: "numbered i ?s" "serves cs i ?s"
    using live_session [OF _ live room] ok by (simp_all add: net_ok_def)
  have held: "held (channel_of i ?s) (cs_barrier cs) = []" and st: "store_inv (cs_store cs)" "messages_utf8 (cs_store cs)"
    using ok by (simp_all add: net_ok_def)
  obtain response cs' where h: "handle_complete_message parse c i body now now' cs = Some cs'"
    "cs_registry cs' = upd_slot i (append_frames [response]) (cs_registry cs)"
    using handle_message_output [OF ns held st, of parse c body now now'] by blast
  have reg: "reg_inv (cs_registry cs')"
    unfolding h(2) using ok by (intro reg_inv_keep) (simp_all add: net_ok_def slot_inv_append_frames)
  have store: "store_inv (cs_store cs') \<and> messages_utf8 (cs_store cs') \<and> awaiting (cs_barrier cs') = [] \<and>
      (\<forall>ch. held ch (cs_barrier cs') = []) \<and> next_submission_id (cs_store cs') \<le> next_submission_id (cs_store cs) + 1"
  proof (cases "decodeRequest parse body")
    case (Some request)
    obtain k st' q where sub: "submitAsync c request (channel_of i ?s) now now' (cs_store cs, cs_queue cs) = (k, st', q)"
      by (cases "submitAsync c request (channel_of i ?s) now now' (cs_store cs, cs_queue cs)") auto
    obtain resp where "submit_response k = Some resp" using submit_response_total by blast
    note out = submit_steps_output [OF ns held sub this, of "[]" "[]" "[]"]
    have st': "st' = snd (createSubmission c request now now' (cs_store cs))"
      using sub submitAsync_store [of c request "channel_of i ?s" now now' "cs_store cs" "cs_queue cs"] by simp
    have "next_submission_id (cs_store cs) < int32_max" using room by (simp add: room_def)
    then have "store_inv st'" "messages_utf8 st'" "next_submission_id st' \<le> next_submission_id (cs_store cs) + 1"
      using st store_inv_create messages_utf8_create wrap32_next [OF st(1)] by (auto simp: st')
    with Some h(1) out ok show ?thesis
      by (auto simp: handle_complete_message_def handle_submit_message_def net_ok_def)
  next
    case None
    show ?thesis
    proof (cases "decodeQueryRequest parse body")
      case no: None
      with None h(1) ok show ?thesis
        by (auto simp: handle_complete_message_def handle_query_or_bad_request_def frames_immediate net_ok_def)
    next
      case (Some q)
      with None h(1) ok handle_query_output [OF st, of c q now i] show ?thesis
        by (auto simp: handle_complete_message_def handle_query_or_bad_request_def net_ok_def messages_utf8_query)
          (simp_all add: query_def store_inv_getResult)
    qed
  qed
  have "net_ok cs'"
    using store conns_message [OF h(1)] reg h(2)
    by (intro net_ok_change [OF ok reg _ refl]) auto
  moreover have "room n cs'" using room store conns_message(2) [OF h(1)] by (auto simp: room_def)
  ultimately show ?thesis using h by blast
qed

section \<open>Events\<close>

lemma net_ok_release:
  assumes "net_ok cs" and "i < reg_size (cs_registry cs)"
  shows "\<exists>cl cs'. release_connection i cs = Some (cl, cs') \<and> net_ok cs' \<and> reg_size (cs_registry cs') = reg_size (cs_registry cs) \<and>
    cs_store cs' = cs_store cs \<and> cs_next_session cs' = cs_next_session cs"
proof -
  have inv: "reg_inv (cs_registry cs)" using assms(1) by (simp add: net_ok_def)
  obtain x r where r: "release_slot i (cs_registry cs) = Some (x, r)" "reg_inv r" "reg_size r = reg_size (cs_registry cs)"
    using ra.free_busy [OF inv assms(2)] by blast
  let ?cs = "cs\<lparr>cs_registry := r\<rparr>"
  have rel: "release_connection i cs = Some (x, ?cs)" using r(1) by (simp add: release_connection_def)
  have "set (conns ?cs) \<subseteq> insert (0, 0) (set (conns cs))"
    using release_conns [OF rel] set_update_subset_insert [of "conns cs" i "(0, 0)"] by auto
  then have "net_ok ?cs"
    using assms(1) r(2,3) by (intro net_ok_change [OF assms(1) r(2)]) (simp_all add: net_ok_def)
  with rel r(3) show ?thesis by auto
qed

lemma net_ok_read:
  assumes ok: "net_ok cs" and room: "room (Suc n) cs" and live: "live (cs_registry cs) i" and out: "outcome_ok outcome"
  shows "\<exists>cl cs'. handle_read_event parse c i outcome now now' cs = Some (cl, cs') \<and> net_ok cs' \<and> room n cs' \<and>
    reg_size (cs_registry cs') = reg_size (cs_registry cs)"
proof -
  let ?sl = "reg_slots (cs_registry cs) ! i"
  have i: "i < length (reg_slots (cs_registry cs))" using live by (simp add: live_def)
  have "slot_inv ?sl" using ok i by (simp add: net_ok_def reg_inv_def)
  then obtain has m body sl' where rm: "read_message outcome ?sl = Some (has, m, body, sl')" "slot_inv sl'"
    using read_message_total out by blast
  note same = read_message_conn [OF rm(1)]
  let ?cs = "on_slot i (\<lambda>_. sl') cs"
  have ok': "net_ok ?cs" using net_ok_slot [OF ok rm(2) same] .
  have size: "reg_size (cs_registry ?cs) = reg_size (cs_registry cs)" by (simp add: on_slot_def)
  have room': "room (Suc n) ?cs" using room by (simp add: room_def on_slot_def)
  have live': "live (cs_registry ?cs) i" using live same(1) i by (simp add: live_def on_slot_def upd_slot_def)
  have ev: "handle_read_event parse c i outcome now now' cs =
      (if m \<le> 0 then release_connection i ?cs
       else if has then map_option (Pair []) (handle_complete_message parse c i body now now' ?cs) else Some ([], ?cs))"
    using rm(1) i by (auto simp: handle_read_event_def reg_slot_def Let_def)
  show ?thesis
  proof (cases "m \<le> 0")
    case True
    with ev net_ok_release [OF ok', of i] size i room' show ?thesis
      by (fastforce simp: reg_size_def room_def)
  next
    case False
    with ev net_ok_message [OF ok' room' live', of parse c body now now'] size ok' room_mono [OF room', of n]
    show ?thesis by (cases has) force+
  qed
qed

lemma net_ok_write:
  assumes ok: "net_ok cs" and room: "room n cs" and live: "live (cs_registry cs) i" and pipe: "\<forall>bytes. sent bytes \<noteq> SendBrokenPipe"
  shows "\<exists>out cl cs'. handle_write_event i sent cs = Some (out, cl, cs') \<and> net_ok cs' \<and> room n cs' \<and>
    reg_size (cs_registry cs') = reg_size (cs_registry cs)"
proof -
  let ?sl = "reg_slots (cs_registry cs) ! i"
  have i: "i < length (reg_slots (cs_registry cs))" using live by (simp add: live_def)
  have sl: "slot_inv ?sl" using ok i by (simp add: net_ok_def reg_inv_def)
  have keep: "net_ok (on_slot i f cs) \<and> room n (on_slot i f cs) \<and> reg_size (cs_registry (on_slot i f cs)) = reg_size (cs_registry cs)"
    if "slot_inv (f ?sl)" "slot_fd (f ?sl) = slot_fd ?sl" "slot_session_id (f ?sl) = slot_session_id ?sl" for f
  proof -
    have "on_slot i f cs = on_slot i (\<lambda>_. f ?sl) cs" by (simp add: on_slot_def upd_slot_def)
    with net_ok_slot [OF ok that] room show ?thesis by (simp add: room_def on_slot_def)
  qed
  have readable: "on_slot i set_readable (on_slot i f cs) = on_slot i (set_readable \<circ> f) cs" for f
    by (simp add: on_slot_def)
  have consume: "slot_fd (snd (consume_pending_response k ?sl)) = slot_fd ?sl"
    "slot_session_id (snd (consume_pending_response k ?sl)) = slot_session_id ?sl" for k
    by (simp_all add: consume_pending_response_def Let_def)
  obtain cl cs' where rel: "release_connection i cs = Some (cl, cs')" "net_ok cs'" "room n cs'"
    "reg_size (cs_registry cs') = reg_size (cs_registry cs)"
    using net_ok_release [OF ok, of i] i room by (auto simp: reg_size_def room_def)
  note goals = keep [of set_readable] keep [of "\<lambda>s. snd (consume_pending_response k s)" for k]
    keep [of "set_readable \<circ> (\<lambda>s. snd (consume_pending_response k s))" for k]
  show ?thesis
    using i sl rel ok room goals slot_inv_consume [OF sl] consume pipe
    by (auto simp: handle_write_event_def write_steps_def reg_slot_def Let_def readable set_readable_def
        split: send_answer.splits)
qed

lemma subset_release: "xs' = xs \<or> xs' = xs[i := z] \<Longrightarrow> set xs' \<subseteq> insert z (set xs)"
  using set_update_subset_insert by fastforce

lemma ready_loop_total:
  assumes "net_ok cs" and "room (length is) cs" and "\<forall>i \<in> set is. i < reg_size (cs_registry cs)" and "\<forall>i. outcome_ok (outcome i)"
    and "\<forall>i bytes. sent i bytes \<noteq> SendBrokenPipe"
  shows "\<exists>cl out cs'. ready_loop parse c rd wr outcome sent now is cs = Some (cl, out, cs') \<and> net_ok cs' \<and>
    set (conns cs') \<subseteq> insert (0, 0) (set (conns cs))"
  using assms
proof (induction "is" arbitrary: cs)
  case Nil
  then show ?case by auto
next
  case (Cons i "is")
  let ?fd = "slot_fd (reg_slots (cs_registry cs) ! i)"
  have rec: "\<exists>cl out cs''. ready_loop parse c rd wr outcome sent now is cs' = Some (cl, out, cs'') \<and> net_ok cs'' \<and>
      set (conns cs'') \<subseteq> insert (0, 0) (set (conns cs))"
    if "net_ok cs'" "room (length is) cs'" "reg_size (cs_registry cs') = reg_size (cs_registry cs)"
      "set (conns cs') \<subseteq> insert (0, 0) (set (conns cs))" for cs'
    using Cons.IH [of cs'] Cons.prems(3-5) that by fastforce
  have room: "room (length is) cs" using Cons.prems(2) by (rule room_mono) simp
  have live: "live (cs_registry cs) i" if "?fd \<noteq> 0" using that Cons.prems(3) by (simp add: live_def reg_size_def)
  consider "?fd = 0 \<or> ?fd \<notin> rd \<and> ?fd \<notin> wr" | "?fd \<noteq> 0" "?fd \<in> rd" | "?fd \<noteq> 0" "?fd \<notin> rd" "?fd \<in> wr" by blast
  then show ?case
  proof cases
    case 1
    with rec [OF Cons.prems(1) room refl subset_insertI] show ?thesis by (auto simp: Let_def)
  next
    case 2
    have "room (Suc (length is)) cs" using Cons.prems(2) by simp
    with net_ok_read [OF Cons.prems(1) this live [OF 2(1)], of "outcome i" parse c now now] Cons.prems(4)
    obtain cl cs' where cs': "handle_read_event parse c i (outcome i) now now cs = Some (cl, cs')" "net_ok cs'"
      "room (length is) cs'" "reg_size (cs_registry cs') = reg_size (cs_registry cs)" by blast
    from rec [OF cs'(2-4) subset_release] read_event_conns [OF cs'(1)] 2 cs'(1) show ?thesis by fastforce
  next
    case 3
    from net_ok_write [OF Cons.prems(1) room live [OF 3(1)], of "sent i"] Cons.prems(5)
    obtain out cl cs' where cs': "handle_write_event i (sent i) cs = Some (out, cl, cs')" "net_ok cs'"
      "room (length is) cs'" "reg_size (cs_registry cs') = reg_size (cs_registry cs)" by blast
    from rec [OF cs'(2-4) subset_release] write_event_conns [OF cs'(1)] 3 cs'(1) show ?thesis by fastforce
  qed
qed

section \<open>Accepting\<close>

text \<open>Writing the refusal ends unless the system call is interrupted for ever or raises SIGPIPE.\<close>

lemma write_all_total:
  assumes "\<forall>k \<ge> K. wr k \<noteq> Interrupted" and "\<forall>k. wr k \<noteq> WriteBrokenPipe"
  shows "\<exists>w. write_all wr k frame_size written = Some w"
proof (induction "(K - k) + (frame_size - written)" arbitrary: k written rule: less_induct)
  case less
  have step: "\<exists>w. write_all wr (Suc k) frame_size w' = Some w"
    if "written < frame_size" "wr k = Interrupted \<and> w' = written \<or> written < w'" for w'
    using that assms(1) by (intro less) (cases "K \<le> k"; auto)
  show ?case
    using step assms(2) by (subst write_all.simps) (auto split: write_answer.split)
qed

definition fds_ok :: "TcpServer \<Rightarrow> ClientSockets \<Rightarrow> bool" where
  "fds_ok s cs \<longleftrightarrow> 0 \<le> server_fd s \<and> server_fd s < FD_SETSIZE \<and> 0 \<le> wake_fd s \<and> wake_fd s < FD_SETSIZE \<and>
     (\<forall>(fd, t) \<in> set (conns cs). 0 \<le> fd \<and> fd < FD_SETSIZE)"

lemma net_ok_register:
  assumes ok: "net_ok cs" and fds: "fds_ok s cs" and fd: "0 < fd" "fd < FD_SETSIZE" and wr: "\<forall>k \<ge> K. wr k \<noteq> Interrupted"
    and pipe: "\<forall>k. wr k \<noteq> WriteBrokenPipe" and room: "room (Suc n) cs"
  shows "\<exists>cl out cs'. register_client_socket wr fd cs = Some (cl, out, cs') \<and> net_ok cs' \<and> fds_ok s cs' \<and> room n cs' \<and>
    reg_size (cs_registry cs') = reg_size (cs_registry cs)"
proof -
  have inv: "reg_inv (cs_registry cs)" and nz: "fd \<noteq> 0" using ok fd by (simp_all add: net_ok_def)
  show ?thesis
  proof (cases rule: acquire_cases [OF inv nz, of "cs_next_session cs"])
    case 1
    obtain resp where "encodeError ''judge server is busy, too many active connections'' = Some resp"
      using responses_serialize [of 0 "''judge server is busy, too many active connections''"] by (auto simp: ascii_def)
    moreover obtain w where "write_all wr 0 (length (make_protocol_frame resp)) 0 = Some w"
      using write_all_total [OF wr pipe] by blast
    ultimately show ?thesis
      using 1 ok fds room
      by (fastforce simp: register_client_socket_def send_connection_limit_error_and_close_def net_ok_def sessions_ok_def
          conns_def fds_ok_def room_def)
  next
    case (2 i r)
    let ?cs = "cs\<lparr>cs_registry := r, cs_next_session := cs_next_session cs + 1\<rparr>"
    have reg: "register_client_socket wr fd cs = Some ([], [], ?cs)"
      using 2(1) room by (simp add: register_client_socket_def room_def)
    have "conns ?cs = (conns cs)[i := (fd, cs_next_session cs)]" using 2(5) by (simp add: conns_def map_update)
    then have sub: "set (conns ?cs) \<subseteq> insert (fd, cs_next_session cs) (set (conns cs))"
      using set_update_subset_insert by fastforce
    have size: "reg_size r = reg_size (cs_registry cs)" using 2(5) by (simp add: reg_size_def)
    have "net_ok ?cs" using ok 2(2) sub size unfolding net_ok_def sessions_ok_def by fastforce
    moreover have "fds_ok s ?cs" using fds fd sub unfolding fds_ok_def by fastforce
    ultimately show ?thesis using reg size room by (auto simp: room_def)
  qed
qed

section \<open>The watched descriptors\<close>

lemma FD_SETSIZE_pos: "0 < FD_SETSIZE" "FD_SETSIZE - int (nat FD_SETSIZE) = 0"
  by (simp_all add: FD_SETSIZE_def)

lemma populate_loop_sets:
  assumes "\<forall>sl \<in> set sls. 0 \<le> slot_fd sl \<and> slot_fd sl < FD_SETSIZE"
  shows "\<exists>m. populate_loop sls rd wr max_fd =
    Some (rd \<union> {slot_fd sl | sl. sl \<in> set sls \<and> slot_fd sl \<noteq> 0 \<and> slot_status sl = READABLE},
          wr \<union> {slot_fd sl | sl. sl \<in> set sls \<and> slot_fd sl \<noteq> 0 \<and> slot_status sl = WRITABLE}, m)"
  using assms
proof (induction sls arbitrary: rd wr max_fd)
  case Nil
  then show ?case by simp
next
  case (Cons sl sls)
  let ?R = "\<lambda>S st. {slot_fd sl | sl. sl \<in> set S \<and> slot_fd sl \<noteq> 0 \<and> slot_status sl = st}"
  have R: "?R (sl # sls) st = (if slot_fd sl \<noteq> 0 \<and> slot_status sl = st then {slot_fd sl} else {}) \<union> ?R sls st" for st
    by auto
  have ok: "FD_SET (slot_fd sl) S = Some (insert (slot_fd sl) S)" for S
    using Cons.prems by (simp add: FD_SET_def)
  have IH: "\<exists>m. populate_loop sls rd wr max_fd = Some (rd \<union> ?R sls READABLE, wr \<union> ?R sls WRITABLE, m)" for rd wr max_fd
    using Cons by simp
  show ?case
    unfolding R
    using IH IH [of "insert (slot_fd sl) rd" wr "if max_fd < slot_fd sl then slot_fd sl else max_fd"]
      IH [of rd "insert (slot_fd sl) wr" "if max_fd < slot_fd sl then slot_fd sl else max_fd"] ok
    by (cases "slot_status sl") (auto simp: Let_def is_readable_def is_writable_def)
qed

lemma max_fd_scan_bounds:
  assumes "n \<le> nat FD_SETSIZE"
  shows "m \<le> max_fd_scan sets n m \<and> (max_fd_scan sets n m = m \<or> max_fd_scan sets n m \<in> sets) \<and>
    (\<forall>fd \<in> sets. FD_SETSIZE - int n \<le> fd \<longrightarrow> fd < FD_SETSIZE \<longrightarrow> fd \<le> max_fd_scan sets n m)"
  using assms
proof (induction n arbitrary: m)
  case 0
  then show ?case by simp
next
  case (Suc n)
  let ?fd = "FD_SETSIZE - int (Suc n)"
  let ?m = "if ?fd \<in> sets \<and> ?fd > m then ?fd else m"
  let ?r = "max_fd_scan sets n ?m"
  have unfold: "max_fd_scan sets (Suc n) m = ?r" by (simp only: max_fd_scan.simps Let_def)
  have IH: "?m \<le> ?r" "?r = ?m \<or> ?r \<in> sets" "\<forall>fd \<in> sets. FD_SETSIZE - int n \<le> fd \<longrightarrow> fd < FD_SETSIZE \<longrightarrow> fd \<le> ?r"
    using Suc.IH [of ?m] Suc.prems by auto
  have "fd \<le> ?r" if fd: "fd \<in> sets" "?fd \<le> fd" "fd < FD_SETSIZE" for fd
  proof (cases "fd = ?fd")
    case True
    with fd(1) have "fd \<le> ?m" by auto
    with IH(1) show ?thesis by linarith
  next
    case False
    with fd have "FD_SETSIZE - int n \<le> fd" by linarith
    with IH(3) fd show ?thesis by blast
  qed
  moreover have "m \<le> ?r" using IH(1) by (auto split: if_splits)
  moreover have "?r = m \<or> ?r \<in> sets" using IH(2) by (auto split: if_splits)
  ultimately show ?case unfolding unfold by blast
qed

lemma watch_sets_total:
  assumes "fds_ok s cs"
  obtains rd wr m where "watch_sets s cs = Some (rd, wr, m)"
    and "rd = {server_fd s, wake_fd s} \<union> {slot_fd sl | sl. sl \<in> set (reg_slots (cs_registry cs)) \<and> slot_fd sl \<noteq> 0 \<and> slot_status sl = READABLE}"
    and "wr = {slot_fd sl | sl. sl \<in> set (reg_slots (cs_registry cs)) \<and> slot_fd sl \<noteq> 0 \<and> slot_status sl = WRITABLE}"
    and "m \<in> rd \<union> wr" and "\<forall>fd \<in> rd \<union> wr. fd \<le> m"
proof -
  have slots: "\<forall>sl \<in> set (reg_slots (cs_registry cs)). 0 \<le> slot_fd sl \<and> slot_fd sl < FD_SETSIZE"
    using assms by (auto simp: fds_ok_def conns_def)
  obtain k rd wr where p: "populate_socket_sets {wake_fd s, server_fd s} {} (cs_registry cs) = Some (rd, wr, k)"
    and rd: "rd = {server_fd s, wake_fd s} \<union> {slot_fd sl | sl. sl \<in> set (reg_slots (cs_registry cs)) \<and> slot_fd sl \<noteq> 0 \<and> slot_status sl = READABLE}"
    and wr: "wr = {slot_fd sl | sl. sl \<in> set (reg_slots (cs_registry cs)) \<and> slot_fd sl \<noteq> 0 \<and> slot_status sl = WRITABLE}"
    using populate_loop_sets [OF slots, of "{wake_fd s, server_fd s}" "{}" 0] by (auto simp: populate_socket_sets_def insert_commute)
  let ?start = "if server_fd s > wake_fd s then server_fd s else wake_fd s"
  let ?top = "max_fd_scan (rd \<union> wr) (nat FD_SETSIZE) ?start"
  have range: "\<forall>fd \<in> rd \<union> wr. 0 \<le> fd \<and> fd < FD_SETSIZE"
    using assms slots by (auto simp: rd wr fds_ok_def)
  have "watch_sets s cs = Some (rd, wr, ?top)"
    using assms p by (simp add: watch_sets_def fds_ok_def FD_SET_def Let_def)
  moreover have "?top \<in> rd \<union> wr \<and> (\<forall>fd \<in> rd \<union> wr. fd \<le> ?top)"
    using max_fd_scan_bounds [OF order_refl, of ?start "rd \<union> wr"] range unfolding FD_SETSIZE_pos(2)
    by (auto simp: rd)
  ultimately show thesis using that rd wr by blast
qed

lemma drain_quiet: "drain_wakes cs = Some (cs\<lparr>cs_wakes := 0\<rparr>)"
  by (simp add: drain_wakes_def drain_wake_fd.simps [of _ 0] drain_wake_fd.simps [of _ "Suc 0"] eventfd_read_def)

lemma wakes_irrelevant [simp]:
  "net_ok (cs\<lparr>cs_wakes := w\<rparr>) = net_ok cs" "fds_ok s (cs\<lparr>cs_wakes := w\<rparr>) = fds_ok s cs" "room n (cs\<lparr>cs_wakes := w\<rparr>) = room n cs"
  by (simp_all add: net_ok_def fds_ok_def room_def sessions_ok_def conns_def)

section \<open>A round\<close>

text \<open>What is assumed of the system in one round.\<close>

definition round_ok :: "round_os \<Rightarrow> bool" where
  "round_ok os \<longleftrightarrow> (\<forall>i. outcome_ok (ro_read os i)) \<and> (\<exists>K. \<forall>k \<ge> K. ro_write os k \<noteq> Interrupted) \<and>
     (\<forall>k. ro_write os k \<noteq> WriteBrokenPipe) \<and> (\<forall>i bytes. ro_send os i bytes \<noteq> SendBrokenPipe) \<and>
     (ro_accept os = - 1 \<or> 0 < ro_accept os \<and> ro_accept os < FD_SETSIZE)"

lemma server_round_total:
  assumes "net_ok cs" and "fds_ok s cs" and "round_ok os" and "room (Suc (reg_size (cs_registry cs))) cs"
  shows "\<exists>cs'. (server_round parse c os s cs = Some (Continues cs') \<or> server_round parse c os s cs = Some (Breaks cs')) \<and>
    net_ok cs' \<and> fds_ok s cs'"
proof -
  obtain rd wr m where w: "watch_sets s cs = Some (rd, wr, m)" using assms(2) by (rule watch_sets_total)
  show ?thesis
  proof (cases "ro_select os (m + 1) rd wr")
    case (SelectReady rds wrs)
    define cs1 where "cs1 = (if wake_fd s \<in> rds then cs\<lparr>cs_wakes := 0\<rparr> else cs)"
    have cs1: "net_ok cs1" "fds_ok s cs1" "room (Suc (reg_size (cs_registry cs))) cs1" "reg_size (cs_registry cs1) = reg_size (cs_registry cs)"
      using assms by (simp_all add: cs1_def)
    have drain: "(if wake_fd s \<in> rds then drain_wakes cs else Some cs) = Some cs1" by (simp add: cs1_def drain_quiet)
    have room1: "room (reg_size (cs_registry cs)) cs1" using cs1(3) by (rule room_mono) simp
    obtain K where K: "\<forall>k \<ge> K. ro_write os k \<noteq> Interrupted" using assms(3) by (auto simp: round_ok_def)
    have pipe: "\<forall>k. ro_write os k \<noteq> WriteBrokenPipe" using assms(3) by (simp add: round_ok_def)
    have "\<exists>cs2. accept_client os cs1 = Some cs2 \<and> net_ok cs2 \<and> fds_ok s cs2 \<and> room (reg_size (cs_registry cs)) cs2 \<and>
        reg_size (cs_registry cs2) = reg_size (cs_registry cs)"
      using net_ok_register [OF cs1(1,2) _ _ K pipe cs1(3), of "ro_accept os"] cs1 room1 assms(3)
      by (auto simp: accept_client_def round_ok_def)
    then obtain cs2 where cs2: "(if server_fd s \<in> rds then accept_client os cs1 else Some cs1) = Some cs2"
      "net_ok cs2" "fds_ok s cs2" "room (reg_size (cs_registry cs)) cs2" "reg_size (cs_registry cs2) = reg_size (cs_registry cs)"
      using cs1 room1 by (cases "server_fd s \<in> rds") auto
    obtain cl out cs3 where cs3: "handle_ready_events parse c rds wrs (ro_read os) (ro_send os) (ro_now os) cs2 = Some (cl, out, cs3)"
      "net_ok cs3" "set (conns cs3) \<subseteq> insert (0, 0) (set (conns cs2))"
      using ready_loop_total [OF cs2(2), of "[0..<reg_size (cs_registry cs2)]" "ro_read os" "ro_send os" parse c rds wrs "ro_now os"] cs2(4,5) assms(3)
      by (auto simp: handle_ready_events_def round_ok_def)
    have "fds_ok s cs3" using cs2(3) cs3(3) using FD_SETSIZE_pos(1) by (fastforce simp: fds_ok_def)
    moreover have "server_round parse c os s cs = Some (Continues cs3)"
      using w SelectReady cs2(1) cs3(1) drain by (simp add: server_round_def)
    ultimately show ?thesis using cs3(2) by blast
  qed (use w assms(1,2) in \<open>auto simp: server_round_def\<close>)
qed

section \<open>Properties\<close>


definition demo_round :: round_os where
  "demo_round = \<lparr>ro_select = (\<lambda>_ rd wr. SelectReady {3, 7} {}), ro_accept = 9, ro_write = (\<lambda>_. WriteFailed),
     ro_read = (\<lambda>_. ReadBytes ''abc''), ro_send = (\<lambda>_ bytes. Sent (length bytes)), ro_now = 0\<rparr>"

definition demo_server :: TcpServer where
  "demo_server = \<lparr>server_fd = 3, wake_fd = 4, running = True\<rparr>"

lemma demo_net_ok: "net_ok demo_sockets" "fds_ok demo_server demo_sockets" "room (Suc (reg_size (cs_registry demo_sockets))) demo_sockets"
proof -
  note d = demo_sockets_def new_client_sockets_def new_registry_def upd_slot_def
  have "reg_inv (cs_registry demo_sockets)"
    by (simp add: d reg_inv_def slot_inv_init slot_inv_new numeral_2_eq_2) (auto simp: new_slot_def less_Suc_eq)
  moreover have "sessions_ok demo_sockets" by (simp add: sessions_ok_def conns_def d new_slot_def numeral_2_eq_2)
  moreover have "store_inv (cs_store demo_sockets)" by (simp add: d store_inv_initial)
  moreover have "messages_utf8 (cs_store demo_sockets)"
    by (simp add: d messages_utf8_def lookup_result_def initial_store_def)
  ultimately show "net_ok demo_sockets"
    using demo_serves(3) by (simp add: net_ok_def reg_size_def) (simp add: d new_barrier_def)
  show "fds_ok demo_server demo_sockets"
    by (simp add: fds_ok_def conns_def d new_slot_def numeral_2_eq_2 demo_server_def FD_SETSIZE_def)
  show "room (Suc (reg_size (cs_registry demo_sockets))) demo_sockets"
    by (simp add: room_def d reg_size_def initial_store_def int32_max_def)
qed


text \<open>
  \<open>select\<close> watches exactly what it has to: the listening socket, the wake-up descriptor, every
  open connection that expects input for reading and every one with output for writing, and the
  number passed is the largest watched descriptor plus one.
\<close>

theorem select_watches_connections:
  assumes "fds_ok s cs"
  shows "\<exists>rd wr m. watch_sets s cs = Some (rd, wr, m) \<and> m = Max (rd \<union> wr) \<and>
    (\<forall>fd. fd \<in> rd \<longleftrightarrow> fd = server_fd s \<or> fd = wake_fd s \<or>
       (\<exists>sl \<in> set (reg_slots (cs_registry cs)). slot_fd sl = fd \<and> fd \<noteq> 0 \<and> slot_status sl = READABLE)) \<and>
    (\<forall>fd. fd \<in> wr \<longleftrightarrow>
       (\<exists>sl \<in> set (reg_slots (cs_registry cs)). slot_fd sl = fd \<and> fd \<noteq> 0 \<and> slot_status sl = WRITABLE))"
proof -
  obtain rd wr m where w: "watch_sets s cs = Some (rd, wr, m)"
    and rd: "rd = {server_fd s, wake_fd s} \<union> {slot_fd sl | sl. sl \<in> set (reg_slots (cs_registry cs)) \<and> slot_fd sl \<noteq> 0 \<and> slot_status sl = READABLE}"
    and wr: "wr = {slot_fd sl | sl. sl \<in> set (reg_slots (cs_registry cs)) \<and> slot_fd sl \<noteq> 0 \<and> slot_status sl = WRITABLE}"
    and m: "m \<in> rd \<union> wr" "\<forall>fd \<in> rd \<union> wr. fd \<le> m"
    using assms by (rule watch_sets_total)
  have "finite (rd \<union> wr)"
    by (rule finite_subset [of _ "{server_fd s, wake_fd s} \<union> slot_fd ` set (reg_slots (cs_registry cs))"]) (auto simp: rd wr)
  then have "m = Max (rd \<union> wr)" using m by (intro Max_eqI [symmetric]) auto
  moreover have "\<forall>fd. fd \<in> rd \<longleftrightarrow> fd = server_fd s \<or> fd = wake_fd s \<or>
      (\<exists>sl \<in> set (reg_slots (cs_registry cs)). slot_fd sl = fd \<and> fd \<noteq> 0 \<and> slot_status sl = READABLE)"
    unfolding rd by auto
  moreover have "\<forall>fd. fd \<in> wr \<longleftrightarrow>
      (\<exists>sl \<in> set (reg_slots (cs_registry cs)). slot_fd sl = fd \<and> fd \<noteq> 0 \<and> slot_status sl = WRITABLE)"
    unfolding wr by auto
  ultimately show ?thesis using w by (intro exI [of _ rd] exI [of _ wr] exI [of _ m] conjI)
qed

theorem select_watches_connections_witness:
  "\<exists>rd wr m. watch_sets demo_server demo_sockets = Some (rd, wr, m) \<and> 7 \<in> rd"
proof -
  have "\<exists>sl \<in> set (reg_slots (cs_registry demo_sockets)). slot_fd sl = 7 \<and> (7::int) \<noteq> 0 \<and> slot_status sl = READABLE"
    by (simp add: demo_sockets_def upd_slot_def new_registry_def slot_init_def numeral_2_eq_2)
  with select_watches_connections [OF demo_net_ok(2)] show ?thesis by blast
qed

text \<open>
  A client that closes its connection before it has read its responses can end the server: the \<open>send\<close>
  to it raises SIGPIPE in the select thread.
\<close>

theorem broken_pipe_ends_server:
  assumes "live (cs_registry cs) i" and "is_writable (reg_slots (cs_registry cs) ! i)"
    and "copy_pending_response (reg_slots (cs_registry cs) ! i) \<noteq> []"
    and "sent (copy_pending_response (reg_slots (cs_registry cs) ! i)) = SendBrokenPipe"
  shows "handle_write_event i sent cs = None"
  using assms
  by (auto simp: handle_write_event_def write_steps_def reg_slot_def live_def Let_def has_pending_response_def
      copy_pending_response_def)

theorem broken_pipe_ends_server_witness:
  "handle_write_event 0 (\<lambda>_. SendBrokenPipe) (queue_immediate_response 0 ''done'' demo_sockets) = None"
proof -
  note d = demo_sockets_def new_client_sockets_def new_registry_def upd_slot_def queue_immediate_response_def on_slot_def
    set_writable_def set_pending_response_def queue_response_locked_def new_slot_def slot_init_def numeral_2_eq_2
  show ?thesis
    by (rule broken_pipe_ends_server) (simp_all add: d live_def is_writable_def copy_pending_response_def Let_def)
qed

text \<open>
  A connection whose descriptor is not below \<open>FD_SETSIZE\<close> is accepted like any other; the next round
  then writes outside the \<open>fd_set\<close>.
\<close>

lemma populate_overflow:
  assumes "sl \<in> set sls" and "FD_SETSIZE \<le> slot_fd sl" and "slot_status sl \<noteq> IDLE"
  shows "populate_loop sls rd wr max_fd = None"
  using assms
proof (induction sls arbitrary: rd wr max_fd)
  case (Cons x sls)
  then show ?case
    using FD_SETSIZE_pos(1) by (cases "slot_status sl") (auto simp: FD_SET_def Let_def is_readable_def is_writable_def)
qed simp

theorem high_descriptor_overflows:
  assumes "sl \<in> set (reg_slots (cs_registry cs))" and "FD_SETSIZE \<le> slot_fd sl" and "slot_status sl \<noteq> IDLE"
  shows "watch_sets s cs = None"
  using populate_overflow [OF assms]
  by (simp add: watch_sets_def populate_socket_sets_def FD_SET_def)

lemma drain_Some:
  assumes "raised j = 0" and "k \<le> j" and "j = k \<longrightarrow> counter = 0"
  shows "\<exists>n. drain_wake_fd raised k counter = Some (n, 0)"
  using assms
proof (induction "j - k" arbitrary: k counter)
  case 0
  then show ?case by (subst drain_wake_fd.simps) (simp add: eventfd_read_def)
next
  case (Suc d)
  then have "\<exists>n. drain_wake_fd raised (Suc k) 0 = Some (n, 0)" by auto
  then show ?case by (subst drain_wake_fd.simps) (simp add: eventfd_read_def)
qed

lemma drain_only:
  assumes "drain_wake_fd raised k counter = Some r"
  shows "snd r = 0 \<and> (\<exists>j \<ge> k. raised j = 0 \<and> (j = k \<longrightarrow> counter = 0))"
proof (rule drain_wake_fd.raw_induct [where P = "\<lambda>raised k counter r. snd r = 0 \<and> (\<exists>j \<ge> k. raised j = 0 \<and> (j = k \<longrightarrow> counter = 0))"])
  fix drain :: "(nat \<Rightarrow> nat) \<Rightarrow> nat \<Rightarrow> nat \<Rightarrow> (nat \<times> nat) option" and raised :: "nat \<Rightarrow> nat" and k counter :: nat and r :: "nat \<times> nat"
  assume IH: "\<And>raised k counter r. drain raised k counter = Some r \<Longrightarrow>
      snd r = 0 \<and> (\<exists>j \<ge> k. raised j = 0 \<and> (j = k \<longrightarrow> counter = 0))"
    and step: "(case eventfd_read (counter + raised k) of None \<Rightarrow> Some (Suc k, counter + raised k)
        | Some counter' \<Rightarrow> drain raised (Suc k) counter') = Some r"
  show "snd r = 0 \<and> (\<exists>j \<ge> k. raised j = 0 \<and> (j = k \<longrightarrow> counter = 0))"
  proof (cases "counter + raised k > 0")
    case True
    with step have "drain raised (Suc k) 0 = Some r" by (simp add: eventfd_read_def split: if_splits)
    from IH [OF this] show ?thesis using Suc_leD by (metis not_less_eq_eq)
  next
    case False
    with step show ?thesis by (auto simp: eventfd_read_def)
  qed
qed (rule assms)

text \<open>
  The drain loop of the wake-up descriptor ends exactly when some read finds the counter at zero,
  that is when the other threads pause between two reads; it then leaves the counter at zero, so no
  wake-up that was signalled is left to be signalled twice.
\<close>

theorem drain_ends_when_quiet:
  "((\<exists>r. drain_wake_fd raised 0 counter = Some r) \<longleftrightarrow> (\<exists>j. raised j = 0 \<and> (j = 0 \<longrightarrow> counter = 0))) \<and>
   (\<forall>n left. drain_wake_fd raised 0 counter = Some (n, left) \<longrightarrow> left = 0)"
proof (intro conjI iffI allI impI)
  assume "\<exists>r. drain_wake_fd raised 0 counter = Some r"
  then show "\<exists>j. raised j = 0 \<and> (j = 0 \<longrightarrow> counter = 0)" using drain_only [of raised 0 counter] by blast
next
  assume "\<exists>j. raised j = 0 \<and> (j = 0 \<longrightarrow> counter = 0)"
  then show "\<exists>r. drain_wake_fd raised 0 counter = Some r" using drain_Some [of raised _ 0 counter] by blast
next
  fix n left
  assume "drain_wake_fd raised 0 counter = Some (n, left)"
  then show "left = 0" using drain_only [of raised 0 counter "(n, left)"] by simp
qed

theorem drain_ends_when_quiet_witness: "\<exists>r. drain_wake_fd (\<lambda>k. if k < 2 then 5 else 0) 0 1 = Some r"
proof -
  have "\<exists>j :: nat. (if j < 2 then 5 else 0) = (0 :: nat) \<and> (j = 0 \<longrightarrow> (1 :: nat) = 0)" by (intro exI [of _ 2]) simp
  then show ?thesis by (rule drain_ends_when_quiet [of "\<lambda>k. if k < 2 then 5 else 0" 1, THEN conjunct1, THEN iffD2])
qed

section \<open>Construction\<close>

text \<open>
  A server that cannot be set up holds no listening socket: whenever the constructor throws, the
  socket it created is closed. The wake-up descriptor is not: a constructor that throws runs no
  destructor, and nothing else closes it.
\<close>

theorem failed_construction_leaks_wake_fd:
  assumes "construct_server os port nonblock reuseaddr = (calls, Inl (msg, s))" and "os_eventfd os \<noteq> - 1"
  shows "server_fd s = - 1 \<and> (os_socket os \<noteq> - 1 \<longrightarrow> Close (os_socket os) \<in> set calls) \<and>
    wake_fd s = os_eventfd os \<and> (os_eventfd os \<noteq> os_socket os \<longrightarrow> Close (os_eventfd os) \<notin> set calls)"
  using assms
  by (auto simp: construct_server_def create_wake_fd_def create_and_bind_socket_def Let_def split: if_splits)

theorem failed_construction_leaks_wake_fd_witness:
  "\<exists>calls msg s. construct_server \<lparr>os_eventfd = 3, os_socket = 4, os_setsockopt = 0, os_bind = - 1, os_listen = 0\<rparr> 8080 True True =
      (calls, Inl (msg, s)) \<and> Close 4 \<in> set calls \<and> Close 3 \<notin> set calls"
proof -
  let ?os = "\<lparr>os_eventfd = 3, os_socket = 4, os_setsockopt = 0, os_bind = - 1, os_listen = 0\<rparr>"
  have "\<exists>calls msg s. construct_server ?os 8080 True True = (calls, Inl (msg, s))"
    by (simp add: construct_server_def create_wake_fd_def create_and_bind_socket_def)
  with failed_construction_leaks_wake_fd [of ?os 8080 True True] show ?thesis by fastforce
qed

end
