(* ===== verification/Testlib.thy ===== *)
theory Testlib
  imports Prelude
begin

text \<open>
  The part of \<open>checker/src/testlib.h\<close> on which the checkers rest: the buffered reader with its
  push-back, the input streams, the words, lines and integers read from them, and the exit codes.

  The reader is the list of the cells from the current position on. A pushed-back end of file is a
  cell of its own (the reader's \<open>isEof\<close> array). A character is handed out as a signed \<open>char\<close> widened
  to \<open>int\<close>, so that the byte 0xFF is -1 like \<open>EOF\<close>. In front of the bytes that it has read the buffer
  has an area for 100 characters that are pushed back; the reader ends the program when that is full.
  Its position is therefore 100 plus the number of bytes in the buffer minus the number of cells
  ahead. The bytes in the buffer are all those of the file (of at most 999900 bytes, one filling),
  and none once the end has been met and the buffer filled again with nothing.
\<close>

section \<open>The reader\<close>

datatype cell = Byte char | EofMark

definition EOF :: int where "EOF = - 1"

definition schar :: "char \<Rightarrow> int" where
  "schar c = (if (of_char c :: int) < 128 then of_char c else of_char c - 256)"

definition to_char :: "int \<Rightarrow> char" where
  "to_char i = char_of (nat (i mod 256))"

lemma to_char_schar [simp]: "to_char (schar c) = c"
  by (simp add: to_char_def schar_def)

fun reader_curChar :: "cell list \<Rightarrow> int" where
  "reader_curChar (Byte c # r) = schar c"
| "reader_curChar (EofMark # r) = EOF"
| "reader_curChar [] = EOF"

fun reader_nextChar :: "cell list \<Rightarrow> int \<times> cell list" where
  "reader_nextChar (Byte c # r) = (schar c, r)"
| "reader_nextChar (EofMark # r) = (EOF, EofMark # r)"
| "reader_nextChar [] = (EOF, [])"

definition reader_eof :: "cell list \<Rightarrow> bool" where
  "reader_eof r \<longleftrightarrow> r = [] \<or> reader_curChar r = EOF"

definition isEoln :: "int \<Rightarrow> bool" where
  "isEoln c \<longleftrightarrow> c = 10 \<or> c = 13"

definition isBlanks :: "int \<Rightarrow> bool" where
  "isBlanks c \<longleftrightarrow> c = 10 \<or> c = 13 \<or> c = 32 \<or> c = 9"

text \<open>The words of a text between separators.\<close>

function words_by :: "(char \<Rightarrow> bool) \<Rightarrow> string \<Rightarrow> string list" where
  "words_by sep s =
     (let t = dropWhile sep s in
      if t = [] then [] else takeWhile (\<lambda>c. \<not> sep c) t # words_by sep (dropWhile (\<lambda>c. \<not> sep c) t))"
  by auto
termination
proof (relation "measure (\<lambda>(sep, s). length s)")
  fix sep s and t :: string
  assume "t = dropWhile sep s" "t \<noteq> []"
  then have "\<not> sep (hd t)" using hd_dropWhile by metis
  then have "length (dropWhile (\<lambda>c. \<not> sep c) t) < length t"
    using \<open>t \<noteq> []\<close> length_dropWhile_le [of "\<lambda>c. \<not> sep c" "tl t"] by (cases t) auto
  also have "length t \<le> length s" using \<open>t = _\<close> by (simp add: length_dropWhile_le)
  finally show "((sep, dropWhile (\<lambda>c. \<not> sep c) t), sep, s) \<in> measure (\<lambda>(sep, s). length s)" by simp
qed simp

declare words_by.simps [simp del]

section \<open>Results and exit codes\<close>

datatype TMode = M_input | M_output | M_answer

datatype TResult = R_ok | R_wa | R_pe | R_fail | R_dirt | R_points | R_unexpected_eof

fun resultExitCode :: "TResult \<Rightarrow> int" where
  "resultExitCode R_ok = 0"
| "resultExitCode R_wa = 1"
| "resultExitCode R_pe = 2"
| "resultExitCode R_fail = 3"
| "resultExitCode R_dirt = 4"
| "resultExitCode R_points = 0"
| "resultExitCode R_unexpected_eof = 2"

record InStream =
  is_mode :: TMode
  is_open :: bool
  is_cells :: "cell list"
  is_size :: nat

text \<open>The program ends with an exit code (\<open>Inl\<close>) or goes on with a value.\<close>

type_synonym 'a checked = "int + 'a"

fun bind_checked :: "'a checked \<Rightarrow> ('a \<Rightarrow> 'b checked) \<Rightarrow> 'b checked" where
  "bind_checked (Inl e) f = Inl e"
| "bind_checked (Inr x) f = f x"

definition MAX_UNREAD_COUNT :: nat where
  "MAX_UNREAD_COUNT = 100"

text \<open>
  Pushing a character back moves the position to the left, and \<open>__testlib_fail\<close> is called when it gets
  below 0: with \<open>filled\<close> bytes in the buffer, when as many cells are ahead as the buffer holds in all.
\<close>

definition reader_unreadChar :: "nat \<Rightarrow> int \<Rightarrow> cell list \<Rightarrow> cell list checked" where
  "reader_unreadChar filled c r =
     (if length r \<ge> MAX_UNREAD_COUNT + filled then Inl (resultExitCode R_fail)
      else Inr ((if c = EOF then EofMark else Byte (to_char c)) # r))"

text \<open>
  \<open>InStream::quit\<close> with a result other than \<open>_ok\<close>: streams other than the output turn every result
  into a failure, and \<open>_dirt\<close> becomes \<open>_pe\<close>.
\<close>

definition stream_quit :: "TMode \<Rightarrow> TResult \<Rightarrow> int" where
  "stream_quit m result =
     (if m \<noteq> M_output \<and> result \<noteq> R_fail then resultExitCode R_fail
      else resultExitCode (if result = R_dirt then R_pe else result))"

text \<open>\<open>skipBlanks\<close>: \<open>curChar\<close> and \<open>skipChar\<close> in turn.\<close>

fun skip_blank_cells :: "cell list \<Rightarrow> cell list" where
  "skip_blank_cells (Byte c # r) = (if isBlanks (schar c) then skip_blank_cells r else Byte c # r)"
| "skip_blank_cells (EofMark # r) = EofMark # r"
| "skip_blank_cells [] = []"

definition stream_eof :: "InStream \<Rightarrow> bool" where
  "stream_eof s \<longleftrightarrow> (if \<not> is_open s then True else reader_eof (is_cells s))"

definition seekEof :: "InStream \<Rightarrow> bool \<times> InStream" where
  "seekEof s =
     (if \<not> is_open s then (True, s)
      else let s' = s\<lparr>is_cells := skip_blank_cells (is_cells s)\<rparr> in (stream_eof s', s'))"

text \<open>The global \<open>quitf\<close>: the exit code of a checker whose output stream is \<open>ouf\<close>.\<close>

definition quitf :: "InStream \<Rightarrow> TResult \<Rightarrow> int" where
  "quitf ouf result =
     (if result = R_ok \<and> \<not> fst (seekEof ouf) then stream_quit (is_mode ouf) R_dirt
      else stream_quit (is_mode ouf) result)"

section \<open>Words\<close>

lemma next_word_measure:
  "(case reader_nextChar r of (c, r') \<Rightarrow> 2 * length r' + (if c = EOF then 0 else 1)) < Suc (2 * length r)"
  by (cases r rule: reader_nextChar.cases) auto

function read_word_loop :: "int \<Rightarrow> cell list \<Rightarrow> string \<times> int \<times> cell list" where
  "read_word_loop cur r =
     (if isBlanks cur \<or> cur = EOF then ([], cur, r)
      else
        case reader_nextChar r of
          (cur', r') \<Rightarrow> (case read_word_loop cur' r' of (w, c, r'') \<Rightarrow> (to_char cur # w, c, r'')))"
  by auto
termination
  by (relation "measure (\<lambda>(cur, r). 2 * length r + (if cur = EOF then 0 else 1))") (auto simp: next_word_measure)

declare read_word_loop.simps [simp del]

text \<open>A missing file makes every read of a character fail with \<open>_fail\<close>.\<close>

definition readWord :: "InStream \<Rightarrow> (string \<times> InStream) checked" where
  "readWord s =
     (if \<not> is_open s then Inl (stream_quit (is_mode s) R_fail)
      else
        case reader_nextChar (skip_blank_cells (is_cells s)) of
          (cur, r) \<Rightarrow>
            if cur = EOF then Inl (stream_quit (is_mode s) R_unexpected_eof)
            else if isBlanks cur then Inl (stream_quit (is_mode s) R_pe)
            else
              case read_word_loop cur r of
                (w, c, r') \<Rightarrow>
                  if w = [] then Inl (stream_quit (is_mode s) R_unexpected_eof)
                  else bind_checked (reader_unreadChar (is_size s) c r') (\<lambda>r''. Inr (w, s\<lparr>is_cells := r''\<rparr>)))"

section \<open>Lines\<close>

text \<open>
  \<open>eoln\<close>, with the number of bytes in the buffer before and after it. That number matters only where
  something is pushed back in front of the end of the file, after a carriage return that ends it.
\<close>

definition cells_eoln :: "nat \<Rightarrow> cell list \<Rightarrow> (bool \<times> nat \<times> cell list) checked" where
  "cells_eoln filled r =
     (case reader_nextChar r of
        (c, r1) \<Rightarrow>
          if c = EOF then Inr (True, filled, r1)
          else if c = 13 then
            (case reader_nextChar r1 of
               (c2, r2) \<Rightarrow>
                 if c2 \<noteq> 10 then
                   let filled' = (if r1 = [] then 0 else filled) in
                   bind_checked (reader_unreadChar filled' c2 r2) (\<lambda>r3.
                     bind_checked (reader_unreadChar filled' 13 r3) (\<lambda>r4. Inr (False, filled', r4)))
                 else Inr (True, filled, r2))
          else if c = 10 then Inr (True, filled, r1)
          else bind_checked (reader_unreadChar filled c r1) (\<lambda>r2. Inr (False, filled, r2)))"

lemma next_string_measure: "reader_curChar r \<noteq> EOF \<Longrightarrow> (c, r') = reader_nextChar r \<Longrightarrow> length r' < length r"
  by (cases r rule: reader_nextChar.cases) auto

function read_string_loop :: "cell list \<Rightarrow> string \<times> cell list" where
  "read_string_loop r =
     (let cur = reader_curChar r in
      if isEoln cur \<or> cur = EOF then ([], r)
      else
        case reader_nextChar r of
          (c, r') \<Rightarrow> (case read_string_loop r' of (w, r'') \<Rightarrow> (to_char c # w, r'')))"
  by auto
termination
  by (relation "measure length") (auto dest: next_string_measure)

declare read_string_loop.simps [simp del]

definition readString :: "InStream \<Rightarrow> (string \<times> InStream) checked" where
  "readString s =
     (if \<not> is_open s then Inl (stream_quit (is_mode s) R_pe)
      else
        case read_string_loop (is_cells s) of
          (result, r) \<Rightarrow>
            bind_checked (cells_eoln (is_size s) r) (\<lambda>(_, filled, r'). Inr (result, s\<lparr>is_cells := r', is_size := filled\<rparr>)))"

section \<open>Integers\<close>

definition wrap64 :: "int \<Rightarrow> int" where
  "wrap64 x = signed_take_bit 63 x"

text \<open>\<open>c_str()\<close> read by \<open>strlen\<close> and \<open>strcmp\<close>: the characters before the first NUL.\<close>

definition c_str :: "string \<Rightarrow> string" where
  "c_str s = takeWhile (\<lambda>c. c \<noteq> CHR 0x00) s"

definition LLONG_MIN :: int where "LLONG_MIN = - 9223372036854775808"

text \<open>
  The loop of \<open>equals\<close> on a positive integer and the text before \<open>length\<close>. The code would read before
  the text when the integer has more digits; \<open>stringToLongLong\<close> never calls it so.
\<close>

function digits_equal :: "int \<Rightarrow> string \<Rightarrow> bool" where
  "digits_equal integer s =
     (if integer > 0 then
        (if s = [] \<or> schar (last s) \<noteq> 48 + integer mod 10 then False
         else digits_equal (integer div 10) (butlast s))
      else s = [])"
  by auto
termination by (relation "measure (\<lambda>(i, s). length s)") auto

declare digits_equal.simps [simp del]

definition equals_text :: "int \<Rightarrow> string \<Rightarrow> bool" where
  "equals_text integer s =
     (if integer = LLONG_MIN then s = ''-9223372036854775808''
      else if integer = 0 then s = ''0''
      else if length s = 0 then False
      else if integer < 0 \<and> hd s \<noteq> CHR ''-'' then False
      else
        let s' = (if integer < 0 then tl s else s); i' = (if integer < 0 then - integer else integer) in
        if length s' = 0 then False else digits_equal i' s')"

text \<open>
  The digit loop: None is a character that is no digit; \<open>zeroes\<close> counts the leading zeroes. The
  product overflows for the longest texts; the model wraps as the compiled code does.
\<close>

fun digit_loop :: "int \<Rightarrow> nat \<Rightarrow> bool \<Rightarrow> string \<Rightarrow> (int \<times> nat) option" where
  "digit_loop retval zeroes processingZeroes [] = Some (retval, zeroes)"
| "digit_loop retval zeroes processingZeroes (c # cs) =
     (let z = (if c = CHR ''0'' \<and> processingZeroes then Suc zeroes else zeroes);
          p = (if c = CHR ''0'' \<and> processingZeroes then processingZeroes else False)
      in if schar c < 48 \<or> schar c > 57 then None
         else digit_loop (wrap64 (retval * 10 + (schar c - 48))) z p cs)"

definition stringToLongLong :: "TMode \<Rightarrow> string \<Rightarrow> int checked" where
  "stringToLongLong m text =
     (let buffer = c_str text; pe = Inl (stream_quit m R_pe) in
      if buffer = ''-9223372036854775808'' then Inr LLONG_MIN
      else
        let minus = (length buffer > 1 \<and> hd buffer = CHR ''-'') in
        if length buffer > 20 then pe
        else
          case digit_loop 0 0 True (if minus then tl buffer else buffer) of
            None \<Rightarrow> pe
          | Some (retval, zeroes) \<Rightarrow>
              if retval < 0 then pe
              else if zeroes > 0 \<and> (retval \<noteq> 0 \<or> minus) \<or> zeroes > 1 then pe
              else
                let v = (if minus then - retval else retval) in
                if length buffer < 19 then Inr v
                else if equals_text v buffer then Inr v else pe)"

definition readLong :: "InStream \<Rightarrow> (int \<times> InStream) checked" where
  "readLong s0 =
     (case seekEof s0 of
        (True, s) \<Rightarrow> Inl (stream_quit (is_mode s) R_unexpected_eof)
      | (False, s) \<Rightarrow>
          bind_checked (readWord s) (\<lambda>(w, s').
            bind_checked (stringToLongLong (is_mode s) w) (\<lambda>v. Inr (v, s'))))"

definition readInteger :: "InStream \<Rightarrow> (int \<times> InStream) checked" where
  "readInteger s0 =
     (case seekEof s0 of
        (True, s) \<Rightarrow> Inl (stream_quit (is_mode s) R_unexpected_eof)
      | (False, s) \<Rightarrow>
          bind_checked (readWord s) (\<lambda>(w, s').
            bind_checked (stringToLongLong (is_mode s) w) (\<lambda>v.
              if v < - 2147483648 \<or> v > 2147483647 then Inl (stream_quit (is_mode s) R_pe) else Inr (v, s'))))"

section \<open>Registration\<close>

text \<open>
  \<open>registerTestlibCmd\<close> with the three file arguments: a missing output file ends the program, other
  missing files leave the stream closed. A file is given by its contents.
\<close>

definition open_stream :: "TMode \<Rightarrow> string option \<Rightarrow> InStream checked" where
  "open_stream m content =
     (case content of
        None \<Rightarrow>
          if m = M_output then Inl (stream_quit m R_pe)
          else Inr \<lparr>is_mode = m, is_open = False, is_cells = [], is_size = 0\<rparr>
      | Some txt \<Rightarrow> Inr \<lparr>is_mode = m, is_open = True, is_cells = map Byte txt, is_size = length txt\<rparr>)"

definition registerTestlibCmd :: "string option \<Rightarrow> string option \<Rightarrow> (InStream \<times> InStream) checked" where
  "registerTestlibCmd output answer =
     bind_checked (open_stream M_output output) (\<lambda>ouf.
       bind_checked (open_stream M_answer answer) (\<lambda>ans. Inr (ouf, ans)))"

fun upper_char :: "char \<Rightarrow> char" where
  "upper_char c = (if 97 \<le> schar c \<and> schar c \<le> 122 then to_char (schar c - 97 + 65) else c)"

definition upperCase :: "string \<Rightarrow> string" where
  "upperCase s = map upper_char s"

end
