(* ===== verification/Checkers.thy ===== *)
theory Checkers
  imports Testlib
begin

text \<open>
  The checker programs of \<open>checker/src\<close> that compare lines, words and integers: each maps the
  contents of the output file and of the answer file (None for a missing file) to its exit code; the
  texts it prints are left out. A loop that never ends is None. \<open>fcmp2\<close> is the checker the judge server
  runs.
\<close>

section \<open>Line checkers\<close>

text \<open>\<open>del_line_back_space\<close> erases characters at the end while they are blank.\<close>

definition back_space :: "char \<Rightarrow> bool" where
  "back_space c \<longleftrightarrow> c = CHR 0x0A \<or> c = CHR '' '' \<or> c = CHR 0x0D"

function del_line_back_space :: "string \<Rightarrow> string" where
  "del_line_back_space str =
     (if str \<noteq> [] then (if back_space (last str) then del_line_back_space (butlast str) else str) else str)"
  by auto
termination by (relation "measure length") auto

declare del_line_back_space.simps [simp del]

text \<open>\<open>stringstream >> cur\<close> until it fails.\<close>

definition stream_words :: "string \<Rightarrow> string list" where
  "stream_words s = words_by is_space s"

definition compareWords :: "string \<Rightarrow> string \<Rightarrow> bool" where
  "compareWords a b \<longleftrightarrow> stream_words a = stream_words b"

text \<open>The loop that \<open>fcmp\<close>, \<open>fcmp2\<close> and \<open>lcmp\<close> share: what is done to a line, and when lines agree.\<close>

partial_function (option) line_loop ::
  "(string \<Rightarrow> string) \<Rightarrow> (string \<Rightarrow> string \<Rightarrow> bool) \<Rightarrow> InStream \<Rightarrow> InStream \<Rightarrow> int option" where
  "line_loop edit same ans ouf =
     (if stream_eof ans then Some (quitf ouf R_ok)
      else
        case readString ans of
          Inl code \<Rightarrow> Some code
        | Inr (j, ans') \<Rightarrow>
            if edit j = [] \<and> stream_eof ans' then Some (quitf ouf R_ok)
            else
              (case readString ouf of
                 Inl code \<Rightarrow> Some code
               | Inr (p, ouf') \<Rightarrow>
                   if \<not> same (edit j) (edit p) then Some (quitf ouf' R_wa) else line_loop edit same ans' ouf'))"

declare line_loop.simps [code]

definition line_checker ::
  "(string \<Rightarrow> string) \<Rightarrow> (string \<Rightarrow> string \<Rightarrow> bool) \<Rightarrow> string option \<Rightarrow> string option \<Rightarrow> int option" where
  "line_checker edit same output answer =
     (case registerTestlibCmd output answer of Inl code \<Rightarrow> Some code | Inr (ouf, ans) \<Rightarrow> line_loop edit same ans ouf)"

definition fcmp2 :: "string option \<Rightarrow> string option \<Rightarrow> int option" where
  "fcmp2 = line_checker del_line_back_space (=)"

definition fcmp :: "string option \<Rightarrow> string option \<Rightarrow> int option" where
  "fcmp = line_checker (\<lambda>j. j) (=)"

definition lcmp :: "string option \<Rightarrow> string option \<Rightarrow> int option" where
  "lcmp = line_checker (\<lambda>j. j) compareWords"

section \<open>Word checkers\<close>

partial_function (option) wcmp_loop :: "InStream \<Rightarrow> InStream \<Rightarrow> int option" where
  "wcmp_loop ans0 ouf0 =
     (case seekEof ans0 of (ans_end, ans) \<Rightarrow>
        (case seekEof ouf0 of (ouf_end, ouf) \<Rightarrow>
           if ans_end then Some (quitf ouf (if ouf_end then R_ok else R_wa))
           else if ouf_end then Some (quitf ouf R_wa)
           else
             (case readWord ans of
                Inl code \<Rightarrow> Some code
              | Inr (j, ans') \<Rightarrow>
                  (case readWord ouf of
                     Inl code \<Rightarrow> Some code
                   | Inr (p, ouf') \<Rightarrow> if j \<noteq> p then Some (quitf ouf' R_wa) else wcmp_loop ans' ouf'))))"

declare wcmp_loop.simps [code]

definition wcmp :: "string option \<Rightarrow> string option \<Rightarrow> int option" where
  "wcmp output answer =
     (case registerTestlibCmd output answer of Inl code \<Rightarrow> Some code | Inr (ouf, ans) \<Rightarrow> wcmp_loop ans ouf)"

definition yesno :: "string option \<Rightarrow> string option \<Rightarrow> int" where
  "yesno output answer =
     (case bind_checked (registerTestlibCmd output answer) (\<lambda>(ouf, ans).
             bind_checked (readWord ans) (\<lambda>(j, ans').
               bind_checked (readWord ouf) (\<lambda>(p, ouf').
                 let ja = upperCase j; pa = upperCase p in
                 if ja \<noteq> ''YES'' \<and> ja \<noteq> ''NO'' then Inl (quitf ouf' R_fail)
                 else if pa \<noteq> ''YES'' \<and> pa \<noteq> ''NO'' then Inl (quitf ouf' R_pe)
                 else if ja \<noteq> pa then Inl (quitf ouf' R_wa)
                 else Inr (quitf ouf' R_ok)))) of
        Inl code \<Rightarrow> code
      | Inr code \<Rightarrow> code)"

section \<open>Integer checkers\<close>

definition icmp :: "string option \<Rightarrow> string option \<Rightarrow> int" where
  "icmp output answer =
     (case bind_checked (registerTestlibCmd output answer) (\<lambda>(ouf, ans).
             bind_checked (readInteger ans) (\<lambda>(ja, ans').
               bind_checked (readInteger ouf) (\<lambda>(pa, ouf').
                 if ja \<noteq> pa then Inl (quitf ouf' R_wa) else Inr (quitf ouf' R_ok)))) of
        Inl code \<Rightarrow> code
      | Inr code \<Rightarrow> code)"

text \<open>\<open>while (!s.seekEof()) v.push_back(s.readLong())\<close>\<close>

partial_function (option) read_longs :: "InStream \<Rightarrow> int list \<Rightarrow> (int list \<times> InStream) checked option" where
  "read_longs s0 acc =
     (case seekEof s0 of (at_end, s) \<Rightarrow>
        if at_end then Some (Inr (acc, s))
        else (case readLong s of Inl code \<Rightarrow> Some (Inl code) | Inr (v, s') \<Rightarrow> read_longs s' (acc @ [v])))"

declare read_longs.simps [code]

text \<open>The two loops of \<open>ncmp\<close> over what is left count the numbers they read.\<close>

partial_function (option) ncmp_loop :: "InStream \<Rightarrow> InStream \<Rightarrow> int option" where
  "ncmp_loop ans0 ouf0 =
     (case seekEof ans0 of (ans_end, ans) \<Rightarrow>
      case (if ans_end then (True, ouf0) else seekEof ouf0) of (ouf_end, ouf) \<Rightarrow>
      if \<not> ans_end \<and> \<not> ouf_end then
        (case readLong ans of
           Inl code \<Rightarrow> Some code
         | Inr (j, ans') \<Rightarrow>
             (case readLong ouf of
                Inl code \<Rightarrow> Some code
              | Inr (p, ouf') \<Rightarrow> if j \<noteq> p then Some (quitf ouf' R_wa) else ncmp_loop ans' ouf'))
      else
        (case read_longs ans [] of
           None \<Rightarrow> None
         | Some (Inl code) \<Rightarrow> Some code
         | Some (Inr (extraInAns, ans')) \<Rightarrow>
             (case read_longs ouf [] of
                None \<Rightarrow> None
              | Some (Inl code) \<Rightarrow> Some code
              | Some (Inr (extraInOuf, ouf')) \<Rightarrow>
                  if length extraInAns > 0 then Some (quitf ouf' R_wa)
                  else if length extraInOuf > 0 then Some (quitf ouf' R_wa)
                  else Some (quitf ouf' R_ok))))"

declare ncmp_loop.simps [code]

definition ncmp :: "string option \<Rightarrow> string option \<Rightarrow> int option" where
  "ncmp output answer =
     (case registerTestlibCmd output answer of Inl code \<Rightarrow> Some code | Inr (ouf, ans) \<Rightarrow> ncmp_loop ans ouf)"

definition uncmp :: "string option \<Rightarrow> string option \<Rightarrow> int option" where
  "uncmp output answer =
     (case registerTestlibCmd output answer of
        Inl code \<Rightarrow> Some code
      | Inr (ouf, ans) \<Rightarrow>
          (case read_longs ans [] of
             None \<Rightarrow> None
           | Some (Inl code) \<Rightarrow> Some code
           | Some (Inr (ja, ans')) \<Rightarrow>
               (case read_longs ouf [] of
                  None \<Rightarrow> None
                | Some (Inl code) \<Rightarrow> Some code
                | Some (Inr (pa, ouf')) \<Rightarrow>
                    if length ja \<noteq> length pa then Some (quitf ouf' R_wa)
                    else if sort ja \<noteq> sort pa then Some (quitf ouf' R_wa)
                    else Some (quitf ouf' R_ok))))"

section \<open>Checkers with test cases\<close>

text \<open>
  The header of a test case is the token \<open>Case\<close> and the number with a colon. \<open>pe\<close> is the exit code of
  \<open>quitf\<close> for a wrong header: the failure code for the answer, a presentation error for the output.
\<close>

definition numExpStr :: "nat \<Rightarrow> string" where
  "numExpStr testCase = nat_to_string testCase @ '':''"

partial_function (option) readStream :: "int \<Rightarrow> nat \<Rightarrow> InStream \<Rightarrow> int list \<Rightarrow> (int list \<times> InStream) checked option" where
  "readStream pe testCase in0 result =
     (case seekEof in0 of (at_end, in1) \<Rightarrow>
        if at_end then Some (Inr (result, in1))
        else
          (case readWord in1 of
             Inl code \<Rightarrow> Some (Inl code)
           | Inr (caseStr, in2) \<Rightarrow>
               if caseStr \<noteq> ''Case'' then Some (Inl pe)
               else
                 (case readWord in2 of
                    Inl code \<Rightarrow> Some (Inl code)
                  | Inr (numStr, in3) \<Rightarrow>
                      if numExpStr testCase \<noteq> numStr then Some (Inl pe)
                      else
                        (case readLong in3 of
                           Inl code \<Rightarrow> Some (Inl code)
                         | Inr (v, in4) \<Rightarrow> readStream pe (Suc testCase) in4 (result @ [v])))))"

declare readStream.simps [code]

definition caseicmp :: "string option \<Rightarrow> string option \<Rightarrow> int option" where
  "caseicmp output answer =
     (case registerTestlibCmd output answer of
        Inl code \<Rightarrow> Some code
      | Inr (ouf, ans) \<Rightarrow>
          (case readStream (quitf ouf R_fail) 1 ans [] of
             None \<Rightarrow> None
           | Some (Inl code) \<Rightarrow> Some code
           | Some (Inr (ja, ans')) \<Rightarrow>
               (case readStream (quitf ouf R_pe) 1 ouf [] of
                  None \<Rightarrow> None
                | Some (Inl code) \<Rightarrow> Some code
                | Some (Inr (pa, ouf')) \<Rightarrow>
                    if list_ex (\<lambda>(j, p). j \<noteq> p) (zip ja pa) then Some (quitf ouf' R_wa)
                    else if length ja \<noteq> length pa then Some (quitf ouf' R_pe)
                    else Some (quitf ouf' R_ok))))"

text \<open>
  \<open>readStreamCase\<close> of \<open>casencmp\<close> and \<open>casewcmp\<close>: the items of one test case, read up to the header of
  the next one, which is then marked as read. \<open>conv\<close> turns a token into an item.
\<close>

partial_function (option) case_items ::
  "(string \<Rightarrow> 'a checked) \<Rightarrow> InStream \<Rightarrow> bool \<Rightarrow> 'a list \<Rightarrow> ('a list \<times> bool \<times> InStream) checked option" where
  "case_items conv in0 prereadCase result =
     (case seekEof in0 of (at_end, in1) \<Rightarrow>
        if at_end then Some (Inr (result, prereadCase, in1))
        else
          (case readWord in1 of
             Inl code \<Rightarrow> Some (Inl code)
           | Inr (token, in2) \<Rightarrow>
               if token = ''Case'' then Some (Inr (result, True, in2))
               else
                 (case conv token of
                    Inl code \<Rightarrow> Some (Inl code)
                  | Inr v \<Rightarrow> case_items conv in2 prereadCase (result @ [v]))))"

declare case_items.simps [code]

definition case_start :: "int \<Rightarrow> InStream \<Rightarrow> bool \<Rightarrow> InStream checked" where
  "case_start pe in0 prereadCase =
     (if \<not> prereadCase
      then bind_checked (readWord in0) (\<lambda>(caseStr, in1). if caseStr \<noteq> ''Case'' then Inl pe else Inr in1)
      else Inr in0)"

definition readStreamCase ::
  "(string \<Rightarrow> 'a checked) \<Rightarrow> int \<Rightarrow> InStream \<Rightarrow> nat \<Rightarrow> bool \<Rightarrow> ('a list \<times> bool \<times> InStream) checked option" where
  "readStreamCase conv pe in0 testCase prereadCase =
     (case bind_checked (case_start pe in0 prereadCase) readWord of
        Inl code \<Rightarrow> Some (Inl code)
      | Inr (numStr, in1) \<Rightarrow>
          if numExpStr testCase \<noteq> numStr then Some (Inl pe) else case_items conv in1 prereadCase [])"

partial_function (option) testcase_loop ::
  "(TMode \<Rightarrow> string \<Rightarrow> 'a checked) \<Rightarrow> nat \<Rightarrow> bool \<Rightarrow> bool \<Rightarrow> InStream \<Rightarrow> InStream \<Rightarrow> int option" where
  "testcase_loop conv testCase ansPrereadCase oufPrereadCase ans0 ouf =
     (case seekEof ans0 of (at_end, ans) \<Rightarrow>
        if at_end then Some (quitf ouf R_ok)
        else
          (case readStreamCase (conv M_answer) (quitf ouf R_fail) ans (Suc testCase) ansPrereadCase of
             None \<Rightarrow> None
           | Some (Inl code) \<Rightarrow> Some code
           | Some (Inr (ja, ansPre, ans')) \<Rightarrow>
               (case readStreamCase (conv M_output) (quitf ouf R_pe) ouf (Suc testCase) oufPrereadCase of
                  None \<Rightarrow> None
                | Some (Inl code) \<Rightarrow> Some code
                | Some (Inr (pa, oufPre, ouf')) \<Rightarrow>
                    if ja \<noteq> pa then Some (quitf ouf' R_wa) else testcase_loop conv (Suc testCase) ansPre oufPre ans' ouf')))"

declare testcase_loop.simps [code]

definition case_checker :: "(TMode \<Rightarrow> string \<Rightarrow> 'a checked) \<Rightarrow> string option \<Rightarrow> string option \<Rightarrow> int option" where
  "case_checker conv output answer =
     (case registerTestlibCmd output answer of
        Inl code \<Rightarrow> Some code
      | Inr (ouf, ans) \<Rightarrow> testcase_loop conv 0 False False ans ouf)"

definition casencmp :: "string option \<Rightarrow> string option \<Rightarrow> int option" where
  "casencmp = case_checker stringToLongLong"

definition casewcmp :: "string option \<Rightarrow> string option \<Rightarrow> int option" where
  "casewcmp = case_checker (\<lambda>_ token. Inr token)"

section \<open>Bytes\<close>

text \<open>\<open>bcmp\<close> uses no testlib; the loop reads both files with \<open>fgetc\<close>.\<close>

fun bcmp_loop :: "string \<Rightarrow> string \<Rightarrow> int" where
  "bcmp_loop [] [] = 0"
| "bcmp_loop (c # cs) (d # ds) = (if c \<noteq> d then 1 else bcmp_loop cs ds)"
| "bcmp_loop _ _ = 1"

definition bcmp :: "string option \<Rightarrow> string option \<Rightarrow> int" where
  "bcmp fout fans = (case (fout, fans) of (Some out, Some ans) \<Rightarrow> bcmp_loop out ans | _ \<Rightarrow> 1)"

end
