(* ===== verification/LineCheckers.thy ===== *)
theory LineCheckers
  imports Checkers RunnerFacts
begin

text \<open>
  What the line checkers decide. On plain texts \<open>fcmp2\<close>, which the judge runs when it is installed,
  accepts exactly what the server's own comparison accepts; on texts with bare carriage returns it
  may never end, and a byte 0xFF hides the rest of the output from it.
\<close>

section \<open>Characters\<close>

lemma schar_inject [simp]: "schar c = schar d \<longleftrightarrow> c = d"
  by (metis to_char_schar)

lemma schar_codes:
  "schar c = EOF \<longleftrightarrow> c = CHR 0xFF" "schar c = 10 \<longleftrightarrow> c = CHR 0x0A" "schar c = 13 \<longleftrightarrow> c = CHR 0x0D"
  "schar c = 32 \<longleftrightarrow> c = CHR '' ''" "schar c = 9 \<longleftrightarrow> c = CHR 0x09"
proof -
  have "schar (CHR 0xFF) = EOF" "schar (CHR 0x0A) = 10" "schar (CHR 0x0D) = 13" "schar (CHR '' '') = 32" "schar (CHR 0x09) = 9"
    by (simp_all add: schar_def EOF_def)
  then show "schar c = EOF \<longleftrightarrow> c = CHR 0xFF" "schar c = 10 \<longleftrightarrow> c = CHR 0x0A" "schar c = 13 \<longleftrightarrow> c = CHR 0x0D"
    "schar c = 32 \<longleftrightarrow> c = CHR '' ''" "schar c = 9 \<longleftrightarrow> c = CHR 0x09"
    using schar_inject by metis+
qed

lemma schar_CR: "schar (CHR 0x0D) = 13" "to_char 13 = CHR 0x0D" "13 \<noteq> EOF"
  using schar_codes(3) [of "CHR 0x0D"] to_char_schar [of "CHR 0x0D"] by (simp_all add: EOF_def)

lemma EOF_codes [simp]: "\<not> isEoln EOF" "\<not> isBlanks EOF" "EOF \<noteq> 10" "EOF \<noteq> 13"
  by (simp_all add: isEoln_def isBlanks_def EOF_def)

lemma isEoln_schar: "isEoln (schar c) \<longleftrightarrow> c = CHR 0x0A \<or> c = CHR 0x0D"
  by (simp add: isEoln_def schar_codes)

lemma isBlanks_schar: "isBlanks (schar c) \<longleftrightarrow> blank_right c \<or> c = CHR 0x0A"
  by (auto simp: isBlanks_def blank_right_def schar_codes)

section \<open>Streams of bytes\<close>

text \<open>A stream of a file of \<open>n\<close> bytes with the text \<open>t\<close> ahead, and one whose file is all ahead.\<close>

definition stream_of :: "nat \<Rightarrow> TMode \<Rightarrow> string \<Rightarrow> InStream" where
  "stream_of n m t = \<lparr>is_mode = m, is_open = True, is_cells = map Byte t, is_size = n\<rparr>"

abbreviation text_stream :: "TMode \<Rightarrow> string \<Rightarrow> InStream" where
  "text_stream m t \<equiv> stream_of (length t) m t"

lemma stream_of_mode [simp]: "is_mode (stream_of n m t) = m"
  by (simp add: stream_of_def)

lemma reader_curChar_text: "reader_curChar (map Byte t) = (case t of [] \<Rightarrow> EOF | c # _ \<Rightarrow> schar c)"
  by (cases t) simp_all

lemma reader_nextChar_text: "reader_nextChar (map Byte t) = (case t of [] \<Rightarrow> (EOF, []) | c # t' \<Rightarrow> (schar c, map Byte t'))"
  by (cases t) simp_all

lemma stream_eof_text: "stream_eof (stream_of n m t) \<longleftrightarrow> t = [] \<or> hd t = CHR 0xFF"
  by (cases t) (simp_all add: stream_of_def stream_eof_def reader_eof_def schar_codes)

lemma skip_blank_text: "skip_blank_cells (map Byte t) = map Byte (dropWhile (\<lambda>c. isBlanks (schar c)) t)"
  by (induction t) simp_all

lemma seekEof_text:
  "seekEof (stream_of n m t) =
     (let u = dropWhile (\<lambda>c. isBlanks (schar c)) t in (u = [] \<or> hd u = CHR 0xFF, stream_of n m u))"
  by (simp add: seekEof_def skip_blank_text Let_def stream_of_def stream_eof_text [unfolded stream_of_def])

lemma quitf_text:
  "quitf (stream_of k M_output t) R_ok =
     (let u = dropWhile (\<lambda>c. isBlanks (schar c)) t in if u = [] \<or> hd u = CHR 0xFF then 0 else 2)"
  "quitf (stream_of k M_output t) R_wa = 1"
  by (simp_all add: quitf_def seekEof_text stream_quit_def Let_def)

definition line_char :: "char \<Rightarrow> bool" where
  "line_char c \<longleftrightarrow> c \<noteq> CHR 0x0A \<and> c \<noteq> CHR 0x0D \<and> c \<noteq> CHR 0xFF"

lemma read_string_loop_text: "read_string_loop (map Byte t) = (takeWhile line_char t, map Byte (dropWhile line_char t))"
proof (induction t)
  case Nil
  then show ?case by (simp add: read_string_loop.simps)
next
  case (Cons c t)
  then show ?case by (subst read_string_loop.simps) (auto simp: isEoln_schar schar_codes Let_def line_char_def [of c])
qed

lemma readString_text:
  assumes "cells_eoln n (map Byte (dropWhile line_char t)) = Inr (e, n, map Byte u)"
  shows "readString (stream_of n m t) = Inr (takeWhile line_char t, stream_of n m u)"
  by (simp add: readString_def stream_of_def read_string_loop_text assms)

text \<open>A text without the byte 0xFF and without carriage returns, its first line and what follows it.\<close>

definition plain :: "string \<Rightarrow> bool" where
  "plain t \<longleftrightarrow> CHR 0xFF \<notin> set t \<and> CHR 0x0D \<notin> set t"

definition first_line :: "string \<Rightarrow> string" where
  "first_line t = takeWhile (\<lambda>c. c \<noteq> CHR 0x0A) t"

definition other_lines :: "string \<Rightarrow> string" where
  "other_lines t = tl (dropWhile (\<lambda>c. c \<noteq> CHR 0x0A) t)"

lemma other_lines_simps [simp]:
  "other_lines [] = []" "other_lines (c # t) = (if c = CHR 0x0A then t else other_lines t)"
  "first_line [] = []" "first_line (c # t) = (if c = CHR 0x0A then [] else c # first_line t)"
  by (simp_all add: other_lines_def first_line_def)

lemma parts_subset: "set (first_line t) \<subseteq> set t" "set (other_lines t) \<subseteq> set t"
  by (induction t) auto

lemma plain_parts: "plain t \<Longrightarrow> plain (first_line t)" "plain t \<Longrightarrow> plain (other_lines t)"
  using parts_subset [of t] by (auto simp: plain_def)

lemma other_lines_shorter: "t \<noteq> [] \<Longrightarrow> length (other_lines t) < length t"
proof (induction t)
  case (Cons c t)
  then show ?case by (cases "t = []") auto
qed simp

lemma cells_eoln_text: "u = [] \<or> hd u = CHR 0x0A \<Longrightarrow> cells_eoln n (map Byte u) = Inr (True, n, map Byte (tl u))"
  by (cases u) (auto simp: cells_eoln_def schar_codes split: prod.split)

lemma line_char_plain: "plain t \<Longrightarrow> c \<in> set t \<Longrightarrow> line_char c \<longleftrightarrow> c \<noteq> CHR 0x0A"
  by (auto simp: plain_def line_char_def)

lemma line_parts_plain:
  assumes "plain t"
  shows "takeWhile line_char t = first_line t" "dropWhile line_char t = dropWhile (\<lambda>c. c \<noteq> CHR 0x0A) t"
  unfolding first_line_def using line_char_plain [OF assms] by (auto intro!: takeWhile_cong dropWhile_cong)

lemma dropWhile_newline: "dropWhile (\<lambda>c. c \<noteq> CHR 0x0A) t = [] \<or> hd (dropWhile (\<lambda>c. c \<noteq> CHR 0x0A) t) = CHR 0x0A"
  using hd_dropWhile [of "\<lambda>c. c \<noteq> CHR 0x0A" t] by auto

lemma readString_plain:
  assumes "plain t"
  shows "readString (stream_of n m t) = Inr (first_line t, stream_of n m (other_lines t))"
  using readString_text [of n t True "other_lines t"] unfolding line_parts_plain [OF assms] other_lines_def
  by (simp add: cells_eoln_text [OF dropWhile_newline])

text \<open>A whole line of a plain beginning, whatever follows it.\<close>

lemma readString_prefix:
  assumes "plain p" "CHR 0x0A \<in> set p"
  shows "readString (stream_of n m (p @ s)) = Inr (first_line p, stream_of n m (other_lines p @ s))"
proof -
  have "\<not> line_char (CHR 0x0A)" by (simp add: line_char_def)
  with assms(2) have "takeWhile line_char (p @ s) = takeWhile line_char p" "dropWhile line_char (p @ s) = dropWhile line_char p @ s"
    by (auto intro: takeWhile_append1 dropWhile_append1)
  moreover have "dropWhile (\<lambda>c. c \<noteq> CHR 0x0A) p \<noteq> []" using assms(2) by (simp add: dropWhile_eq_Nil_conv)
  moreover have "cells_eoln n (map Byte (dropWhile (\<lambda>c. c \<noteq> CHR 0x0A) p @ s)) = Inr (True, n, map Byte (other_lines p @ s))"
    using calculation(3) dropWhile_newline [of p] cells_eoln_text [of "dropWhile (\<lambda>c. c \<noteq> CHR 0x0A) p @ s"]
    unfolding other_lines_def by (metis append_is_Nil_conv hd_append2 tl_append2)
  ultimately show ?thesis
    using readString_text [of n "p @ s" True "other_lines p @ s"] by (simp only: line_parts_plain [OF assms(1)])
qed

section \<open>The normal form line by line\<close>

definition cons_line :: "string \<Rightarrow> string list \<Rightarrow> string list" where
  "cons_line x ls = (if x = [] \<and> ls = [] then [] else x # ls)"

lemma cons_line_eq_iff: "cons_line x A = cons_line y B \<longleftrightarrow> x = y \<and> A = B"
  by (auto simp: cons_line_def)

lemma cons_line_Nil_iff [simp]: "cons_line x A = [] \<longleftrightarrow> x = [] \<and> A = []"
  by (simp add: cons_line_def)

lemma pop_empty_lines_Nil [simp]: "pop_empty_lines [] = []"
  by (simp add: pop_empty_lines.simps)

lemma pop_empty_lines_Cons: "pop_empty_lines (x # ls) = cons_line x (pop_empty_lines ls)"
proof (induction ls rule: rev_induct)
  case Nil
  then show ?case using pop_empty_lines_snoc [of "[]" x] by (simp add: cons_line_def)
next
  case (snoc l ls)
  then show ?case using pop_empty_lines_snoc [of "x # ls" l]
    by (cases "l = []") (auto simp: pop_empty_lines_snoc cons_line_def split: if_splits)
qed

lemma getlines_first:
  "getlines cur t =
     (if CHR 0x0A \<in> set t then (cur @ first_line t) # getlines [] (other_lines t)
      else if cur @ t = [] then [] else [cur @ t])"
  by (induction cur t rule: getlines.induct) auto

lemma no_newline_lines: "CHR 0x0A \<notin> set t \<Longrightarrow> first_line t = t \<and> other_lines t = []"
  by (induction t) auto

lemma normalized_first: "normalized t = cons_line (trim_line_right (first_line t)) (normalized (other_lines t))"
proof (cases "CHR 0x0A \<in> set t")
  case True
  then show ?thesis by (simp add: normalized_def getlines_first [of "[]" t] pop_empty_lines_Cons)
next
  case False
  have "normalized [] = []" by (simp add: normalized_def)
  with False show ?thesis
    by (simp add: no_newline_lines) (simp add: normalized_def getlines_first [of "[]" t] pop_empty_lines_Cons cons_line_def)
qed

lemma trim_line_right_Nil_iff: "trim_line_right x = [] \<longleftrightarrow> (\<forall>c \<in> set x. blank_right c)"
  by (simp add: trim_line_right_reference dropWhile_eq_Nil_conv)

lemma split_lines: "set t \<subseteq> set (first_line t) \<union> {CHR 0x0A} \<union> set (other_lines t)"
  by (induction t) auto

lemma normalized_Nil_iff: "normalized t = [] \<longleftrightarrow> (\<forall>c \<in> set t. blank_right c \<or> c = CHR 0x0A)"
proof
  assume "normalized t = []"
  then show "\<forall>c \<in> set t. blank_right c \<or> c = CHR 0x0A"
  proof (induction "length t" arbitrary: t rule: less_induct)
    case less
    show ?case
    proof (cases "t = []")
      case False
      with less.prems have "\<forall>c \<in> set (first_line t). blank_right c" and "normalized (other_lines t) = []"
        using normalized_first [of t] by (simp_all add: trim_line_right_Nil_iff)
      with less.hyps [OF other_lines_shorter [OF False]] split_lines [of t] show ?thesis by blast
    qed simp
  qed
next
  assume "\<forall>c \<in> set t. blank_right c \<or> c = CHR 0x0A"
  then show "normalized t = []" using normalized_append [of t "[]"] by (simp add: normalized_def)
qed

lemma del_line_reference: "del_line_back_space str = rev (dropWhile back_space (rev str))"
proof (induction str rule: rev_induct)
  case Nil
  then show ?case by (simp add: del_line_back_space.simps)
next
  case (snoc c str)
  then show ?case by (simp add: del_line_back_space.simps [of "str @ [c]"])
qed

text \<open>Tabs are blank for the server and not for the checker.\<close>

definition no_tab :: "string \<Rightarrow> bool" where
  "no_tab t \<longleftrightarrow> CHR 0x09 \<notin> set t"

lemma no_tab_parts: "no_tab t \<Longrightarrow> no_tab (first_line t)" "no_tab t \<Longrightarrow> no_tab (other_lines t)"
  using parts_subset [of t] by (auto simp: no_tab_def)

lemma first_line_no_newline: "CHR 0x0A \<notin> set (first_line t)"
  by (induction t) auto

lemma del_line_trim:
  assumes "no_tab t"
  shows "del_line_back_space (first_line t) = trim_line_right (first_line t)"
proof -
  have "dropWhile back_space (rev (first_line t)) = dropWhile blank_right (rev (first_line t))"
    using first_line_no_newline [of t] no_tab_parts(1) [OF assms]
    by (intro dropWhile_cong refl) (auto simp: back_space_def blank_right_def no_tab_def)
  then show ?thesis by (simp add: del_line_reference trim_line_right_reference)
qed

section \<open>\<open>fcmp2\<close> and the built-in comparison\<close>

lemma quitf_ok_plain:
  assumes "plain b"
  shows "quitf (stream_of k M_output b) R_ok = (if normalized b = [] then 0 else 2)"
proof -
  let ?u = "dropWhile (\<lambda>c. isBlanks (schar c)) b"
  have "hd ?u \<noteq> CHR 0xFF" if "?u \<noteq> []"
    using hd_in_set [OF that] assms set_dropWhileD [of "hd ?u" "\<lambda>c. isBlanks (schar c)" b] by (metis plain_def)
  moreover have "?u = [] \<longleftrightarrow> normalized b = []"
    by (simp add: normalized_Nil_iff dropWhile_eq_Nil_conv isBlanks_schar)
  ultimately show ?thesis by (auto simp: quitf_text Let_def)
qed

lemma fcmp2_loop_plain:
  assumes "plain a" "plain b" "no_tab a" "no_tab b"
  shows "\<exists>code. line_loop del_line_back_space (=) (stream_of n M_answer a) (stream_of k M_output b) = Some code \<and>
    (code = 0 \<longleftrightarrow> normalized a = normalized b)"
  using assms
proof (induction "length a" arbitrary: a b rule: less_induct)
  case less
  let ?j = "del_line_back_space (first_line a)" and ?p = "del_line_back_space (first_line b)"
  have eof: "stream_eof (stream_of n M_answer t) \<longleftrightarrow> t = []" if "plain t" for t
    using that unfolding stream_eof_text plain_def by (metis hd_in_set)
  have empty: "normalized [] = []" by (simp add: normalized_def)
  have na: "normalized a = cons_line ?j (normalized (other_lines a))"
    and nb: "normalized b = cons_line ?p (normalized (other_lines b))"
    using less.prems by (simp_all only: del_line_trim normalized_first [of a] normalized_first [of b])
  consider "a = []" | "a \<noteq> []" "?j = []" "other_lines a = []" | "a \<noteq> []" "\<not> (?j = [] \<and> other_lines a = [])" by blast
  then show ?case
  proof cases
    case 1
    then show ?thesis
      using less.prems by (subst line_loop.simps) (auto simp: eof quitf_ok_plain empty)
  next
    case 2
    then have "normalized a = []" using na empty by simp
    with 2 show ?thesis
      using less.prems plain_parts(2) [of a]
      by (subst line_loop.simps) (auto simp: eof readString_plain quitf_ok_plain)
  next
    case 3
    show ?thesis
    proof (cases "?j = ?p")
      case True
      have "\<exists>code. line_loop del_line_back_space (=) (stream_of n M_answer (other_lines a)) (stream_of k M_output (other_lines b)) = Some code \<and>
          (code = 0 \<longleftrightarrow> normalized (other_lines a) = normalized (other_lines b))"
        using less.prems plain_parts no_tab_parts 3(1) by (intro less.hyps) (simp_all add: other_lines_shorter)
      with 3 True show ?thesis
        using less.prems plain_parts(2) [of a] unfolding na nb
        by (subst line_loop.simps) (auto simp: eof readString_plain cons_line_eq_iff)
    next
      case False
      with 3 show ?thesis
        using less.prems plain_parts(2) [of a] unfolding na nb
        by (subst line_loop.simps) (auto simp: eof readString_plain cons_line_eq_iff quitf_text)
    qed
  qed
qed

lemma line_checker_texts: "line_checker edit same (Some b) (Some a) = line_loop edit same (text_stream M_answer a) (text_stream M_output b)"
  by (simp add: stream_of_def line_checker_def registerTestlibCmd_def open_stream_def)

lemma fcmp2_plain:
  assumes "plain a" "plain b" "no_tab a" "no_tab b"
  shows "\<exists>code. fcmp2 (Some b) (Some a) = Some code \<and> (code = 0 \<longleftrightarrow> normalized a = normalized b)"
  unfolding fcmp2_def line_checker_texts by (rule fcmp2_loop_plain [OF assms])

text \<open>
  C33. With the checker program installed and without it the server reaches the same verdict on plain
  texts (no byte 0xFF, no carriage return, no tab): \<open>fcmp2\<close> ends, and it exits with 0 exactly when the
  lines agree up to trailing blanks and trailing empty lines, which is what the built-in comparison
  tests.
\<close>

theorem checker_agrees_with_builtin:
  assumes "plain (read_file expected fs)" "plain (read_file user fs)" "no_tab (read_file expected fs)" "no_tab (read_file user fs)"
    and "fs_exists fs checkerPath = Inr True"
    and "\<And>code. fcmp2 (Some (read_file user fs)) (Some (read_file expected fs)) = Some code \<Longrightarrow>
      env_system renv (checkerCmd input expected user) fs = Some (code * 256, fs)"
  shows "compare_case_output renv input expected user fs =
    Some (Inr (if normalize_output_lines expected fs = normalize_output_lines user fs then AC else WA, fs))"
proof -
  obtain code where "fcmp2 (Some (read_file user fs)) (Some (read_file expected fs)) = Some code"
    and "code = 0 \<longleftrightarrow> normalized (read_file expected fs) = normalized (read_file user fs)"
    using fcmp2_plain [OF assms(1-4)] by blast
  with assms(5,6) show ?thesis by (simp add: compare_case_output_def normalize_reads)
qed

definition checked_fs :: FileSystem where
  "checked_fs =
     \<lparr>fs_nodes = [(checkerPath, RegularFile [] 493), (''/e'', RegularFile (''1 2'' @ [CHR 0x0A]) 420),
                  (''/u'', RegularFile (''1 2  '' @ [CHR 0x0A, CHR 0x0A]) 420)],
      fs_denied = (\<lambda>_. False), fs_status_error = (\<lambda>_. None)\<rparr>"

theorem checker_agrees_with_builtin_witness:
  "compare_case_output \<lparr>env_tmp = [], env_what = [], env_config = JNull, env_system = (\<lambda>_ fs. Some (0, fs)),
     env_popen = (\<lambda>_ fs. Some (None, fs)), env_os = (\<lambda>_ fs. (quiet_os 0 0, fs))\<rparr> ''/i'' ''/e'' ''/u'' checked_fs
   = Some (Inr (AC, checked_fs))"
proof -
  have files: "read_file ''/e'' checked_fs = ''1 2'' @ [CHR 0x0A]" "read_file ''/u'' checked_fs = ''1 2  '' @ [CHR 0x0A, CHR 0x0A]"
    by code_simp+
  have run: "fcmp2 (Some (''1 2  '' @ [CHR 0x0A, CHR 0x0A])) (Some (''1 2'' @ [CHR 0x0A])) = Some 0" by code_simp
  have same: "normalize_output_lines ''/e'' checked_fs = normalize_output_lines ''/u'' checked_fs" by code_simp
  have "fs_exists checked_fs checkerPath = Inr True" by code_simp
  from checker_agrees_with_builtin [OF _ _ _ _ this, of "''/e''" "''/u''" "\<lparr>env_tmp = [], env_what = [], env_config = JNull,
      env_system = (\<lambda>_ fs. Some (0, fs)), env_popen = (\<lambda>_ fs. Some (None, fs)), env_os = (\<lambda>_ fs. (quiet_os 0 0, fs))\<rparr>" "''/i''"] run same
  show ?thesis by (simp add: files plain_def no_tab_def)
qed

section \<open>Bare carriage returns\<close>

lemma line_loop_stuck:
  assumes "\<not> stream_eof ans" "readString ans = Inr (j, ans)" "readString ouf = Inr (p, ouf)" "same (edit j) (edit p)"
  shows "line_loop edit same ans ouf = None"
proof (rule ccontr)
  assume "line_loop edit same ans ouf \<noteq> None"
  then obtain code where code: "line_loop edit same ans ouf = Some code" by blast
  have "\<not> (edit' = edit \<and> same' = same \<and> ans' = ans \<and> ouf' = ouf)" if "line_loop edit' same' ans' ouf' = Some c" for edit' same' ans' ouf' c
    using that
  proof (rule line_loop.raw_induct [where P = "\<lambda>e s a o' c. \<not> (e = edit \<and> s = same \<and> a = ans \<and> o' = ouf)", rotated])
    fix loop edit' same' ans' ouf' c
    assume IH: "\<And>e s a o' c. loop e s a o' = Some c \<Longrightarrow> \<not> (e = edit \<and> s = same \<and> a = ans \<and> o' = ouf)"
      and step: "(if stream_eof ans' then Some (quitf ouf' R_ok)
        else case readString ans' of Inl code \<Rightarrow> Some code
          | Inr (j, ans'') \<Rightarrow>
              if edit' j = [] \<and> stream_eof ans'' then Some (quitf ouf' R_ok)
              else case readString ouf' of Inl code \<Rightarrow> Some code
                | Inr (p, ouf'') \<Rightarrow> if \<not> same' (edit' j) (edit' p) then Some (quitf ouf'' R_wa) else loop edit' same' ans'' ouf'') = Some c"
    show "\<not> (edit' = edit \<and> same' = same \<and> ans' = ans \<and> ouf' = ouf)"
      using step assms IH [of edit same ans ouf c] by auto
  qed
  with code show False by blast
qed

lemma readString_bare_CR:
  assumes "plain p" "CHR 0x0A \<notin> set p" "c \<noteq> CHR 0x0A" "c \<noteq> CHR 0xFF" "length r < n"
  shows "readString (stream_of n m (p @ CHR 0x0D # c # r)) = Inr (p, stream_of n m (CHR 0x0D # c # r))"
proof -
  have "\<forall>x \<in> set p. line_char x" using assms(1,2) line_char_plain by metis
  moreover have "\<not> line_char (CHR 0x0D)" by (simp add: line_char_def)
  moreover have "cells_eoln n (map Byte (CHR 0x0D # c # r)) = Inr (False, n, map Byte (CHR 0x0D # c # r))"
    using assms(3-5) schar_codes [of c] by (simp add: cells_eoln_def reader_unreadChar_def MAX_UNREAD_COUNT_def schar_CR)
  ultimately show ?thesis
    using readString_text [of n "p @ CHR 0x0D # c # r" False "CHR 0x0D # c # r"] by (simp add: takeWhile_append dropWhile_append)
qed

lemma not_eof_before_CR: "plain p \<Longrightarrow> \<not> stream_eof (stream_of n m (p @ CHR 0x0D # t))"
  by (cases p) (auto simp: stream_eof_text plain_def)

lemma line_loop_hangs:
  assumes "plain p" "c \<noteq> CHR 0x0A" "c \<noteq> CHR 0xFF" "d \<noteq> CHR 0x0A" "d \<noteq> CHR 0xFF" "length r < n" "length r' < k"
  shows "line_loop edit (=) (stream_of n M_answer (p @ CHR 0x0D # c # r)) (stream_of k M_output (p @ CHR 0x0D # d # r')) = None"
  using assms(1)
proof (induction "length p" arbitrary: p rule: less_induct)
  case less
  have start: "\<not> stream_eof (stream_of n M_answer (CHR 0x0D # c # r))" using not_eof_before_CR [of "[]"] by (simp add: plain_def)
  have "readString (stream_of j m (CHR 0x0D # x # s)) = Inr ([], stream_of j m (CHR 0x0D # x # s))"
    if "x \<noteq> CHR 0x0A" "x \<noteq> CHR 0xFF" "length s < j" for j m x s
    using readString_bare_CR [of "[]" x s j m] that by (simp add: plain_def)
  with assms start have stuck: "line_loop edit (=) (stream_of n M_answer (CHR 0x0D # c # r)) (stream_of k M_output (CHR 0x0D # d # r')) = None"
    by (intro line_loop_stuck) auto
  show ?case
  proof (cases "CHR 0x0A \<in> set p")
    case True
    then have "p \<noteq> []" by auto
    then have "line_loop edit (=) (stream_of n M_answer (other_lines p @ CHR 0x0D # c # r)) (stream_of k M_output (other_lines p @ CHR 0x0D # d # r')) = None"
      using less.prems plain_parts(2) by (intro less.hyps other_lines_shorter) auto
    then show ?thesis
      by (subst line_loop.simps) (simp only: readString_prefix [OF less.prems True] not_eof_before_CR [OF less.prems]
          not_eof_before_CR [OF plain_parts(2) [OF less.prems]] sum.case prod.case if_False if_True simp_thms)
  next
    case False
    then show ?thesis
      by (subst line_loop.simps) (simp only: readString_bare_CR [OF less.prems False assms(2,3,6)] readString_bare_CR [OF less.prems False assms(4,5,7)]
          not_eof_before_CR [OF less.prems] start stuck sum.case prod.case if_False if_True simp_thms)
  qed
qed

text \<open>
  A carriage return that another byte than a newline or 0xFF follows stops the line checker for ever:
  when the expected and the produced text agree up to such a carriage return, \<open>eoln\<close> pushes it back,
  every later \<open>readString\<close> is empty and the loop of \<open>fcmp2\<close> never ends (and \<open>system\<close>, which waits for it,
  keeps the judge worker). The built-in comparison ends on the same texts.
\<close>

theorem fcmp2_hangs_on_bare_CR:
  assumes "plain p" "c \<noteq> CHR 0x0A" "c \<noteq> CHR 0xFF" "d \<noteq> CHR 0x0A" "d \<noteq> CHR 0xFF"
  shows "fcmp2 (Some (p @ CHR 0x0D # d # r')) (Some (p @ CHR 0x0D # c # r)) = None"
  using line_loop_hangs [OF assms, of r "Suc (Suc (length p + length r))" r' "Suc (Suc (length p + length r'))"]
  by (simp add: fcmp2_def line_checker_texts)

theorem fcmp2_hangs_on_bare_CR_witness:
  "fcmp2 (Some (''ok'' @ CHR 0x0D # CHR 0x0D # [CHR 0x0A])) (Some (''ok'' @ CHR 0x0D # CHR 0x0D # [CHR 0x0A])) = None"
  by (rule fcmp2_hangs_on_bare_CR) (simp_all add: plain_def)

text \<open>
  The judge then hangs with its checker: where \<open>system\<close> runs \<open>fcmp2\<close> and waits for it, the comparison of
  such an output with such an answer does not return.
\<close>

theorem comparison_hangs_on_bare_CR:
  assumes "plain p" "c \<noteq> CHR 0x0A" "c \<noteq> CHR 0xFF" "d \<noteq> CHR 0x0A" "d \<noteq> CHR 0xFF"
    and "read_file expected fs = p @ CHR 0x0D # c # r" and "read_file user fs = p @ CHR 0x0D # d # r'"
    and "fs_exists fs checkerPath = Inr True"
    and "env_system renv (checkerCmd input expected user) fs =
      map_option (\<lambda>code. (code * 256, fs)) (fcmp2 (Some (read_file user fs)) (Some (read_file expected fs)))"
  shows "compare_case_output renv input expected user fs = None"
  using line_loop_hangs [OF assms(1-5), of r "Suc (Suc (length p + length r))" r' "Suc (Suc (length p + length r'))"] assms(6-9)
  by (simp add: compare_case_output_def fcmp2_def line_checker_texts)

text \<open>
  A carriage return at the end of the file, or before the byte 0xFF, does not keep the loop for ever:
  the pushed-back end of file is not read again, each round takes one more place in front of the
  buffer, and the reader ends the program when there is none left. The output equals the answer here,
  and the exit code 3 makes the judge report a wrong answer.
\<close>

theorem fcmp2_fails_on_final_CR:
  "fcmp2 (Some (''ok'' @ [CHR 0x0D])) (Some (''ok'' @ [CHR 0x0D])) = Some 3"
  "fcmp2 (Some (''ok'' @ [CHR 0x0D, CHR 0xFF])) (Some (''ok'' @ [CHR 0x0D, CHR 0xFF])) = Some 3"
  by code_simp+

section \<open>The byte 0xFF\<close>

lemma other_lines_last: "other_lines t \<noteq> [] \<Longrightarrow> last (other_lines t) = last t"
  by (induction t) (auto split: if_splits)

lemma line_loop_accepts_tail:
  assumes "plain a" "a = [] \<or> last a = CHR 0x0A" "\<And>x. edit x = [] \<Longrightarrow> \<forall>c \<in> set x. isBlanks (schar c)"
  shows "line_loop edit (=) (stream_of n M_answer a) (stream_of k M_output (a @ CHR 0xFF # g)) = Some 0"
  using assms(1,2)
proof (induction "length a" arbitrary: a rule: less_induct)
  case less
  have quit: "quitf (stream_of k M_output (t @ CHR 0xFF # g)) R_ok = 0" if "\<forall>c \<in> set t. isBlanks (schar c)" for t
  proof -
    have "\<not> isBlanks (schar (CHR 0xFF))" by (simp add: isBlanks_schar blank_right_def)
    with that show ?thesis by (simp add: quitf_text Let_def)
  qed
  show ?case
  proof (cases "a = []")
    case True
    then show ?thesis using quit [of "[]"] by (subst line_loop.simps) (simp add: stream_eof_text)
  next
    case False
    with less.prems have nl: "CHR 0x0A \<in> set a" by (metis last_in_set)
    let ?o = "other_lines a"
    have oa: "?o = [] \<or> last ?o = CHR 0x0A"
      using less.prems(2) False by (cases "?o = []") (simp_all add: other_lines_last)
    have eof: "\<not> stream_eof (stream_of n M_answer a)"
      using less.prems(1) False by (cases a) (auto simp: stream_eof_text plain_def)
    have rest: "line_loop edit (=) (stream_of n M_answer ?o) (stream_of k M_output (?o @ CHR 0xFF # g)) = Some 0"
      using less.prems oa False plain_parts(2) by (intro less.hyps other_lines_shorter) auto
    have blank: "\<forall>c \<in> set a. isBlanks (schar c)" if "edit (first_line a) = []" "stream_eof (stream_of n M_answer ?o)"
    proof -
      have "?o = []" using that(2) plain_parts(2) [OF less.prems(1)] by (cases ?o) (auto simp: stream_eof_text plain_def)
      then show ?thesis using split_lines [of a] assms(3) [OF that(1)] by (auto simp: isBlanks_schar)
    qed
    show ?thesis
      by (subst line_loop.simps)
        (auto simp: eof readString_plain [OF less.prems(1)] readString_prefix [OF less.prems(1) nl] rest intro!: quit [OF blank])
  qed
qed

text \<open>
  testlib reads the byte 0xFF as the end of the file. A program that prints the expected output
  and then 0xFF may print anything after it and is still accepted by \<open>fcmp2\<close>.
\<close>

theorem fcmp2_ignores_after_0xFF:
  assumes "plain a" "a = [] \<or> last a = CHR 0x0A"
  shows "fcmp2 (Some (a @ CHR 0xFF # g)) (Some a) = Some 0"
proof -
  have "\<forall>c \<in> set x. isBlanks (schar c)" if "del_line_back_space x = []" for x
    using that by (auto simp: del_line_reference dropWhile_eq_Nil_conv isBlanks_schar back_space_def blank_right_def)
  with line_loop_accepts_tail [OF assms] show ?thesis by (simp add: fcmp2_def line_checker_texts)
qed

theorem fcmp2_ignores_after_0xFF_witness:
  "fcmp2 (Some ((''42'' @ [CHR 0x0A]) @ CHR 0xFF # ''wrong'')) (Some (''42'' @ [CHR 0x0A])) = Some 0"
  by (rule fcmp2_ignores_after_0xFF) (simp_all add: plain_def)

end
