(* ===== verification/WordCheckers.thy ===== *)
theory WordCheckers
  imports LineCheckers
begin

text \<open>
  What the word and integer checkers decide. A stream that shows a text is read token by token, and
  every checker is a function of the two token lists: \<open>wcmp\<close> compares them, and the integer checkers,
  whose numbers are read in canonical form only, compare them as well, \<open>uncmp\<close> as multisets.
\<close>

section \<open>Tokens of a text\<close>

definition separator :: "char \<Rightarrow> bool" where
  "separator c \<longleftrightarrow> isBlanks (schar c)"

definition tokens :: "string \<Rightarrow> string list" where
  "tokens t = words_by separator t"

definition no_FF :: "string \<Rightarrow> bool" where
  "no_FF t \<longleftrightarrow> CHR 0xFF \<notin> set t"

lemma tokens_unfold:
  "tokens t = (let u = dropWhile separator t in
     if u = [] then [] else takeWhile (\<lambda>c. \<not> separator c) u # tokens (dropWhile (\<lambda>c. \<not> separator c) u))"
  unfolding tokens_def by (subst words_by.simps) (simp add: Let_def)

lemma tokens_Nil [simp]: "tokens [] = []"
  by (subst tokens_unfold) simp

lemma tokens_drop_separators [simp]: "tokens (dropWhile separator t) = tokens t"
  by (subst (1 2) tokens_unfold) (simp add: Let_def)

lemma tokens_empty_iff: "tokens t = [] \<longleftrightarrow> dropWhile separator t = []"
  by (subst tokens_unfold) (simp add: Let_def)

lemma no_FF_drop: "no_FF t \<Longrightarrow> no_FF (dropWhile P t)"
  by (meson no_FF_def set_dropWhileD)

lemma no_FF_hd: "no_FF t \<Longrightarrow> t = [] \<or> hd t = CHR 0xFF \<longleftrightarrow> t = []"
  by (cases t) (auto simp: no_FF_def)

lemma separator_not_FF: "\<not> separator (CHR 0xFF)"
  by (simp add: separator_def isBlanks_schar blank_right_def)

section \<open>Streams that show a text\<close>

text \<open>The text ahead of the reader; once a read has met the end, the pushed-back mark stands for it.\<close>

definition shows_text :: "TMode \<Rightarrow> string \<Rightarrow> InStream \<Rightarrow> bool" where
  "shows_text m t s \<longleftrightarrow>
     is_mode s = m \<and> is_open s \<and>
     (is_cells s = map Byte t \<and> length t \<le> is_size s \<or> t = [] \<and> (\<exists>r. is_cells s = EofMark # r))"

lemma shows_text_stream [simp]: "length t \<le> n \<Longrightarrow> shows_text m t (stream_of n m t)"
  by (simp add: shows_text_def stream_of_def)

lemma shows_text_whole: "shows_text m t (text_stream m t)"
  by simp

lemma shows_text_cases:
  assumes "shows_text m t s"
  obtains n where "s = stream_of n m t" "length t \<le> n"
    | r n where "t = []" "s = \<lparr>is_mode = m, is_open = True, is_cells = EofMark # r, is_size = n\<rparr>"
  using assms by (cases s) (auto simp: shows_text_def stream_of_def)

lemma shows_text_mode: "shows_text m t s \<Longrightarrow> is_mode s = m"
  by (simp add: shows_text_def)

lemma seekEof_shows:
  assumes "shows_text m t s" "no_FF t"
  obtains s' where "seekEof s = (tokens t = [], s')" "shows_text m (dropWhile separator t) s'"
  using assms(1)
proof (cases rule: shows_text_cases)
  case (1 n)
  then have "seekEof s = (tokens t = [], stream_of n m (dropWhile separator t))"
    using no_FF_hd [OF no_FF_drop [OF assms(2)]] by (simp add: seekEof_text tokens_empty_iff separator_def [abs_def] Let_def)
  then show ?thesis using that 1(2) length_dropWhile_le [of separator t] by simp
next
  case (2 r n)
  then have "seekEof s = (tokens t = [], s)" by (simp add: seekEof_def Let_def stream_eof_def reader_eof_def)
  then show ?thesis using that assms(1) 2(1) by simp
qed

lemma quitf_shows:
  assumes "shows_text M_output t s" "no_FF t"
  shows "quitf s R_ok = (if tokens t = [] then 0 else 2)" "quitf s R_wa = 1" "quitf s R_pe = 2" "quitf s R_fail = 3"
proof -
  from seekEof_shows [OF assms] obtain s' where "seekEof s = (tokens t = [], s')" by metis
  with shows_text_mode [OF assms(1)]
  show "quitf s R_ok = (if tokens t = [] then 0 else 2)" "quitf s R_wa = 1" "quitf s R_pe = 2" "quitf s R_fail = 3"
    by (simp_all add: quitf_def stream_quit_def)
qed

lemma read_word_loop_text:
  assumes "no_FF (c # t)"
  shows "read_word_loop (schar c) (map Byte t) =
    (let w = takeWhile (\<lambda>c. \<not> separator c) (c # t); u = dropWhile (\<lambda>c. \<not> separator c) (c # t) in
     (w, if u = [] then EOF else schar (hd u), map Byte (tl u)))"
  using assms
proof (induction t arbitrary: c)
  case Nil
  then show ?case
    by (subst read_word_loop.simps, subst read_word_loop.simps) (auto simp: separator_def no_FF_def schar_codes Let_def)
next
  case (Cons d t)
  from Cons.prems have "no_FF (d # t)" "schar c \<noteq> EOF" by (auto simp: no_FF_def schar_codes)
  with Cons.IH [of d] show ?case
    by (subst read_word_loop.simps) (auto simp: separator_def Let_def split: prod.split)
qed

lemma readWord_word:
  assumes "skip_blank_cells cells = Byte c # r" "\<not> isBlanks (schar c)" "schar c \<noteq> EOF"
    and "read_word_loop (schar c) r = (w, e, r')" "w \<noteq> []" and "reader_unreadChar n e r' = Inr r''"
  shows "readWord \<lparr>is_mode = m, is_open = True, is_cells = cells, is_size = n\<rparr> =
    Inr (w, \<lparr>is_mode = m, is_open = True, is_cells = r'', is_size = n\<rparr>)"
  using assms by (simp add: readWord_def)

lemma shows_text_unread:
  assumes "no_FF r" "length r \<le> n"
  obtains r'' where "reader_unreadChar n (if r = [] then EOF else schar (hd r)) (map Byte (tl r)) = Inr r''"
    "shows_text m r \<lparr>is_mode = m, is_open = True, is_cells = r'', is_size = n\<rparr>"
  using assms by (cases r) (auto simp: shows_text_def reader_unreadChar_def MAX_UNREAD_COUNT_def no_FF_def schar_codes)

text \<open>Reading a word takes the first token and leaves the others.\<close>

lemma readWord_shows:
  assumes "shows_text m t s" "no_FF t" "tokens t \<noteq> []"
  obtains s' t' where "readWord s = Inr (hd (tokens t), s')" "shows_text m t' s'" "tokens t' = tl (tokens t)"
    "no_FF t'" "length t' < length t"
proof -
  let ?u = "dropWhile separator t"
  from assms(3) obtain c v where u: "?u = c # v" by (cases ?u) (auto simp: tokens_empty_iff)
  then have c: "\<not> separator c" using hd_dropWhile [of separator t] by auto
  have ff: "no_FF (c # v)" using no_FF_drop [OF assms(2), of separator] u by simp
  have len: "length (c # v) \<le> length t" using length_dropWhile_le [of separator t] u by simp
  from assms(1,3) obtain n where s: "s = stream_of n m t" and n: "length t \<le> n" by (auto elim!: shows_text_cases)
  let ?w = "takeWhile (\<lambda>c. \<not> separator c) (c # v)" and ?r = "dropWhile (\<lambda>c. \<not> separator c) (c # v)"
  have "length ?r \<le> n" using length_dropWhile_le [of "\<lambda>c. \<not> separator c" "c # v"] len n by simp
  then obtain r'' where unread: "reader_unreadChar n (if ?r = [] then EOF else schar (hd ?r)) (map Byte (tl ?r)) = Inr r''"
    and shows': "shows_text m ?r \<lparr>is_mode = m, is_open = True, is_cells = r'', is_size = n\<rparr>"
    using shows_text_unread [OF no_FF_drop [OF ff]] by metis
  let ?s' = "\<lparr>is_mode = m, is_open = True, is_cells = r'', is_size = n\<rparr>"
  have skip: "skip_blank_cells (map Byte t) = map Byte (c # v)"
    using u by (simp add: skip_blank_text separator_def [abs_def])
  have read: "readWord s = Inr (?w, ?s')"
    unfolding s stream_of_def
  proof (rule readWord_word)
    show "reader_unreadChar n (if ?r = [] then EOF else schar (hd ?r)) (map Byte (tl ?r)) = Inr r''" by (rule unread)
    show "skip_blank_cells (map Byte t) = Byte c # map Byte v" using skip by simp
    show "read_word_loop (schar c) (map Byte v) = (?w, if ?r = [] then EOF else schar (hd ?r), map Byte (tl ?r))"
      using read_word_loop_text [OF ff] unfolding Let_def .
  qed (use c ff in \<open>auto simp: separator_def no_FF_def schar_codes\<close>)
  have toks: "tokens t = ?w # tokens ?r" by (subst tokens_unfold) (simp only: u Let_def list.distinct if_False)
  show ?thesis
  proof (rule that)
    show "readWord s = Inr (hd (tokens t), ?s')" unfolding read toks by simp
    show "shows_text m ?r ?s'" by (rule shows')
    show "tokens ?r = tl (tokens t)" unfolding toks by simp
    show "no_FF ?r" by (rule no_FF_drop [OF ff])
    show "length ?r < length t" using c length_dropWhile_le [of "\<lambda>c. \<not> separator c" v] len by simp
  qed
qed

text \<open>The readers of numbers look for the end of the file first.\<close>

lemma token_read:
  assumes "shows_text m t s" "no_FF t" "tokens t \<noteq> []"
  obtains s1 s' t' where "seekEof s = (False, s1)" "is_mode s1 = m" "readWord s1 = Inr (hd (tokens t), s')"
    "shows_text m t' s'" "tokens t' = tl (tokens t)" "no_FF t'" "length t' < length t"
proof -
  obtain s1 where s1: "seekEof s = (False, s1)" "shows_text m (dropWhile separator t) s1"
    using seekEof_shows [OF assms(1,2)] assms(3) by metis
  obtain s2 t2 where s2: "readWord s1 = Inr (hd (tokens t), s2)" "shows_text m t2 s2" "tokens t2 = tl (tokens t)"
      "no_FF t2" "length t2 < length (dropWhile separator t)"
    using readWord_shows [OF s1(2) no_FF_drop [OF assms(2)]] assms(3) unfolding tokens_drop_separators by metis
  have "length t2 < length t" using s2(5) length_dropWhile_le [of separator t] by simp
  then show ?thesis using that s1 s2 shows_text_mode [OF s1(2)] by blast
qed

section \<open>\<open>wcmp\<close>\<close>

lemma wcmp_loop_decides:
  assumes "shows_text M_answer a ans" "shows_text M_output b ouf" "no_FF a" "no_FF b"
  shows "wcmp_loop ans ouf = Some (if tokens a = tokens b then 0 else 1)"
  using assms
proof (induction "length a" arbitrary: a b ans ouf rule: less_induct)
  case less
  obtain ans1 where a1: "seekEof ans = (tokens a = [], ans1)" "shows_text M_answer (dropWhile separator a) ans1"
    using seekEof_shows less.prems(1,3) by metis
  obtain ouf1 where b1: "seekEof ouf = (tokens b = [], ouf1)" "shows_text M_output (dropWhile separator b) ouf1"
    using seekEof_shows less.prems(2,4) by metis
  note quit = quitf_shows [OF b1(2) no_FF_drop [OF less.prems(4)], simplified]
  show ?case
  proof (cases "tokens a = [] \<or> tokens b = []")
    case True
    then show ?thesis using a1(1) b1(1) quit by (subst wcmp_loop.simps) auto
  next
    case False
    then have ne: "tokens (dropWhile separator a) \<noteq> []" "tokens (dropWhile separator b) \<noteq> []" by simp_all
    obtain ans2 a2 where a2: "readWord ans1 = Inr (hd (tokens a), ans2)" "shows_text M_answer a2 ans2"
      "tokens a2 = tl (tokens a)" "no_FF a2" "length a2 < length (dropWhile separator a)"
      using readWord_shows [OF a1(2) no_FF_drop [OF less.prems(3)] ne(1)] by (metis tokens_drop_separators)
    obtain ouf2 b2 where b2: "readWord ouf1 = Inr (hd (tokens b), ouf2)" "shows_text M_output b2 ouf2"
      "tokens b2 = tl (tokens b)" "no_FF b2"
      using readWord_shows [OF b1(2) no_FF_drop [OF less.prems(4)] ne(2)] by (metis tokens_drop_separators)
    have "length a2 < length a" using a2(5) length_dropWhile_le [of separator a] by simp
    from less.hyps [OF this a2(2) b2(2) a2(4) b2(4)] a2 b2 False a1(1) b1(1) quitf_shows(2) [OF b2(2,4)] show ?thesis
      by (subst wcmp_loop.simps) (auto simp: neq_Nil_conv)
  qed
qed

lemma register_texts: "registerTestlibCmd (Some b) (Some a) = Inr (text_stream M_output b, text_stream M_answer a)"
  by (simp add: registerTestlibCmd_def open_stream_def stream_of_def)

text \<open>
  \<open>wcmp\<close> ends on every pair of texts without the byte 0xFF, and it accepts (0) when both have the
  same tokens, and answers wrong answer (1) otherwise, never another code.
\<close>

theorem wcmp_decides:
  assumes "no_FF a" "no_FF b"
  shows "wcmp (Some b) (Some a) = Some (if tokens a = tokens b then 0 else 1)"
  using wcmp_loop_decides [OF shows_text_whole shows_text_whole assms] by (simp add: wcmp_def register_texts)

theorem wcmp_decides_witness:
  "wcmp (Some ''1  2 x '') (Some ''1 2 y'') = Some 1 \<and> wcmp (Some (''a '' @ [CHR 0x0A] @ ''b'')) (Some ''a b'') = Some 0"
  using wcmp_decides [of "''1 2 y''" "''1  2 x ''"] wcmp_decides [of "''a b''" "''a '' @ [CHR 0x0A] @ ''b''"]
  by (simp add: no_FF_def, code_simp)

end
