(* ===== verification/IntegerTokens.thy ===== *)
theory IntegerTokens
  imports WordCheckers
begin

text \<open>
  The integers testlib reads. \<open>stringToLongLong\<close> takes exactly the decimal texts that \<open>std::to_string\<close>
  prints for 64-bit integers, although its arithmetic may wrap on the way.
\<close>

section \<open>Leading zeroes\<close>

text \<open>The leading zeroes the reader counts, and the texts its test lets through.\<close>

abbreviation leading_zeroes :: "string \<Rightarrow> nat" where
  "leading_zeroes ds \<equiv> length (takeWhile (\<lambda>c. c = CHR ''0'') ds)"

lemma zeroes_canonical:
  assumes "\<forall>d \<in> set ds. is_digit d" "ds \<noteq> []"
  defines "n \<equiv> digits_value ds"
  shows "\<not> (leading_zeroes ds > 0 \<and> (n \<noteq> 0 \<or> neg) \<or> leading_zeroes ds > 1) \<longleftrightarrow>
    ds = nat_to_string n \<and> \<not> (neg \<and> n = 0)"
proof (cases "n = 0")
  case True
  then have "takeWhile (\<lambda>c. c = CHR ''0'') ds = ds"
    using digits_value_zero_iff [OF assms(1)] unfolding n_def takeWhile_eq_all_conv by blast
  then have z: "leading_zeroes ds = length ds" by (simp only:)
  have "ds = ''0'' \<longleftrightarrow> length ds = 1"
    using True digits_value_zero_iff [OF assms(1)] unfolding n_def by (cases ds) auto
  moreover have "\<not> 1 < length ds \<longleftrightarrow> length ds = 1" "0 < length ds" using assms(2) by (cases ds; auto)+
  ultimately show ?thesis using True unfolding z by (auto simp: nat_to_string_zero)
next
  case False
  moreover have "leading_zeroes ds > 0 \<longleftrightarrow> hd ds = CHR ''0''" using assms(2) by (cases ds) auto
  moreover have "ds = nat_to_string n \<longleftrightarrow> hd ds \<noteq> CHR ''0''"
    using nat_to_string_value [OF assms(1,2)] nat_to_string_hd [OF False] unfolding n_def by metis
  ultimately show ?thesis by auto
qed

section \<open>The digit loop\<close>

lemma schar_digit: "is_digit c \<longleftrightarrow> \<not> (schar c < 48 \<or> schar c > 57)" "is_digit c \<Longrightarrow> schar c - 48 = int (digit_val c)"
proof -
  define k :: nat where "k = of_char c"
  have i: "(of_char c :: int) = int k" unfolding k_def by (rule of_nat_of_char [symmetric])
  have "k < 256" unfolding k_def by (metis of_char_mod_256 mod_less_divisor zero_less_numeral)
  then show "is_digit c \<longleftrightarrow> \<not> (schar c < 48 \<or> schar c > 57)" "is_digit c \<Longrightarrow> schar c - 48 = int (digit_val c)"
    unfolding is_digit_def schar_def digit_val_def i k_def [symmetric] by auto
qed

lemma schar_digit_char: "d < 10 \<Longrightarrow> schar (digit_char d) = 48 + int d"
  using digit_char_facts [of d] schar_digit(2) [of "digit_char d"] by simp

lemma wrap64_mod: "wrap64 x = (x + 2 ^ 63) mod 2 ^ 64 - 2 ^ 63"
  by (simp add: wrap64_def signed_take_bit_eq_take_bit_shift take_bit_eq_mod)

lemma wrap64_id: "- (2 ^ 63) \<le> x \<Longrightarrow> x < 2 ^ 63 \<Longrightarrow> wrap64 x = x"
  by (simp add: wrap64_mod)

lemma wrap64_range: "- (2 ^ 63) \<le> wrap64 x" "wrap64 x < 2 ^ 63"
  using pos_mod_bound [of "2 ^ 64" "x + 2 ^ 63"] by (simp_all add: wrap64_mod)

lemma wrap64_step: "wrap64 (wrap64 x * 10 + y) = wrap64 (x * 10 + y)"
proof -
  have "wrap64 x mod 2 ^ 64 = (x + 2 ^ 63 - 2 ^ 63) mod 2 ^ 64" unfolding wrap64_mod by (rule mod_diff_left_eq)
  then have "(wrap64 x * 10 + (y + 2 ^ 63)) mod 2 ^ 64 = (x * 10 + (y + 2 ^ 63)) mod 2 ^ 64"
    by (intro mod_add_cong mod_mult_cong) simp_all
  then show ?thesis unfolding wrap64_mod [of "wrap64 x * 10 + y"] wrap64_mod [of "x * 10 + y"] by (simp add: add.assoc)
qed

lemma digit_loop_spec:
  "digit_loop (wrap64 r) z p ds =
     (if \<forall>d \<in> set ds. is_digit d
      then Some (wrap64 (foldl (\<lambda>acc d. acc * 10 + int (digit_val d)) r ds), z + (if p then leading_zeroes ds else 0))
      else None)"
proof (induction ds arbitrary: r z p)
  case (Cons c ds)
  then show ?case
    using Cons.IH [of "r * 10 + int (digit_val c)"]
    by (cases "is_digit c") (auto simp: Let_def schar_digit wrap64_step schar_digit(1) [symmetric])
qed simp

lemma foldl_digits_value: "foldl (\<lambda>acc d. acc * 10 + int (digit_val d)) (int k) ds = int (foldl (\<lambda>acc d. acc * 10 + digit_val d) k ds)"
proof (induction ds arbitrary: k)
  case (Cons d ds)
  show ?case using Cons.IH [of "k * 10 + digit_val d"] by simp
qed simp

lemma digit_loop_value:
  "digit_loop 0 0 True ds =
     (if \<forall>d \<in> set ds. is_digit d then Some (wrap64 (int (digits_value ds)), leading_zeroes ds) else None)"
  using digit_loop_spec [of 0 0 True ds] foldl_digits_value [of 0 ds] by (simp add: wrap64_id digits_value_def)

section \<open>Equality with the printed number\<close>

lemma digits_equal_iff: "0 < i \<Longrightarrow> digits_equal i s \<longleftrightarrow> s = nat_to_string (nat i)"
proof (induction i s rule: digits_equal.induct)
  case (1 i s)
  let ?n = "nat i"
  have d: "nat (i mod 10) < 10" "i mod 10 = int (nat (i mod 10))" by simp_all
  have mod: "nat (i mod 10) = ?n mod 10" "nat (i div 10) = ?n div 10" using 1(2) by (simp_all add: nat_mod_distrib nat_div_distrib)
  have last: "schar (last s) = 48 + i mod 10 \<longleftrightarrow> last s = digit_char (?n mod 10)"
    using schar_digit_char [OF d(1)] d(2) mod(1) by (metis schar_inject)
  show ?case
  proof (cases "s = [] \<or> last s \<noteq> digit_char (?n mod 10)")
    case True
    then show ?thesis
      using 1(2) last by (subst digits_equal.simps, subst nat_to_string.simps) auto
  next
    case False
    then obtain b where s: "s = b @ [digit_char (?n mod 10)]" by (metis append_butlast_last_id)
    have "digits_equal (i div 10) b \<longleftrightarrow> (if ?n < 10 then b = [] else b = nat_to_string (?n div 10))"
    proof (cases "?n < 10")
      case True
      with 1(2) have "i div 10 = 0" by simp
      with True show ?thesis by (subst digits_equal.simps) simp
    next
      case large: False
      with 1(2) have "0 < i div 10" by simp
      with 1 large last mod(2) show ?thesis unfolding s by simp
    qed
    then show ?thesis
      using 1(2) last unfolding s by (subst digits_equal.simps, subst nat_to_string.simps) simp
  qed
qed

lemma int_to_string_inject [simp]: "int_to_string i = int_to_string j \<longleftrightarrow> i = j"
proof -
  have "hd (nat_to_string n) \<noteq> CHR ''-''" for n
    using nat_to_string_digits [of n] hd_in_set [of "nat_to_string n"] digit_not_space_sign by auto
  then have "nat_to_string n \<noteq> CHR ''-'' # ds" "CHR ''-'' # ds \<noteq> nat_to_string n" for n ds by (metis list.sel(1))+
  then show ?thesis by (auto simp: int_to_string_def)
qed

lemma equals_text_iff: "v \<noteq> LLONG_MIN \<Longrightarrow> equals_text v s \<longleftrightarrow> s = int_to_string v"
  using nat_to_string_nonempty [symmetric]
  by (cases s) (auto simp: equals_text_def Let_def digits_equal_iff int_to_string_def nat_to_string_zero)

lemma LLONG_MIN_string: "int_to_string LLONG_MIN = ''-9223372036854775808''"
proof -
  have "digits_value ''9223372036854775808'' = 9223372036854775808" by (simp add: digits_value_def digit_val_def)
  with nat_to_string_value [of "''9223372036854775808''"] have "nat_to_string 9223372036854775808 = ''9223372036854775808''"
    by (simp add: is_digit_def)
  then show ?thesis by (simp add: int_to_string_def LLONG_MIN_def)
qed

section \<open>Texts of 64-bit integers\<close>

definition int64 :: "int \<Rightarrow> bool" where
  "int64 v \<longleftrightarrow> LLONG_MIN \<le> v \<and> v < 9223372036854775808"

lemma length_nat_to_string: "n < 10 ^ Suc k \<Longrightarrow> length (nat_to_string n) \<le> Suc k"
proof (induction k arbitrary: n)
  case 0
  then show ?case by (subst nat_to_string.simps) simp
next
  case (Suc k)
  then have "n div 10 < 10 ^ Suc k" by simp
  with Suc.IH [of "n div 10"] show ?case by (subst nat_to_string.simps) simp
qed

text \<open>The sign and the digits that the reader splits off.\<close>

definition negative :: "string \<Rightarrow> bool" where
  "negative s \<longleftrightarrow> length s > 1 \<and> hd s = CHR ''-''"

definition magnitude :: "string \<Rightarrow> string" where
  "magnitude s = (if negative s then tl s else s)"

lemma int_to_string_split:
  assumes "s \<noteq> []"
  shows "s = int_to_string v \<longleftrightarrow> (negative s \<longleftrightarrow> v < 0) \<and> magnitude s = nat_to_string (nat \<bar>v\<bar>)"
proof -
  have digit: "\<not> negative (nat_to_string n)" for n
    using nat_to_string_digits [of n] hd_in_set [of "nat_to_string n"] digit_not_space_sign by (auto simp: negative_def)
  have neg: "negative (CHR ''-'' # nat_to_string n)" for n by (simp add: negative_def)
  show ?thesis
  proof (cases "negative s")
    case True
    then have "s = CHR ''-'' # magnitude s" by (cases s) (auto simp: magnitude_def negative_def)
    with True show ?thesis using digit by (auto simp: int_to_string_def)
  next
    case False
    then show ?thesis using neg by (auto simp: int_to_string_def magnitude_def)
  qed
qed

lemma magnitude_facts: "s \<noteq> [] \<Longrightarrow> magnitude s \<noteq> []" "length (magnitude s) \<le> length s" "length s \<le> Suc (length (magnitude s))"
  by (cases s; auto simp: magnitude_def negative_def)+

lemma int_to_string_length: "int64 v \<Longrightarrow> s = int_to_string v \<Longrightarrow> length s \<le> 20"
proof -
  assume v: "int64 v" and s: "s = int_to_string v"
  have "nat \<bar>v\<bar> < 10 ^ Suc 18" using v by (auto simp: int64_def LLONG_MIN_def nat_less_iff)
  then have "length (nat_to_string (nat \<bar>v\<bar>)) \<le> Suc 18" by (rule length_nat_to_string)
  then show ?thesis using s by (auto simp: int_to_string_def split: if_splits)
qed

lemma stringToLongLong_unfold:
  assumes "c_str w \<noteq> ''-9223372036854775808''"
  defines "s \<equiv> c_str w"
  defines "r \<equiv> wrap64 (int (digits_value (magnitude s)))" and "z \<equiv> leading_zeroes (magnitude s)"
  shows "stringToLongLong m w = Inr v \<longleftrightarrow>
    length s \<le> 20 \<and> (\<forall>d \<in> set (magnitude s). is_digit d) \<and> 0 \<le> r \<and> \<not> (z > 0 \<and> (r \<noteq> 0 \<or> negative s) \<or> z > 1) \<and>
    v = (if negative s then - r else r) \<and> (length s < 19 \<or> equals_text v s)"
  using assms(1) unfolding stringToLongLong_def Let_def negative_def [symmetric] magnitude_def [symmetric] digit_loop_value
  unfolding s_def [symmetric] r_def [symmetric] z_def [symmetric] by auto

lemma stringToLongLong_iff:
  assumes "c_str w \<noteq> []"
  shows "stringToLongLong m w = Inr v \<longleftrightarrow> int64 v \<and> c_str w = int_to_string v"
proof (cases "c_str w = ''-9223372036854775808''")
  case True
  moreover have "stringToLongLong m w = Inr LLONG_MIN" using True by (simp add: stringToLongLong_def)
  ultimately show ?thesis unfolding LLONG_MIN_string [symmetric] by (auto simp: int64_def LLONG_MIN_def)
next
  case False
  let ?s = "c_str w"
  let ?ds = "magnitude ?s"
  let ?n = "digits_value ?ds"
  note unfold = stringToLongLong_unfold [OF False, of m v] and split = int_to_string_split [OF assms, of v]
  note ds = magnitude_facts [of ?s] assms
  have zero: "\<not> (leading_zeroes ?ds > 0 \<and> (int ?n \<noteq> 0 \<or> negative ?s) \<or> leading_zeroes ?ds > 1) \<longleftrightarrow>
      ?ds = nat_to_string ?n \<and> \<not> (negative ?s \<and> ?n = 0)" if "\<forall>d \<in> set ?ds. is_digit d"
    using zeroes_canonical [OF that ds(1)] assms by simp
  show ?thesis
  proof
    assume L: "stringToLongLong m w = Inr v"
    then have digits: "\<forall>d \<in> set ?ds. is_digit d" by (simp add: unfold)
    show "int64 v \<and> ?s = int_to_string v"
    proof (cases "length ?s < 19")
      case True
      then have "int ?n < 10 ^ 18"
        using digits_value_bound [OF digits] ds(2) power_increasing [of "length ?ds" 18 "10 :: nat"] by simp
      then have "wrap64 (int ?n) = int ?n" by (simp add: wrap64_id)
      with L zero [OF digits] \<open>int ?n < 10 ^ 18\<close> show ?thesis
        unfolding unfold split by (auto simp: int64_def LLONG_MIN_def)
    next
      case long: False
      with L have eq: "equals_text v ?s" and range: "- 9223372036854775808 < v" "v < 9223372036854775808"
        using wrap64_range [of "int ?n"] unfolding unfold by auto
      then show ?thesis using equals_text_iff [of v ?s] by (simp add: int64_def LLONG_MIN_def)
    qed
  next
    assume R: "int64 v \<and> ?s = int_to_string v"
    then have v: "negative ?s \<longleftrightarrow> v < 0" "?ds = nat_to_string (nat \<bar>v\<bar>)" using split by simp_all
    have "v \<noteq> LLONG_MIN" using R False LLONG_MIN_string by auto
    with R have "wrap64 \<bar>v\<bar> = \<bar>v\<bar>" by (intro wrap64_id) (auto simp: int64_def LLONG_MIN_def)
    then have "wrap64 (int ?n) = \<bar>v\<bar>" using v(2) by simp
    moreover have "\<forall>d \<in> set ?ds. is_digit d" using v(2) nat_to_string_digits by simp
    ultimately show "stringToLongLong m w = Inr v"
      using R v zero int_to_string_length [of v ?s] equals_text_iff [OF \<open>v \<noteq> LLONG_MIN\<close>, of ?s] unfolding unfold by auto
  qed
qed

lemma stringToLongLong_error: "stringToLongLong m w = Inl e \<Longrightarrow> e = stream_quit m R_pe"
  by (auto simp: stringToLongLong_def Let_def split: if_splits option.splits)

lemma stringToLongLong_mode: "stringToLongLong m w = Inr v \<longleftrightarrow> stringToLongLong m' w = Inr v"
  by (auto simp: stringToLongLong_def Let_def split: if_splits option.splits)

lemma c_str_id: "CHR 0x00 \<notin> set w \<Longrightarrow> c_str w = w"
  by (auto simp: c_str_def takeWhile_eq_all_conv)

text \<open>
  C34. A text without NUL is read as a 64-bit integer exactly when it is the canonical decimal text of
  that integer: no leading zeroes, no \<open>-0\<close>, no plus sign, nothing beyond the range; the wrap-around in
  the digit loop is never visible. Every other text is a presentation error.
\<close>

theorem stringToLongLong_canonical:
  assumes "w \<noteq> []" "CHR 0x00 \<notin> set w"
  shows "(stringToLongLong m w = Inr v \<longleftrightarrow> int64 v \<and> w = int_to_string v) \<and>
    ((\<nexists>v. int64 v \<and> w = int_to_string v) = (stringToLongLong m w = Inl (stream_quit m R_pe)))"
proof -
  note iff = stringToLongLong_iff [of w m, unfolded c_str_id [OF assms(2)], OF assms(1)]
  have "stringToLongLong m w = Inl (stream_quit m R_pe)" if "\<nexists>v. int64 v \<and> w = int_to_string v"
    using that iff stringToLongLong_error [of m w] by (cases "stringToLongLong m w") auto
  with iff show ?thesis by (metis Inr_Inl_False)
qed

theorem stringToLongLong_canonical_witness:
  "stringToLongLong M_output ''-42'' = Inr (- 42) \<and> stringToLongLong M_output ''042'' = Inl 2"
proof -
  have "int_to_string (- 42) = ''-42''" by code_simp
  with stringToLongLong_canonical [of "''-42''" M_output "- 42"] have "stringToLongLong M_output ''-42'' = Inr (- 42)"
    by (simp add: int64_def LLONG_MIN_def)
  then show ?thesis by (auto, code_simp)
qed

end
