(* ===== verification/IntegerCheckers.thy ===== *)
theory IntegerCheckers
  imports IntegerTokens "HOL-Library.Multiset"
begin

text \<open>
  What the integer checkers decide. When the answer file holds canonical integers, \<open>ncmp\<close> accepts the
  outputs with the same tokens, \<open>uncmp\<close> the outputs with the same multiset of tokens, and \<open>icmp\<close> the
  outputs whose one token is the first token of the answer.
\<close>

section \<open>Integers in a stream\<close>

definition long_value :: "string \<Rightarrow> int option" where
  "long_value w = (case stringToLongLong M_output w of Inl e \<Rightarrow> None | Inr v \<Rightarrow> Some v)"

definition readable :: "string \<Rightarrow> bool" where
  "readable t \<longleftrightarrow> no_FF t \<and> CHR 0x00 \<notin> set t"

lemma stringToLongLong_value:
  "stringToLongLong m w = (case long_value w of None \<Rightarrow> Inl (stream_quit m R_pe) | Some v \<Rightarrow> Inr v)"
proof (cases "stringToLongLong M_output w")
  case (Inl e)
  then have "stringToLongLong m w \<noteq> Inr v" for v using stringToLongLong_mode [of M_output w v m] by simp
  with Inl stringToLongLong_error [of m w] show ?thesis
    by (cases "stringToLongLong m w") (auto simp: long_value_def)
next
  case (Inr v)
  then show ?thesis using stringToLongLong_mode [of M_output w v m] by (simp add: long_value_def)
qed

lemma words_by_chars: "w \<in> set (words_by sep t) \<Longrightarrow> w \<noteq> [] \<and> set w \<subseteq> set t"
proof (induction sep t rule: words_by.induct)
  case (1 sep t)
  let ?u = "dropWhile sep t"
  show ?case
  proof (cases "?u = []")
    case True
    with 1(2) show ?thesis by (subst (asm) words_by.simps) (simp add: Let_def)
  next
    case False
    then have "\<not> sep (hd ?u)" by (rule hd_dropWhile)
    with False have ne: "takeWhile (\<lambda>c. \<not> sep c) ?u \<noteq> []" by (cases ?u) auto
    have sub: "set (takeWhile P (dropWhile sep t)) \<subseteq> set t" "set (dropWhile P (dropWhile sep t)) \<subseteq> set t" for P
      by (auto dest!: set_takeWhileD set_dropWhileD)
    from 1(2) False have "w = takeWhile (\<lambda>c. \<not> sep c) ?u \<or> w \<in> set (words_by sep (dropWhile (\<lambda>c. \<not> sep c) ?u))"
      by (subst (asm) words_by.simps) (simp only: Let_def if_False list.set insert_iff)
    then show ?thesis using ne sub 1(1) [OF refl False] subset_trans [OF _ sub(2)] by metis
  qed
qed

lemma token_chars: "w \<in> set (tokens t) \<Longrightarrow> w \<noteq> [] \<and> set w \<subseteq> set t"
  unfolding tokens_def by (rule words_by_chars)

lemma long_value_token:
  assumes "readable t" "w \<in> set (tokens t)"
  shows "long_value w = Some v \<longleftrightarrow> int64 v \<and> w = int_to_string v"
proof -
  have "w \<noteq> []" "CHR 0x00 \<notin> set w" using token_chars [OF assms(2)] assms(1) by (auto simp: readable_def)
  then show ?thesis using stringToLongLong_iff [of w M_output v] by (auto simp: c_str_id long_value_def split: sum.splits)
qed

lemma long_value_inject:
  assumes "readable a" "readable b" "w \<in> set (tokens a)" "x \<in> set (tokens b)" "long_value w = Some v"
  shows "long_value x = Some v \<longleftrightarrow> x = w"
  using long_value_token [OF assms(1,3), of v] long_value_token [OF assms(2,4), of v] assms(5) by auto

text \<open>A text all of whose tokens are integers.\<close>

definition long_text :: "string \<Rightarrow> bool" where
  "long_text t \<longleftrightarrow> (\<forall>w \<in> set (tokens t). long_value w \<noteq> None)"

definition longs :: "string \<Rightarrow> int list" where
  "longs t = map (\<lambda>w. the (long_value w)) (tokens t)"

lemma readLong_shows:
  assumes "shows_text m t s" "no_FF t" "tokens t \<noteq> []"
  obtains s' t' where "readLong s = (case long_value (hd (tokens t)) of None \<Rightarrow> Inl (stream_quit m R_pe) | Some v \<Rightarrow> Inr (v, s'))"
    "shows_text m t' s'" "tokens t' = tl (tokens t)" "no_FF t'" "length t' < length t"
proof -
  obtain s1 s2 t2 where s: "seekEof s = (False, s1)" "is_mode s1 = m" "readWord s1 = Inr (hd (tokens t), s2)"
      and t: "shows_text m t2 s2" "tokens t2 = tl (tokens t)" "no_FF t2" "length t2 < length t"
    using token_read [OF assms] by metis
  then show ?thesis
    using that [OF _ t] by (simp add: readLong_def stringToLongLong_value split: option.split)
qed

lemma read_longs_shows:
  assumes "shows_text m t s" "no_FF t"
  shows "if long_text t then \<exists>s' t'. read_longs s acc = Some (Inr (acc @ longs t, s')) \<and> shows_text m t' s' \<and> no_FF t' \<and> tokens t' = []
    else read_longs s acc = Some (Inl (stream_quit m R_pe))"
  using assms
proof (induction "length t" arbitrary: t s acc rule: less_induct)
  case less
  obtain s1 where s1: "seekEof s = (tokens t = [], s1)" "shows_text m (dropWhile separator t) s1"
    using seekEof_shows [OF less.prems] by metis
  let ?u = "dropWhile separator t"
  have u: "no_FF ?u" "tokens ?u = tokens t" "length ?u \<le> length t"
    using no_FF_drop [OF less.prems(2)] length_dropWhile_le by simp_all
  show ?case
  proof (cases "tokens t = []")
    case True
    with s1 u show ?thesis by (subst (1 2) read_longs.simps) (auto simp: long_text_def longs_def)
  next
    case False
    obtain s2 t2 where s2: "readLong s1 = (case long_value (hd (tokens t)) of None \<Rightarrow> Inl (stream_quit m R_pe) | Some v \<Rightarrow> Inr (v, s2))"
        "shows_text m t2 s2" "tokens t2 = tl (tokens t)" "no_FF t2" "length t2 < length ?u"
      using readLong_shows [OF s1(2) u(1)] False unfolding u(2) by metis
    from False obtain w ws where w: "tokens t = w # ws" by (cases "tokens t") auto
    have "length t2 < length t" using s2(5) u(3) by simp
    note IH = less.hyps [OF this s2(2,4)]
    show ?thesis
    proof (cases "long_value w")
      case None
      with s1 s2(1) w show ?thesis by (subst (1 2) read_longs.simps) (simp add: long_text_def)
    next
      case (Some v)
      with w s2(3) have "long_text t \<longleftrightarrow> long_text t2" "longs t = v # longs t2"
        by (auto simp: long_text_def longs_def)
      moreover have "read_longs s acc = read_longs s2 (acc @ [v])"
        using s1 s2(1) w Some by (subst read_longs.simps) simp
      ultimately show ?thesis using IH [of "acc @ [v]"] unfolding append_assoc by auto
    qed
  qed
qed

lemma longs_facts:
  "length (longs t) = length (tokens t)" "tokens t = [] \<Longrightarrow> long_text t \<and> longs t = []" "longs t = [] \<longleftrightarrow> tokens t = []"
  by (simp_all add: longs_def long_text_def)

section \<open>\<open>ncmp\<close>\<close>

lemma ncmp_rest:
  assumes "shows_text M_answer a ans" "shows_text M_output b ouf" "no_FF a" "no_FF b" "long_text a" "tokens a = [] \<or> tokens b = []"
  shows "\<exists>code. (case read_longs ans [] of
       None \<Rightarrow> None
     | Some (Inl code) \<Rightarrow> Some code
     | Some (Inr (extraInAns, ans')) \<Rightarrow>
         (case read_longs ouf [] of
            None \<Rightarrow> None
          | Some (Inl code) \<Rightarrow> Some code
          | Some (Inr (extraInOuf, ouf')) \<Rightarrow>
              if length extraInAns > 0 then Some (quitf ouf' R_wa)
              else if length extraInOuf > 0 then Some (quitf ouf' R_wa)
              else Some (quitf ouf' R_ok))) = Some code \<and> (code = 0 \<longleftrightarrow> tokens a = tokens b)"
proof -
  obtain ans' where ans: "read_longs ans [] = Some (Inr (longs a, ans'))"
    using read_longs_shows [OF assms(1,3), of "[]"] assms(5) by auto
  have empty: "tokens b \<noteq> []" if "\<not> long_text b" using that longs_facts(2) by blast
  show ?thesis
  proof (cases "long_text b")
    case True
    then obtain ouf' b' where "read_longs ouf [] = Some (Inr (longs b, ouf'))" "shows_text M_output b' ouf'" "no_FF b'" "tokens b' = []"
      using read_longs_shows [OF assms(2,4), of "[]"] by auto
    with ans assms(6) show ?thesis by (auto simp: longs_facts quitf_shows)
  next
    case False
    then have "read_longs ouf [] = Some (Inl (stream_quit M_output R_pe))"
      using read_longs_shows [OF assms(2,4), of "[]"] by simp
    with ans assms(6) empty [OF False] show ?thesis by (auto simp: stream_quit_def)
  qed
qed

lemma readable_tail: "tokens t' = tl (tokens t) \<Longrightarrow> long_text t \<Longrightarrow> long_text t'"
  unfolding long_text_def by (metis list.set_sel(2) tl_Nil)

lemma ncmp_step:
  assumes "seekEof ans = (False, ans1)" "seekEof ouf = (False, ouf1)" "readLong ans1 = Inr (v, ans2)"
  shows "ncmp_loop ans ouf =
    (case readLong ouf1 of Inl code \<Rightarrow> Some code
     | Inr (p, ouf2) \<Rightarrow> if v \<noteq> p then Some (quitf ouf2 R_wa) else ncmp_loop ans2 ouf2)"
  by (subst ncmp_loop.simps) (simp add: assms)

lemma ncmp_loop_decides:
  assumes "shows_text M_answer a ans" "shows_text M_output b ouf" "no_FF a" "no_FF b" "long_text a"
    and "\<forall>w \<in> set (tokens a). \<forall>x \<in> set (tokens b). long_value x = long_value w \<longrightarrow> x = w"
  shows "\<exists>code. ncmp_loop ans ouf = Some code \<and> (code = 0 \<longleftrightarrow> tokens a = tokens b)"
  using assms
proof (induction "length a" arbitrary: a b ans ouf rule: less_induct)
  case less
  obtain ans1 where a1: "seekEof ans = (tokens a = [], ans1)" "shows_text M_answer (dropWhile separator a) ans1"
    using seekEof_shows less.prems(1,3) by metis
  obtain ouf1 where b1: "seekEof ouf = (tokens b = [], ouf1)" "shows_text M_output (dropWhile separator b) ouf1"
    using seekEof_shows less.prems(2,4) by metis
  have ff: "no_FF (dropWhile separator a)" "no_FF (dropWhile separator b)" using less.prems no_FF_drop by auto
  have la: "long_text (dropWhile separator a)" using less.prems(5) by (simp add: long_text_def)
  consider "tokens a = []" | "tokens a \<noteq> []" "tokens b = []" | "tokens a \<noteq> []" "tokens b \<noteq> []" by blast
  then show ?case
  proof cases
    case 1
    then show ?thesis using a1(1) ncmp_rest [OF a1(2) less.prems(2) ff(1) less.prems(4) la]
      by (subst ncmp_loop.simps) simp
  next
    case 2
    then show ?thesis using a1(1) b1(1) ncmp_rest [OF a1(2) b1(2) ff la]
      by (subst ncmp_loop.simps) simp
  next
    case 3
    then have ne: "tokens (dropWhile separator a) \<noteq> []" "tokens (dropWhile separator b) \<noteq> []" by simp_all
    obtain v where v: "long_value (hd (tokens a)) = Some v" using less.prems(5) hd_in_set [OF 3(1)] unfolding long_text_def by blast
    obtain ans2 a2 where a2: "readLong ans1 = (case long_value (hd (tokens a)) of None \<Rightarrow> Inl (stream_quit M_answer R_pe) | Some v \<Rightarrow> Inr (v, ans2))"
        "shows_text M_answer a2 ans2" "tokens a2 = tl (tokens a)" "no_FF a2"
        "length a2 < length (dropWhile separator a)"
      using readLong_shows [OF a1(2) ff(1) ne(1)] unfolding tokens_drop_separators by metis
    obtain ouf2 b2 where b2: "readLong ouf1 = (case long_value (hd (tokens b)) of None \<Rightarrow> Inl (stream_quit M_output R_pe) | Some v \<Rightarrow> Inr (v, ouf2))"
        "shows_text M_output b2 ouf2" "tokens b2 = tl (tokens b)" "no_FF b2"
      using readLong_shows [OF b1(2) ff(2) ne(2)] unfolding tokens_drop_separators by metis
    have "length a2 < length a" using a2(5) length_dropWhile_le [of separator a] by simp
    have heads: "long_value (hd (tokens b)) = Some v \<longleftrightarrow> hd (tokens b) = hd (tokens a)"
      using less.prems(6) 3 v by (metis hd_in_set)
    have toks: "tokens a = tokens b \<longleftrightarrow> hd (tokens a) = hd (tokens b) \<and> tokens a2 = tokens b2"
      using 3 a2(3) b2(3) by (auto simp: list.expand)
    have "\<forall>w \<in> set (tokens a2). \<forall>x \<in> set (tokens b2). long_value x = long_value w \<longrightarrow> x = w"
      using less.prems(6) 3 unfolding a2(3) b2(3) by (metis list.set_sel(2))
    note IH = less.hyps [OF \<open>length a2 < length a\<close> a2(2) b2(2) a2(4) b2(4) readable_tail [OF a2(3) less.prems(5)] this]
    have steps: "seekEof ans = (False, ans1)" "seekEof ouf = (False, ouf1)" "readLong ans1 = Inr (v, ans2)"
      using a1(1) b1(1) a2(1) v 3 by simp_all
    have step: "ncmp_loop ans ouf = (case long_value (hd (tokens b)) of None \<Rightarrow> Some 2
        | Some p \<Rightarrow> if v \<noteq> p then Some 1 else ncmp_loop ans2 ouf2)"
      unfolding ncmp_step [OF steps] b2(1) by (simp add: quitf_shows(2) [OF b2(2,4)] stream_quit_def split: option.split)
    show ?thesis
    proof (cases "long_value (hd (tokens b)) = Some v")
      case True
      with IH heads step show ?thesis unfolding toks by simp
    next
      case False
      with heads have "\<not> (hd (tokens a) = hd (tokens b) \<and> tokens a2 = tokens b2)" by auto
      with False step show ?thesis unfolding toks by (cases "long_value (hd (tokens b))") simp_all
    qed
  qed
qed



section \<open>\<open>uncmp\<close>\<close>

lemma longs_mset_iff:
  assumes "readable a" "readable b" "long_text a" "long_text b"
  shows "mset (longs a) = mset (longs b) \<longleftrightarrow> mset (tokens a) = mset (tokens b)"
proof
  have printed: "map int_to_string (longs t) = tokens t" if "readable t" "long_text t" for t
  proof -
    have "int_to_string (the (long_value w)) = w" if "w \<in> set (tokens t)" for w
      using \<open>long_text t\<close> that long_value_token [OF \<open>readable t\<close> that] unfolding long_text_def by (metis option.exhaust_sel)
    then show ?thesis by (simp add: longs_def map_idI)
  qed
  assume "mset (longs a) = mset (longs b)"
  then have "mset (map int_to_string (longs a)) = mset (map int_to_string (longs b))" by (simp add: mset_map)
  then show "mset (tokens a) = mset (tokens b)" using printed assms by simp
next
  assume "mset (tokens a) = mset (tokens b)"
  then show "mset (longs a) = mset (longs b)" by (simp add: longs_def mset_map)
qed

lemma sort_eq_iff: "sort xs = sort ys \<longleftrightarrow> mset xs = mset (ys :: int list)"
  by (metis mset_sort properties_for_sort sorted_sort)

text \<open>
  With a well-formed answer \<open>uncmp\<close> ends, and it accepts exactly the outputs that hold the tokens
  of the answer in some order.
\<close>

theorem uncmp_decides:
  assumes "readable a" "readable b" "\<forall>w \<in> set (tokens a). \<exists>v. int64 v \<and> w = int_to_string v"
  shows "\<exists>code. uncmp (Some b) (Some a) = Some code \<and> (code = 0 \<longleftrightarrow> mset (tokens a) = mset (tokens b))"
proof -
  have la: "long_text a" using assms long_value_token [OF assms(1)] by (fastforce simp: long_text_def)
  have ff: "no_FF a" "no_FF b" using assms by (simp_all add: readable_def)
  obtain ans' where ans: "read_longs (text_stream M_answer a) [] = Some (Inr (longs a, ans'))"
    using read_longs_shows [OF shows_text_whole ff(1), of M_answer "[]"] la by auto
  show ?thesis
  proof (cases "long_text b")
    case True
    then obtain ouf' b' where "read_longs (text_stream M_output b) [] = Some (Inr (longs b, ouf'))"
        "shows_text M_output b' ouf'" "no_FF b'" "tokens b' = []"
      using read_longs_shows [OF shows_text_whole ff(2), of M_output "[]"] by auto
    moreover have "length (longs a) = length (longs b)" if "mset (longs a) = mset (longs b)" using mset_eq_length [OF that] .
    ultimately show ?thesis
      using ans longs_mset_iff [OF assms(1,2) la True] by (auto simp: uncmp_def register_texts quitf_shows sort_eq_iff)
  next
    case False
    then have "read_longs (text_stream M_output b) [] = Some (Inl (stream_quit M_output R_pe))"
      using read_longs_shows [OF shows_text_whole ff(2), of M_output "[]"] by simp
    moreover have "mset (tokens a) \<noteq> mset (tokens b)"
      using False la unfolding long_text_def by (metis set_mset_mset)
    ultimately show ?thesis using ans by (simp add: uncmp_def register_texts stream_quit_def)
  qed
qed

theorem uncmp_decides_witness: "\<exists>code. uncmp (Some ''7 5'') (Some ''5 7'') = Some code \<and> code = 0"
proof -
  have t: "tokens ''5 7'' = [''5'', ''7'']" "tokens ''7 5'' = [''7'', ''5'']" by code_simp+
  have n: "int_to_string 5 = ''5''" "int_to_string 7 = ''7''" by code_simp+
  have c: "\<forall>w \<in> set (tokens ''5 7''). \<exists>v. int64 v \<and> w = int_to_string v"
    unfolding t using n by (auto simp: int64_def LLONG_MIN_def intro: exI [of _ 5] exI [of _ 7])
  show ?thesis
    using uncmp_decides [OF _ _ c, of "''7 5''"] by (simp add: readable_def no_FF_def t add_mset_commute)
qed

section \<open>\<open>bcmp\<close>\<close>

lemma bcmp_loop_decides: "bcmp_loop out ans = (if out = ans then 0 else 1)"
  by (induction out ans rule: bcmp_loop.induct) auto

text \<open>C90. \<open>bcmp\<close> accepts exactly when both files exist and hold the same bytes.\<close>

theorem bcmp_decides: "bcmp fout fans = 0 \<longleftrightarrow> fout \<noteq> None \<and> fout = fans"
  by (auto simp: bcmp_def bcmp_loop_decides split: option.splits)

end
