(* ===== verification/CaseCheckers.thy ===== *)
theory CaseCheckers
  imports IntegerCheckers
begin

text \<open>
  What the checkers with test cases decide. \<open>casewcmp\<close> and \<open>casencmp\<close> are one loop over two ways to read
  an item; the laws of an item reader are a locale, and both ways are interpretations of it.
\<close>

section \<open>Test cases as tokens\<close>

primrec case_tokens :: "nat \<Rightarrow> string list list \<Rightarrow> string list" where
  "case_tokens n [] = []"
| "case_tokens n (c # cs) = ''Case'' # numExpStr (Suc n) # c @ case_tokens (Suc n) cs"

definition up_to_case :: "string list \<Rightarrow> string list" where
  "up_to_case ws = takeWhile (\<lambda>w. w \<noteq> ''Case'') ws"

definition from_case :: "string list \<Rightarrow> string list" where
  "from_case ws = dropWhile (\<lambda>w. w \<noteq> ''Case'') ws"

lemma from_case_hd: "from_case ws \<noteq> [] \<Longrightarrow> from_case ws = ''Case'' # tl (from_case ws)"
  using hd_dropWhile [of "\<lambda>w. w \<noteq> ''Case''" ws] list.collapse [of "from_case ws"] by (simp add: from_case_def)

lemma split_at_case: "ws = up_to_case ws @ from_case ws"
  by (simp add: up_to_case_def from_case_def)

lemma case_parts:
  assumes "''Case'' \<notin> set c"
  shows "up_to_case (c @ case_tokens n cs) = c" "from_case (c @ case_tokens n cs) = case_tokens n cs"
  using assms by (cases cs; induction c; auto simp: up_to_case_def from_case_def)+

lemma case_parts_end:
  assumes "''Case'' \<notin> set c"
  shows "up_to_case ws = c \<and> (from_case ws = [] \<or> from_case ws = [''Case'']) \<longleftrightarrow> ws = c \<or> ws = c @ [''Case'']"
proof -
  have "up_to_case c = c" "from_case c = []" "up_to_case (c @ [''Case'']) = c" "from_case (c @ [''Case'']) = [''Case'']"
    using assms by (induction c) (auto simp: up_to_case_def from_case_def)
  then show ?thesis using split_at_case [of ws] by auto
qed

section \<open>Headers\<close>

lemma readWord_end:
  assumes "shows_text m t s" "tokens t = []"
  shows "readWord s = Inl (stream_quit m R_unexpected_eof)"
  using assms(1)
proof (cases rule: shows_text_cases)
  case 1
  have "dropWhile (\<lambda>c. isBlanks (schar c)) t = []" using assms(2) unfolding tokens_empty_iff separator_def [abs_def] .
  then have "skip_blank_cells (map Byte t) = []" unfolding skip_blank_text by simp
  with 1 show ?thesis by (simp add: readWord_def stream_of_def)
qed (simp add: readWord_def)

text \<open>The tokens still to be compared when the word \<open>Case\<close> may have been read already.\<close>

definition pending :: "bool \<Rightarrow> string \<Rightarrow> string list" where
  "pending pre t = (if pre then ''Case'' # tokens t else tokens t)"

lemma case_header:
  assumes "shows_text m t s" "no_FF t"
  shows "case pending pre t of
      w # x # ys \<Rightarrow>
        if w = ''Case'' then \<exists>s' t'. bind_checked (case_start pe s pre) readWord = Inr (x, s') \<and> shows_text m t' s' \<and> no_FF t' \<and> tokens t' = ys
        else bind_checked (case_start pe s pre) readWord = Inl pe
    | _ \<Rightarrow> \<exists>code \<in> {pe, stream_quit m R_unexpected_eof}. bind_checked (case_start pe s pre) readWord = Inl code"
proof -
  have first: "\<exists>s' t'. readWord s = Inr (w, s') \<and> shows_text m t' s' \<and> no_FF t' \<and> tokens t' = ws"
    if "tokens t = w # ws" "shows_text m t s" "no_FF t" for w ws s t
    using readWord_shows [OF that(2,3)] that(1) by (metis list.distinct(1) list.sel(1,3))
  show ?thesis
  proof (cases pre)
    case True
    then show ?thesis
      using assms first [OF _ assms] readWord_end [OF assms(1)]
      by (cases "tokens t") (auto simp: pending_def case_start_def)
  next
    case False
    show ?thesis
    proof (cases "tokens t")
      case Nil
      with False readWord_end [OF assms(1) Nil] show ?thesis by (simp add: pending_def case_start_def)
    next
      case (Cons w ws)
      then obtain s1 t1 where s1: "readWord s = Inr (w, s1)" "shows_text m t1 s1" "no_FF t1" "tokens t1 = ws"
        using first [OF _ assms] by blast
      then show ?thesis
        using False Cons first [OF _ s1(2,3)] readWord_end [OF s1(2)]
        by (cases ws) (auto simp: pending_def case_start_def)
    qed
  qed
qed

section \<open>Item readers\<close>

text \<open>
  What the checkers rely on when they turn a token into an item: a canonical token has a value in
  every stream, two tokens of the same value are the same token, and a failure is an exit code.
\<close>

locale item_reader =
  fixes conv :: "TMode \<Rightarrow> string \<Rightarrow> 'a checked"
    and item :: "string \<Rightarrow> bool"
    and canonical :: "string \<Rightarrow> bool"
  assumes conv_canonical: "item w \<Longrightarrow> canonical w \<Longrightarrow> \<exists>v. \<forall>m. conv m w = Inr v"
    and conv_inject: "item w \<Longrightarrow> item x \<Longrightarrow> conv m w = Inr v \<Longrightarrow> conv m' x = Inr v \<Longrightarrow> x = w"
    and conv_error: "conv M_output w = Inl e \<Longrightarrow> e \<noteq> 0"
begin

text \<open>The items of one test case: all of them when every token up to the next header has a value.\<close>

lemma case_items_shows:
  assumes "shows_text m t s" "no_FF t"
  shows "if \<forall>w \<in> set (up_to_case (tokens t)). \<exists>v. conv m w = Inr v
    then \<exists>s' t'. case_items (conv m) s pre acc =
        Some (Inr (acc @ map (\<lambda>w. projr (conv m w)) (up_to_case (tokens t)), pre \<or> from_case (tokens t) \<noteq> [], s')) \<and>
      shows_text m t' s' \<and> no_FF t' \<and> tokens t' = tl (from_case (tokens t))
    else \<exists>w e. conv m w = Inl e \<and> case_items (conv m) s pre acc = Some (Inl e)"
  using assms
proof (induction "length t" arbitrary: t s acc rule: less_induct)
  case less
  obtain s1 where s1: "seekEof s = (tokens t = [], s1)" "shows_text m (dropWhile separator t) s1"
    using seekEof_shows [OF less.prems] by metis
  let ?u = "dropWhile separator t"
  have u: "no_FF ?u" "tokens ?u = tokens t" "length ?u \<le> length t"
    using no_FF_drop [OF less.prems(2)] length_dropWhile_le by simp_all
  show ?case
  proof (cases "tokens t = []")
    case True
    with s1 u show ?thesis by (subst (1 2) case_items.simps) (auto simp: up_to_case_def from_case_def)
  next
    case False
    then obtain w ws where w: "tokens t = w # ws" by (cases "tokens t") auto
    obtain s2 t2 where s2: "readWord s1 = Inr (w, s2)" "shows_text m t2 s2" "tokens t2 = ws" "no_FF t2" "length t2 < length ?u"
      using readWord_shows [OF s1(2) u(1)] False unfolding u(2) w by (metis list.sel(1,3))
    have step: "case_items (conv m) s pre acc = (if w = ''Case'' then Some (Inr (acc, True, s2))
        else case conv m w of Inl code \<Rightarrow> Some (Inl code) | Inr v \<Rightarrow> case_items (conv m) s2 pre (acc @ [v]))" for acc
      using s1 s2(1) w by (subst case_items.simps) simp
    have "length t2 < length t" using s2(5) u(3) by simp
    note IH = less.hyps [OF this s2(2,4)]
    consider "w = ''Case''" | e where "w \<noteq> ''Case''" "conv m w = Inl e" | v where "w \<noteq> ''Case''" "conv m w = Inr v"
      by (cases "conv m w") auto
    then show ?thesis
    proof cases
      case 1
      with s2 w show ?thesis unfolding step by (auto simp: up_to_case_def from_case_def)
    next
      case (2 e)
      with w show ?thesis unfolding step by (auto simp: up_to_case_def)
    next
      case (3 v)
      then have "up_to_case (tokens t) = w # up_to_case ws" "from_case (tokens t) = from_case ws"
        using w by (simp_all add: up_to_case_def from_case_def)
      with IH [of "acc @ [v]", unfolded s2(3)] 3 show ?thesis unfolding step append_assoc by auto
    qed
  qed
qed

definition good_case :: "TMode \<Rightarrow> nat \<Rightarrow> string list \<Rightarrow> bool" where
  "good_case m n ws \<longleftrightarrow>
     (\<exists>ys. ws = ''Case'' # numExpStr n # ys \<and> (\<forall>w \<in> set (up_to_case ys). \<exists>v. conv m w = Inr v))"

lemma readStreamCase_good:
  assumes "shows_text m t s" "no_FF t" "pending pre t = ''Case'' # numExpStr n # ys"
    and "\<forall>w \<in> set (up_to_case ys). \<exists>v. conv m w = Inr v"
  shows "\<exists>s' t'. readStreamCase (conv m) pe s n pre =
      Some (Inr (map (\<lambda>w. projr (conv m w)) (up_to_case ys), pre \<or> from_case ys \<noteq> [], s')) \<and>
    shows_text m t' s' \<and> no_FF t' \<and> tokens t' = tl (from_case ys)"
proof -
  obtain s1 t1 where s1: "bind_checked (case_start pe s pre) readWord = Inr (numExpStr n, s1)" "shows_text m t1 s1" "no_FF t1" "tokens t1 = ys"
    using case_header [OF assms(1,2), where pre = pre and pe = pe] assms(3) by auto
  show ?thesis
    using case_items_shows [OF s1(2,3), of pre "[]"] assms(4) unfolding s1(4) by (simp add: readStreamCase_def s1(1))
qed

lemma readStreamCase_bad:
  assumes "shows_text m t s" "no_FF t" "\<not> good_case m n (pending pre t)"
  shows "\<exists>code. readStreamCase (conv m) pe s n pre = Some (Inl code) \<and>
    (code = pe \<or> code = stream_quit m R_unexpected_eof \<or> (\<exists>w. conv m w = Inl code))"
proof (cases "bind_checked (case_start pe s pre) readWord")
  case (Inl code)
  with case_header [OF assms(1,2), where pre = pre and pe = pe] show ?thesis
    by (auto simp: readStreamCase_def split: list.splits if_splits)
next
  case (Inr r)
  then obtain x s1 where r: "bind_checked (case_start pe s pre) readWord = Inr (x, s1)" by (cases r) auto
  with case_header [OF assms(1,2), where pre = pre and pe = pe] obtain t1 ys
    where s1: "pending pre t = ''Case'' # x # ys" "shows_text m t1 s1" "no_FF t1" "tokens t1 = ys"
    by (auto split: list.splits if_splits)
  show ?thesis
  proof (cases "x = numExpStr n")
    case True
    with assms(3) s1(1) have "\<not> (\<forall>w \<in> set (up_to_case ys). \<exists>v. conv m w = Inr v)" by (auto simp: good_case_def)
    with case_items_shows [OF s1(2,3), of pre "[]"] True r show ?thesis
      unfolding s1(4) by (auto simp: readStreamCase_def)
  qed (simp add: readStreamCase_def r)
qed

lemma values_eq_iff:
  assumes "\<forall>w \<in> set c. item w \<and> canonical w" "\<forall>x \<in> set d. item x \<and> (\<exists>v. conv m' x = Inr v)"
  shows "map (\<lambda>w. projr (conv m w)) c = map (\<lambda>w. projr (conv m' w)) d \<longleftrightarrow> c = d"
  using assms
proof (induction c arbitrary: d)
  case (Cons w c)
  then obtain v where v: "\<And>m. conv m w = Inr v" using conv_canonical by (metis list.set_intros(1))
  show ?case
  proof (cases d)
    case d: (Cons x d')
    with Cons.prems obtain u where "conv m' x = Inr u" "item x" by auto
    with v conv_inject [of w x m v m'] Cons.prems(1) have "projr (conv m w) = projr (conv m' x) \<longleftrightarrow> w = x" by auto
    with Cons.IH [of d'] Cons.prems d show ?thesis by simp
  qed simp
qed auto

text \<open>The cases of a well-formed answer, and the outputs that are accepted for it.\<close>

definition good_cases :: "string list list \<Rightarrow> bool" where
  "good_cases css \<longleftrightarrow> (\<forall>c \<in> set css. ''Case'' \<notin> set c \<and> (\<forall>w \<in> set c. item w \<and> canonical w))"

definition accepted :: "nat \<Rightarrow> string list list \<Rightarrow> bool \<Rightarrow> string \<Rightarrow> bool" where
  "accepted n css pre b \<longleftrightarrow>
     (if css = [] then tokens b = []
      else pending pre b = case_tokens n css \<or> pending pre b = case_tokens n css @ [''Case''])"

lemma accepted_good:
  assumes "good_cases (c # cs)" "accepted n (c # cs) pre b"
  shows "good_case m (Suc n) (pending pre b)"
proof -
  have case_c: "''Case'' \<notin> set c" and items: "\<forall>w \<in> set c. \<exists>v. conv m w = Inr v"
    using assms(1) conv_canonical by (auto simp: good_cases_def) blast
  have "up_to_case (c @ case_tokens (Suc n) cs @ [''Case'']) = c"
    using case_c by (cases cs; induction c; auto simp: up_to_case_def)
  then show ?thesis
    using assms(2) items case_parts(1) [OF case_c] by (auto simp: accepted_def good_case_def)
qed

lemma accepted_step:
  assumes "''Case'' \<notin> set c" "pending pre b = ''Case'' # numExpStr (Suc n) # ys" "tokens b' = tl (from_case ys)"
  shows "accepted n (c # cs) pre b \<longleftrightarrow> up_to_case ys = c \<and> accepted (Suc n) cs (pre \<or> from_case ys \<noteq> []) b'"
proof (cases cs)
  case Nil
  have "tl (from_case ys) = [] \<longleftrightarrow> from_case ys = [] \<or> from_case ys = [''Case'']" using from_case_hd [of ys] by (cases "from_case ys") auto
  then show ?thesis using assms(2,3) case_parts_end [OF assms(1), of ys] Nil by (auto simp: accepted_def)
next
  case (Cons c' cs')
  let ?C = "case_tokens (Suc n) cs"
  have long: "?C \<noteq> []" "?C \<noteq> [''Case'']" "?C @ [''Case''] \<noteq> []" "?C @ [''Case''] \<noteq> [''Case'']" using Cons by simp_all
  have up: "up_to_case (c @ ?C) = c" "up_to_case (c @ ?C @ [''Case'']) = c"
    using assms(1) Cons by (induction c) (auto simp: up_to_case_def)
  have "ys = c @ D \<longleftrightarrow> up_to_case ys = c \<and> from_case ys = D" if "D = ?C \<or> D = ?C @ [''Case'']" for D
    using that up split_at_case [of ys] by (metis same_append_eq)
  then have "accepted n (c # cs) pre b \<longleftrightarrow> up_to_case ys = c \<and> (from_case ys = ?C \<or> from_case ys = ?C @ [''Case''])"
    using assms(2) by (auto simp: accepted_def)
  moreover have "accepted (Suc n) cs (pre \<or> from_case ys \<noteq> []) b' \<longleftrightarrow> from_case ys = ?C \<or> from_case ys = ?C @ [''Case'']"
    using assms(3) from_case_hd [of ys] long Cons by (cases "from_case ys = []") (auto simp: accepted_def pending_def)
  ultimately show ?thesis by simp
qed

lemma testcase_loop_decides:
  assumes "shows_text M_answer a ans" "shows_text M_output b ouf" "no_FF a" "no_FF b" "\<forall>w \<in> set (tokens b). item w"
    and "good_cases css" "css \<noteq> [] \<Longrightarrow> pending p a = case_tokens n css" "css = [] \<Longrightarrow> tokens a = []"
  shows "\<exists>code. testcase_loop conv n p q ans ouf = Some code \<and> (code = 0 \<longleftrightarrow> accepted n css q b)"
  using assms
proof (induction css arbitrary: n p q a b ans ouf)
  case Nil
  obtain ans1 where "seekEof ans = (True, ans1)" using seekEof_shows [OF Nil(1,3)] Nil(8) by metis
  then show ?case using quitf_shows [OF Nil(2,4)] by (subst testcase_loop.simps) (simp add: accepted_def)
next
  case (Cons c cs)
  let ?C = "case_tokens (Suc n) cs"
  have case_c: "''Case'' \<notin> set c" and items: "\<forall>w \<in> set c. item w \<and> canonical w" and rest: "good_cases cs"
    using Cons.prems(6) by (auto simp: good_cases_def)
  have conv_c: "\<forall>w \<in> set c. \<exists>v. conv M_answer w = Inr v" using items conv_canonical by blast
  have pa: "pending p a = ''Case'' # numExpStr (Suc n) # c @ ?C" using Cons.prems(7) by simp
  then have "tokens a \<noteq> []" by (auto simp: pending_def split: if_splits)
  then obtain ans1 where a1: "seekEof ans = (False, ans1)" "shows_text M_answer (dropWhile separator a) ans1"
    using seekEof_shows [OF Cons.prems(1,3)] by metis
  have pend: "pending p (dropWhile separator a) = ''Case'' # numExpStr (Suc n) # c @ ?C" using pa by (simp add: pending_def split: if_splits)
  obtain ans2 a2 where a2: "readStreamCase (conv M_answer) (quitf ouf R_fail) ans1 (Suc n) p =
        Some (Inr (map (\<lambda>w. projr (conv M_answer w)) c, p \<or> ?C \<noteq> [], ans2))"
      "shows_text M_answer a2 ans2" "no_FF a2" "tokens a2 = tl ?C"
    using readStreamCase_good [OF a1(2) no_FF_drop [OF Cons.prems(3)] pend, of "quitf ouf R_fail"] conv_c
    unfolding case_parts [OF case_c] by blast
  show ?case
  proof (cases "good_case M_output (Suc n) (pending q b)")
    case False
    obtain code where code: "readStreamCase (conv M_output) (quitf ouf R_pe) ouf (Suc n) q = Some (Inl code)" "code \<noteq> 0"
      using readStreamCase_bad [OF Cons.prems(2,4) False, of "quitf ouf R_pe"] conv_error quitf_shows(3) [OF Cons.prems(2,4)]
      by (auto simp: stream_quit_def)
    moreover have "\<not> accepted n (c # cs) q b" using False accepted_good [OF Cons.prems(6)] by blast
    ultimately show ?thesis by (subst testcase_loop.simps) (simp add: a1(1) a2(1))
  next
    case True
    then obtain ys where ys: "pending q b = ''Case'' # numExpStr (Suc n) # ys" "\<forall>w \<in> set (up_to_case ys). \<exists>v. conv M_output w = Inr v"
      by (auto simp: good_case_def)
    obtain ouf2 b2 where b2: "readStreamCase (conv M_output) (quitf ouf R_pe) ouf (Suc n) q =
          Some (Inr (map (\<lambda>w. projr (conv M_output w)) (up_to_case ys), q \<or> from_case ys \<noteq> [], ouf2))"
        "shows_text M_output b2 ouf2" "no_FF b2" "tokens b2 = tl (from_case ys)"
      using readStreamCase_good [OF Cons.prems(2,4) ys] by blast
    have sub: "set ys \<subseteq> set (tokens b)" using ys(1) by (auto simp: pending_def split: if_splits)
    have parts: "set (up_to_case ys) \<subseteq> set ys" "set (tl (from_case ys)) \<subseteq> set ys"
      unfolding up_to_case_def from_case_def by (auto dest: set_takeWhileD) (metis list.sel(2) list.set_sel(2) set_dropWhileD)
    have same: "map (\<lambda>w. projr (conv M_answer w)) c = map (\<lambda>w. projr (conv M_output w)) (up_to_case ys) \<longleftrightarrow> up_to_case ys = c"
      using values_eq_iff [OF items, of "up_to_case ys" M_output M_answer] Cons.prems(5) ys(2) sub parts(1) by auto
    have step: "testcase_loop conv n p q ans ouf =
        (if up_to_case ys \<noteq> c then Some 1 else testcase_loop conv (Suc n) (p \<or> ?C \<noteq> []) (q \<or> from_case ys \<noteq> []) ans2 ouf2)"
      using same quitf_shows(2) [OF b2(2,3)] by (subst testcase_loop.simps) (simp add: a1(1) a2(1) b2(1))
    have "\<exists>code. testcase_loop conv (Suc n) (p \<or> ?C \<noteq> []) (q \<or> from_case ys \<noteq> []) ans2 ouf2 = Some code \<and>
        (code = 0 \<longleftrightarrow> accepted (Suc n) cs (q \<or> from_case ys \<noteq> []) b2)"
    proof (rule Cons.IH [OF a2(2) b2(2) a2(3) b2(3) _ rest])
      show "\<forall>w \<in> set (tokens b2). item w" using Cons.prems(5) sub parts(2) b2(4) by auto
      show "pending (p \<or> ?C \<noteq> []) a2 = ?C" if "cs \<noteq> []" using that a2(4) by (cases cs) (simp_all add: pending_def)
    qed (use a2(4) in simp)
    then show ?thesis unfolding step accepted_step [OF case_c ys(1) b2(4)] by auto
  qed
qed

lemma case_checker_decides:
  assumes "no_FF a" "no_FF b" "\<forall>w \<in> set (tokens b). item w" "good_cases css" "tokens a = case_tokens 0 css"
  shows "\<exists>code. case_checker conv (Some b) (Some a) = Some code \<and>
    (code = 0 \<longleftrightarrow> tokens b = tokens a \<or> css \<noteq> [] \<and> tokens b = tokens a @ [''Case''])"
proof -
  have "\<exists>code. testcase_loop conv 0 False False (text_stream M_answer a) (text_stream M_output b) = Some code \<and> (code = 0 \<longleftrightarrow> accepted 0 css False b)"
    using assms by (intro testcase_loop_decides [OF shows_text_whole shows_text_whole]) (simp_all add: pending_def)
  then show ?thesis using assms(5) by (cases "css = []") (auto simp: case_checker_def register_texts accepted_def pending_def)
qed

end

interpretation word_items: item_reader "\<lambda>_ w. Inr w" "\<lambda>_. True" "\<lambda>_. True"
  by unfold_locales simp_all

interpretation long_items: item_reader stringToLongLong "\<lambda>w. w \<noteq> [] \<and> CHR 0x00 \<notin> set w" "\<lambda>w. \<exists>v. int64 v \<and> w = int_to_string v"
proof
  fix w x :: string and v m m' e
  show "\<exists>v. \<forall>m. stringToLongLong m w = Inr v" if "w \<noteq> [] \<and> CHR 0x00 \<notin> set w" "\<exists>v. int64 v \<and> w = int_to_string v"
    using that stringToLongLong_iff [of w] c_str_id [of w] by auto
  show "x = w" if "w \<noteq> [] \<and> CHR 0x00 \<notin> set w" "x \<noteq> [] \<and> CHR 0x00 \<notin> set x" "stringToLongLong m w = Inr v" "stringToLongLong m' x = Inr v"
    using that stringToLongLong_iff [of w m v] stringToLongLong_iff [of x m' v] c_str_id [of w] c_str_id [of x] by simp
  show "e \<noteq> 0" if "stringToLongLong M_output w = Inl e"
    using stringToLongLong_error [OF that] by (simp add: stream_quit_def)
qed

section \<open>The two checkers\<close>

text \<open>
  On texts without the byte 0xFF and an answer made of test cases, \<open>casewcmp\<close> ends, and it accepts
  the outputs with the same tokens and, when there is a test case at all, also those with one more
  token \<open>Case\<close> at the end, which \<open>readStreamCase\<close> takes for the header of a case that never comes.
\<close>

theorem casewcmp_decides:
  assumes "no_FF a" "no_FF b" "\<forall>c \<in> set css. ''Case'' \<notin> set c" "tokens a = case_tokens 0 css"
  shows "\<exists>code. casewcmp (Some b) (Some a) = Some code \<and>
    (code = 0 \<longleftrightarrow> tokens b = tokens a \<or> css \<noteq> [] \<and> tokens b = tokens a @ [''Case''])"
  unfolding casewcmp_def using assms by (intro word_items.case_checker_decides) (simp_all add: word_items.good_cases_def)

theorem casewcmp_decides_witness:
  "\<exists>code. casewcmp (Some ''Case 1: yes Case'') (Some ''Case 1: yes'') = Some code \<and> code = 0"
proof -
  have t: "tokens ''Case 1: yes'' = [''Case'', ''1:'', ''yes'']" "tokens ''Case 1: yes Case'' = [''Case'', ''1:'', ''yes'', ''Case'']"
    "case_tokens 0 [[''yes'']] = [''Case'', ''1:'', ''yes'']"
    by code_simp+
  show ?thesis
    using casewcmp_decides [of "''Case 1: yes''" "''Case 1: yes Case''" "[[''yes'']]"] by (simp only: t) (simp add: no_FF_def)
qed

text \<open>
  \<open>casencmp\<close> likewise, with an answer whose items are canonical integers: an output in which some
  number is written in another way is refused, one more \<open>Case\<close> at the end is accepted.
\<close>

theorem casencmp_decides:
  assumes "readable a" "readable b" "\<forall>c \<in> set css. \<forall>w \<in> set c. \<exists>v. int64 v \<and> w = int_to_string v" "tokens a = case_tokens 0 css"
  shows "\<exists>code. casencmp (Some b) (Some a) = Some code \<and>
    (code = 0 \<longleftrightarrow> tokens b = tokens a \<or> css \<noteq> [] \<and> tokens b = tokens a @ [''Case''])"
proof -
  have items: "w \<noteq> [] \<and> CHR 0x00 \<notin> set w" if "w \<in> set (tokens t)" "readable t" for w t
    using token_chars [OF that(1)] that(2) by (auto simp: readable_def)
  have sub: "set c \<subseteq> set (case_tokens n css)" if "c \<in> set css" for c n
    using that by (induction css arbitrary: n) auto
  have "''Case'' \<noteq> int_to_string v" for v
  proof
    assume "''Case'' = int_to_string v"
    then have "set (nat_to_string (nat v)) = set ''Case''" by (cases "v < 0") (simp_all add: int_to_string_def)
    then show False using nat_to_string_digits [of "nat v"] by (simp add: is_digit_def)
  qed
  then have "long_items.good_cases css"
    unfolding long_items.good_cases_def using assms(3) items [OF _ assms(1)] sub [of _ 0] unfolding assms(4) by blast
  then show ?thesis
    unfolding casencmp_def using assms items [OF _ assms(2)] by (intro long_items.case_checker_decides) (auto simp: readable_def)
qed

theorem casencmp_decides_witness:
  "\<exists>code. casencmp (Some ''Case 1: 07'') (Some ''Case 1: 7'') = Some code \<and> code \<noteq> 0"
proof -
  have t: "tokens ''Case 1: 7'' = [''Case'', ''1:'', ''7'']" "tokens ''Case 1: 07'' = [''Case'', ''1:'', ''07'']"
    "case_tokens 0 [[''7'']] = [''Case'', ''1:'', ''7'']" "int_to_string 7 = ''7''"
    by code_simp+
  have "\<forall>c \<in> set [[''7'']]. \<forall>w \<in> set c. \<exists>v. int64 v \<and> w = int_to_string v"
    using t(4) by (auto simp: int64_def LLONG_MIN_def intro: exI [of _ 7])
  from casencmp_decides [OF _ _ this, of "''Case 1: 7''" "''Case 1: 07''"] show ?thesis
    by (simp only: t) (simp add: readable_def no_FF_def)
qed

end
