(* ===== verification/TestlibPattern.thy ===== *)
theory TestlibPattern
  imports Testlib
begin

text \<open>
  The patterns of \<open>checker/src/testlib.h\<close>: the class \<open>pattern\<close>, its constructor, which parses the
  pattern language by positions in the text, and its greedy matcher. \<open>__testlib_fail\<close>, which ends the
  program, is None.
\<close>

section \<open>Reading a pattern text\<close>

text \<open>\<open>s[pos]\<close>; at the end of a \<open>std::string\<close> it is the NUL character.\<close>

definition char_at :: "string \<Rightarrow> nat \<Rightarrow> char" where
  "char_at s pos = (if pos < length s then s ! pos else CHR 0x00)"

definition pattern_isSlash :: "string \<Rightarrow> nat \<Rightarrow> bool" where
  "pattern_isSlash s pos \<longleftrightarrow> char_at s pos = CHR 0x5C"

definition pattern_isCommandChar :: "string \<Rightarrow> nat \<Rightarrow> char \<Rightarrow> bool" where
  "pattern_isCommandChar s pos v \<longleftrightarrow>
     (if pos \<ge> length s then False
      else even (length (takeWhile (\<lambda>c. c = CHR 0x5C) (rev (take pos s)))) \<and> s ! pos = v)"

definition pattern_getChar :: "string \<Rightarrow> nat \<Rightarrow> char \<times> nat" where
  "pattern_getChar s pos =
     (let pos' = (if pattern_isSlash s pos then pos + 2 else pos + 1) in (char_at s (pos' - 1), pos'))"

lemma getChar_advances: "pattern_getChar s pos = (c, pos') \<Longrightarrow> pos < pos'"
  by (auto simp: pattern_getChar_def Let_def split: if_splits)

section \<open>Counts\<close>

text \<open>The loop that collects the parts between braces.\<close>

function count_parts :: "string \<Rightarrow> nat \<Rightarrow> string list \<Rightarrow> string \<Rightarrow> string list \<times> string \<times> nat" where
  "count_parts s pos parts part =
     (if pos < length s \<and> \<not> pattern_isCommandChar s pos (CHR 0x7D) then
        (if pattern_isCommandChar s pos (CHR '','') then count_parts s (pos + 1) (parts @ [part]) []
         else case pattern_getChar s pos of (c, pos') \<Rightarrow> count_parts s pos' parts (part @ [c]))
      else (parts, part, pos))"
  by auto
termination
  by (relation "measure (\<lambda>(s, pos, _). length s - pos)") (auto dest: getChar_advances [OF sym])

declare count_parts.simps [simp del]

text \<open>
  \<open>sscanf\<close> with \<open>%d\<close>: None when no number is found. The C library converts like \<open>strtol\<close>, which stops at
  the ends of 64 bits, and stores the low 32.
\<close>

definition sscanf_int :: "string \<Rightarrow> int option" where
  "sscanf_int s =
     (case scan_number (c_str s) of
        None \<Rightarrow> None
      | Some (neg, m, _) \<Rightarrow>
          Some (wrap32 (max (- (2 ^ 63)) (min (2 ^ 63 - 1) (if neg then - int m else int m)))))"

definition INT_MAX :: int where "INT_MAX = 2147483647"

definition pattern_scanCounts :: "string \<Rightarrow> nat \<Rightarrow> ((int \<times> int) \<times> nat) option" where
  "pattern_scanCounts s pos =
     (if pos \<ge> length s then Some ((1, 1), pos)
      else if pattern_isCommandChar s pos (CHR 0x7B) then
        (case count_parts s (pos + 1) [] [] of
           (parts0, part, pos') \<Rightarrow>
             let parts = (if part \<noteq> [] then parts0 @ [part] else parts0) in
             if \<not> pattern_isCommandChar s pos' (CHR 0x7D) then None
             else if length parts < 1 \<or> length parts > 2 then None
             else if [] \<in> set parts then None
             else
               (case map sscanf_int parts of
                  [Some n] \<Rightarrow> Some ((n, n), pos' + 1)
                | [Some m, Some n] \<Rightarrow> if m > n then None else Some ((m, n), pos' + 1)
                | _ \<Rightarrow> None))
      else if pattern_isCommandChar s pos (CHR ''?'') then Some ((0, 1), pos + 1)
      else if pattern_isCommandChar s pos (CHR ''*'') then Some ((0, INT_MAX), pos + 1)
      else if pattern_isCommandChar s pos (CHR ''+'') then Some ((1, INT_MAX), pos + 1)
      else Some ((1, 1), pos))"

section \<open>Character sets\<close>

text \<open>\<open>for (char c = prev; c != next; c++)\<close> and the last one; \<open>char\<close> is signed.\<close>

definition char_range :: "char \<Rightarrow> char \<Rightarrow> string" where
  "char_range prev nxt = map to_char [schar prev..schar nxt]"

text \<open>The loop between the brackets; a \<open>prev\<close> of NUL stands for none.\<close>

function set_loop :: "string \<Rightarrow> nat \<Rightarrow> char \<Rightarrow> string \<Rightarrow> (string \<times> char \<times> nat) option" where
  "set_loop s pos prev result =
     (if pos < length s \<and> \<not> pattern_isCommandChar s pos (CHR '']'') then
        (if pattern_isCommandChar s pos (CHR ''-'') \<and> prev \<noteq> CHR 0x00 then
           (if pos + 2 = length s \<or> pattern_isCommandChar s (pos + 1) (CHR '']'')
            then set_loop s (pos + 1) (CHR ''-'') (result @ [prev])
            else
              case pattern_getChar s (pos + 1) of
                (nxt, pos') \<Rightarrow>
                  if schar prev > schar nxt then None
                  else set_loop s pos' (CHR 0x00) (result @ char_range prev nxt))
         else
           case pattern_getChar s pos of
             (c, pos') \<Rightarrow> set_loop s pos' c (if prev \<noteq> CHR 0x00 then result @ [prev] else result))
      else Some (result, prev, pos))"
  by auto
termination
  by (relation "measure (\<lambda>(s, pos, _). length s - pos)") (auto dest!: getChar_advances [OF sym])

declare set_loop.simps [simp del]

definition pattern_scanCharSet :: "string \<Rightarrow> nat \<Rightarrow> (string \<times> nat) option" where
  "pattern_scanCharSet s pos =
     (if pos \<ge> length s then None
      else if pattern_isCommandChar s pos (CHR ''['') then
        (let negative = pattern_isCommandChar s (pos + 1) (CHR ''^'') in
         case set_loop s (pos + 1) (CHR 0x00) [] of
           None \<Rightarrow> None
         | Some (result0, prev, pos') \<Rightarrow>
             let result = (if prev \<noteq> CHR 0x00 then result0 @ [prev] else result0) in
             if \<not> pattern_isCommandChar s pos' (CHR '']'') then None
             else
               Some (sort_key schar (if negative then filter (\<lambda>c. c \<notin> set result) (map char_of [0..<255 :: nat]) else result),
                     pos' + 1))
      else (case pattern_getChar s pos of (c, pos') \<Rightarrow> Some ([c], pos')))"

lemma set_loop_advances: "set_loop s pos prev result = Some (r, p, pos') \<Longrightarrow> pos \<le> pos'"
proof (induction s pos prev result rule: set_loop.induct)
  case (1 s pos prev result)
  then show ?case
    by (subst (asm) (2) set_loop.simps) (auto split: if_splits prod.splits dest!: getChar_advances)
qed

lemma scanCharSet_advances: "pattern_scanCharSet s pos = Some (cs, pos') \<Longrightarrow> pos < pos'"
  by (auto simp: pattern_scanCharSet_def Let_def split: if_splits prod.splits option.splits dest!: set_loop_advances getChar_advances)

lemma count_parts_advances: "count_parts s pos parts part = (ps, p, pos') \<Longrightarrow> pos \<le> pos'"
proof (induction s pos parts part rule: count_parts.induct)
  case (1 s pos parts part)
  then show ?case
    by (subst (asm) (3) count_parts.simps) (auto split: if_splits prod.splits dest!: getChar_advances)
qed

lemma scanCounts_advances: "pattern_scanCounts s pos = Some (ft, pos') \<Longrightarrow> pos \<le> pos'"
  by (auto simp: pattern_scanCounts_def Let_def split: if_splits prod.splits list.splits option.splits dest!: count_parts_advances)

section \<open>The constructor\<close>

datatype pattern = Pattern (pt_chars: string) (pt_from: int) (pt_to: int) (pt_children: "pattern list")

definition remove_spaces :: "string \<Rightarrow> string" where
  "remove_spaces s = map (\<lambda>i. s ! i) (filter (\<lambda>i. \<not> pattern_isCommandChar s i (CHR '' '')) [0..<length s])"

text \<open>The loop over the text: the open parentheses, the first closing of the outermost one, the bars.\<close>

fun paren_loop :: "string \<Rightarrow> nat list \<Rightarrow> int \<Rightarrow> int \<Rightarrow> nat list \<Rightarrow> (int \<times> int \<times> nat list) option" where
  "paren_loop s [] opened firstClose seps = Some (opened, firstClose, seps)"
| "paren_loop s (i # is) opened firstClose seps =
     (if pattern_isCommandChar s i (CHR ''('') then paren_loop s is (opened + 1) firstClose seps
      else if pattern_isCommandChar s i (CHR '')'') then
        paren_loop s is (opened - 1) (if opened - 1 = 0 \<and> firstClose = - 1 then int i else firstClose) seps
      else if opened < 0 then None
      else paren_loop s is opened firstClose (if pattern_isCommandChar s i (CHR ''|'') \<and> opened = 0 then seps @ [i] else seps))"

fun split_at :: "string \<Rightarrow> nat \<Rightarrow> nat list \<Rightarrow> string list" where
  "split_at s lst [] = []"
| "split_at s lst (sep # seps) = take (sep - lst) (drop lst s) # split_at s (sep + 1) seps"

fun collect :: "'a option list \<Rightarrow> 'a list option" where
  "collect [] = Some []"
| "collect (x # xs) = (case x of None \<Rightarrow> None | Some y \<Rightarrow> map_option ((#) y) (collect xs))"

lemma collect_cong [fundef_cong]: "xs = ys \<Longrightarrow> collect xs = collect ys"
  by simp

lemma remove_spaces_length: "length (remove_spaces s) \<le> length s"
  unfolding remove_spaces_def length_map by (rule order_trans [OF length_filter_le]) simp

lemma paren_seps:
  "paren_loop s is opened firstClose seps = Some (o', f', seps') \<Longrightarrow> set seps' \<subseteq> set is \<union> set seps"
proof (induction "is" arbitrary: opened firstClose seps)
  case (Cons i "is")
  obtain op fc sp where "paren_loop s is op fc sp = Some (o', f', seps')" "set sp \<subseteq> insert i (set seps)"
    using Cons.prems by (simp split: if_split_asm) (metis insert_is_Un list.set(1) list.set(2) set_append sup.cobounded2 sup_commute subset_insertI order_refl)+
  with Cons.IH [of op fc sp] show ?case by auto
qed simp

lemma split_at_shorter:
  assumes "\<forall>i \<in> set seps. i < length s" "seps \<noteq> [] \<or> 0 < lst" "s \<noteq> []"
  shows "\<forall>x \<in> set (split_at s lst (seps @ [length s])). length x < length s"
  using assms(1,2)
proof (induction seps arbitrary: lst)
  case Nil
  then show ?case using assms(3) by simp
next
  case (Cons i seps)
  then have "\<forall>x \<in> set (split_at s (Suc i) (seps @ [length s])). length x < length s" by (intro Cons.IH) simp_all
  with Cons.prems(1) show ?case by auto
qed

function parse_pattern :: "string \<Rightarrow> pattern option" where
  "parse_pattern s0 =
     (let s = remove_spaces s0 in
      case paren_loop s [0..<length s] 0 (- 1) [] of
        None \<Rightarrow> None
      | Some (opened, firstClose, seps) \<Rightarrow>
          if opened \<noteq> 0 then None
          else if seps = [] \<and> firstClose + 1 = int (length s) \<and> pattern_isCommandChar s 0 (CHR ''('') \<and>
              pattern_isCommandChar s (length s - 1) (CHR '')'')
          then map_option (\<lambda>p. Pattern [] 0 0 [p]) (parse_pattern (take (length s - 2) (drop 1 s)))
          else if seps \<noteq> [] then
            map_option (Pattern [] 0 0) (collect (map parse_pattern (split_at s 0 (seps @ [length s]))))
          else
            (case pattern_scanCharSet s 0 of
               None \<Rightarrow> None
             | Some (chars, pos) \<Rightarrow>
                 (case pattern_scanCounts s pos of
                    None \<Rightarrow> None
                  | Some ((from, to), pos') \<Rightarrow>
                      if pos' < length s then map_option (\<lambda>p. Pattern chars from to [p]) (parse_pattern (drop pos' s))
                      else Some (Pattern chars from to []))))"
  by auto
termination
proof (relation "measure length", goal_cases)
  case (2 s0 s)
  then have "0 < length (remove_spaces s0)" by (auto simp: pattern_isCommandChar_def)
  then have "length (remove_spaces s0) - 2 < length s0" using remove_spaces_length [of s0] by linarith
  then show ?case using 2(1) by simp
next
  case (3 s0 s x2 opened y firstClose seps part)
  then have "set seps \<subseteq> {0..<length s}" using paren_seps [of s "[0..<length s]" 0 "- 1" "[]" opened firstClose seps] by simp
  moreover from this 3(7) have "s \<noteq> []" by auto
  moreover from calculation(1) have "\<forall>i \<in> set seps. i < length s" by auto
  ultimately have "length part < length s" using split_at_shorter [of seps s 0] 3(7,8) by blast
  then show ?case using remove_spaces_length [of s0] 3(1) by simp
next
  case (4 s0 s x2 opened y firstClose seps x2a chars pos x2b ft pos')
  then have "0 < pos'" using scanCharSet_advances [of s 0 chars pos] scanCounts_advances [of s pos ft pos'] by simp
  then show ?case using remove_spaces_length [of s0] 4(1,13) by simp
qed simp

declare parse_pattern.simps [simp del]

section \<open>The matcher\<close>

definition pattern_greedyMatch :: "string \<Rightarrow> nat \<Rightarrow> string \<Rightarrow> int" where
  "pattern_greedyMatch s pos chars = int (length (takeWhile (\<lambda>c. c \<in> set chars) (drop pos s)))"

fun matches_at :: "pattern \<Rightarrow> string \<Rightarrow> nat \<Rightarrow> bool" where
  "matches_at (Pattern chars from to children) s pos0 =
     (let size0 = pattern_greedyMatch s pos0 chars;
          size = (if size0 > to then to else size0);
          pos = (if to > 0 then pos0 + nat size else pos0)
      in if to > 0 \<and> size0 < from then False
         else if length children > 0 then list_ex (\<lambda>child. matches_at child s pos) children
         else pos = length s)"

definition pattern_matches :: "pattern \<Rightarrow> string \<Rightarrow> bool" where
  "pattern_matches p s = matches_at p s 0"

section \<open>The language of a pattern\<close>

text \<open>
  What a pattern means as a regular expression: between \<open>from\<close> and \<open>to\<close> characters of the set, then
  one of the alternatives, or nothing when there is none.
\<close>

definition repeats :: "string \<Rightarrow> int \<Rightarrow> int \<Rightarrow> string \<Rightarrow> bool" where
  "repeats chars from to u \<longleftrightarrow> (if to > 0 then set u \<subseteq> set chars \<and> from \<le> int (length u) \<and> int (length u) \<le> to else u = [])"

fun pattern_lang :: "pattern \<Rightarrow> string set" where
  "pattern_lang (Pattern chars from to children) =
     {u @ v | u v. repeats chars from to u \<and> (if children = [] then v = [] else \<exists>c \<in> set children. v \<in> pattern_lang c)}"

text \<open>
  A pattern is decided greedily when a repetition of variable length is never followed by a
  character of its set.
\<close>

fun greedy_safe :: "pattern \<Rightarrow> bool" where
  "greedy_safe (Pattern chars from to children) \<longleftrightarrow>
     list_all greedy_safe children \<and>
     (to > 0 \<and> from \<noteq> to \<longrightarrow> (\<forall>c \<in> set children. \<forall>v \<in> pattern_lang c. v = [] \<or> hd v \<notin> set chars))"

fun pattern_wf :: "pattern \<Rightarrow> bool" where
  "pattern_wf (Pattern chars from to children) \<longleftrightarrow> from \<le> to \<and> list_all pattern_wf children"

text \<open>The matcher on the text ahead: what the greedy repetition takes and what it leaves.\<close>

definition greedy_part :: "string \<Rightarrow> int \<Rightarrow> string \<Rightarrow> string" where
  "greedy_part chars to t = (if to > 0 then take (nat to) (takeWhile (\<lambda>c. c \<in> set chars) t) else [])"

lemma greedy_part_prefix: "t = greedy_part chars to t @ drop (length (greedy_part chars to t)) t"
proof -
  obtain rest where "t = takeWhile (\<lambda>c. c \<in> set chars) t @ rest" by (metis takeWhile_dropWhile_id)
  then obtain rest' where "t = greedy_part chars to t @ rest'"
    by (cases "to > 0") (auto simp: greedy_part_def, metis append_take_drop_id append.assoc)
  then show ?thesis by (metis append_eq_conv_conj)
qed

lemma matches_at_ahead:
  assumes "pos \<le> length s"
  shows "matches_at (Pattern chars from to children) s pos \<longleftrightarrow>
    (to > 0 \<longrightarrow> from \<le> int (length (takeWhile (\<lambda>c. c \<in> set chars) (drop pos s)))) \<and>
    (let pos' = pos + length (greedy_part chars to (drop pos s)) in
     pos' \<le> length s \<and> (if children = [] then drop pos' s = [] else \<exists>c \<in> set children. matches_at c s pos'))"
proof -
  let ?run = "takeWhile (\<lambda>c. c \<in> set chars) (drop pos s)"
  let ?pos = "pos + length (greedy_part chars to (drop pos s))"
  have len: "length ?run \<le> length s - pos" using length_takeWhile_le [of "\<lambda>c. c \<in> set chars" "drop pos s"] by simp
  then have "?pos \<le> length s" using assms by (auto simp: greedy_part_def)
  moreover have "?pos = (if to > 0 then pos + nat (if int (length ?run) > to then to else int (length ?run)) else pos)"
    by (auto simp: greedy_part_def)
  ultimately show ?thesis
    by (auto simp: pattern_greedyMatch_def Let_def list_ex_iff not_less)
qed

text \<open>A pattern never matches a text outside its language.\<close>

lemma matches_at_sound: "pattern_wf p \<Longrightarrow> matches_at p s pos \<Longrightarrow> pos \<le> length s \<Longrightarrow> drop pos s \<in> pattern_lang p"
proof (induction p arbitrary: pos)
  case (Pattern chars lo hi children)
  let ?u = "greedy_part chars hi (drop pos s)"
  let ?pos = "pos + length ?u"
  note ahead = Pattern.prems(2) [unfolded matches_at_ahead [OF Pattern.prems(3)] Let_def]
  have "set ?u \<subseteq> set chars" by (auto simp: greedy_part_def dest!: in_set_takeD set_takeWhileD)
  then have rep: "repeats chars lo hi ?u"
    using ahead Pattern.prems(1) by (auto simp: repeats_def greedy_part_def)
  have "if children = [] then drop ?pos s = [] else \<exists>c \<in> set children. drop ?pos s \<in> pattern_lang c"
  proof (cases "children = []")
    case False
    with ahead obtain c where "c \<in> set children" "matches_at c s ?pos" "?pos \<le> length s" by auto
    with Pattern.IH [of c ?pos] Pattern.prems(1) False show ?thesis by (auto simp: list_all_iff)
  qed (use ahead in simp)
  moreover have "drop pos s = ?u @ drop ?pos s" using greedy_part_prefix [of "drop pos s" chars hi] by (simp add: add.commute)
  ultimately show ?case using rep unfolding pattern_lang.simps by blast
qed

text \<open>And when greedy repetition is safe it matches every text of it.\<close>

lemma greedy_part_exact:
  assumes "repeats chars from to u" "from = to \<or> v = [] \<or> hd v \<notin> set chars"
  shows "greedy_part chars to (u @ v) = u"
proof (cases "to > 0")
  case True
  with assms(1) have u: "set u \<subseteq> set chars" "from \<le> int (length u)" "length u \<le> nat to" by (simp_all add: repeats_def nat_le_iff le_nat_iff)
  then have run: "takeWhile (\<lambda>c. c \<in> set chars) (u @ v) = u @ takeWhile (\<lambda>c. c \<in> set chars) v"
    by (simp add: takeWhile_append subset_eq)
  show ?thesis
  proof (cases "from = to")
    case True
    then have "length u = nat to" using u by simp
    then show ?thesis using \<open>to > 0\<close> run by (simp add: greedy_part_def)
  next
    case False
    then have "takeWhile (\<lambda>c. c \<in> set chars) v = []" using assms(2) by (cases v) auto
    then show ?thesis using \<open>to > 0\<close> run u(3) by (simp add: greedy_part_def)
  qed
next
  case False
  then show ?thesis using assms(1) by (simp add: greedy_part_def repeats_def)
qed

lemma matches_at_complete:
  "greedy_safe p \<Longrightarrow> drop pos s \<in> pattern_lang p \<Longrightarrow> pos \<le> length s \<Longrightarrow> matches_at p s pos"
proof (induction p arbitrary: pos)
  case (Pattern chars lo hi children)
  obtain u v where uv: "drop pos s = u @ v" "repeats chars lo hi u" "if children = [] then v = [] else \<exists>c \<in> set children. v \<in> pattern_lang c"
    using Pattern.prems(2) by auto
  have "lo = hi \<or> v = [] \<or> hd v \<notin> set chars \<or> \<not> hi > 0"
    using uv(3) Pattern.prems(1) by (auto split: if_splits)
  then have part: "greedy_part chars hi (drop pos s) = u"
    using greedy_part_exact [OF uv(2), of v] uv(1,2) by (auto simp: greedy_part_def repeats_def)
  have "pos + length u \<le> length s" using arg_cong [OF uv(1), of length] Pattern.prems(3) by simp
  moreover have "drop (pos + length u) s = v" using uv(1) by (metis append_eq_conv_conj drop_drop add.commute)
  moreover have "lo \<le> int (length (takeWhile (\<lambda>c. c \<in> set chars) (drop pos s)))" if "hi > 0"
    using that uv(1,2) by (auto simp: repeats_def takeWhile_append subset_eq)
  moreover have "\<exists>c \<in> set children. matches_at c s (pos + length u)" if ne: "children \<noteq> []"
  proof -
    obtain c where c: "c \<in> set children" "v \<in> pattern_lang c" using ne uv(3) by auto
    then have "matches_at c s (pos + length u)"
      using Pattern.IH [of c "pos + length u"] Pattern.prems(1) calculation(1,2) by (simp add: list_all_iff)
    with c show ?thesis by blast
  qed
  ultimately show ?case
    unfolding matches_at_ahead [OF Pattern.prems(3)] part Let_def using uv(3) by simp
qed

lemma scanCounts_ordered: "pattern_scanCounts s pos = Some ((m, n), pos') \<Longrightarrow> m \<le> n"
  by (auto simp: pattern_scanCounts_def Let_def INT_MAX_def split: if_splits prod.splits list.splits option.splits)

lemma collect_Some: "collect xs = Some ys \<Longrightarrow> y \<in> set ys \<Longrightarrow> Some y \<in> set xs"
  by (induction xs arbitrary: ys) (auto split: option.splits)

lemma parse_pattern_wf: "parse_pattern s = Some p \<Longrightarrow> pattern_wf p"
proof (induction s arbitrary: p rule: parse_pattern.induct)
  case (1 s0)
  let ?s = "remove_spaces s0"
  obtain opened firstClose seps where loop: "paren_loop ?s [0..<length ?s] 0 (- 1) [] = Some (opened, firstClose, seps)" "opened = 0"
    using "1.prems" by (subst (asm) parse_pattern.simps) (auto simp: Let_def split: option.splits if_splits)
  note IH = "1.IH" [OF refl loop(1) refl refl]
  let ?paren = "seps = [] \<and> firstClose + 1 = int (length ?s) \<and> pattern_isCommandChar ?s 0 (CHR ''('') \<and> pattern_isCommandChar ?s (length ?s - 1) (CHR '')'')"
  note result = "1.prems" [unfolded parse_pattern.simps [of s0] Let_def loop option.case prod.case]
  consider "?paren" | "\<not> ?paren" "seps \<noteq> []" | "\<not> ?paren" "seps = []" by blast
  then show ?case
  proof cases
    case 1
    with result IH(1) loop(2) show ?thesis by (auto simp del: One_nat_def)
  next
    case 2
    with result obtain ps where ps: "collect (map parse_pattern (split_at ?s 0 (seps @ [length ?s]))) = Some ps" "p = Pattern [] 0 0 ps"
      by (auto simp: loop(2))
    have "pattern_wf q" if q: "q \<in> set ps" for q
    proof -
      obtain part where "part \<in> set (split_at ?s 0 (seps @ [length ?s]))" "parse_pattern part = Some q" using collect_Some [OF ps(1) q] by auto
      then show ?thesis using IH(2) 2 loop(2) by blast
    qed
    then show ?thesis using ps(2) by (simp add: list_all_iff)
  next
    case 3
    then obtain chars pos m n pos' where scan: "pattern_scanCharSet ?s 0 = Some (chars, pos)" "pattern_scanCounts ?s pos = Some ((m, n), pos')"
      "(if pos' < length ?s then map_option (\<lambda>p. Pattern chars m n [p]) (parse_pattern (drop pos' ?s)) else Some (Pattern chars m n [])) = Some p"
      using result by (auto simp: loop(2) split: option.splits)
    have "m \<le> n" by (rule scanCounts_ordered [OF scan(2)])
    moreover have "pattern_wf q" if "pos' < length ?s" "parse_pattern (drop pos' ?s) = Some q" for q
      using IH(3) [OF _ 3(1) _ scan(1) refl scan(2) refl refl that] loop(2) 3(2) by blast
    ultimately show ?thesis using scan(3) by (auto split: if_splits)
  qed
qed

text \<open>
  C36. A pattern decides its language: whatever text the constructor accepts, a match is always a text
  of the regular language of the pattern, and when no repetition of variable length is followed by
  a character of its own set, every text of the language is matched.
\<close>

theorem pattern_matches_language:
  assumes "parse_pattern text_of_pattern = Some p"
  shows "(pattern_matches p s \<longrightarrow> s \<in> pattern_lang p) \<and> (greedy_safe p \<longrightarrow> pattern_matches p s \<longleftrightarrow> s \<in> pattern_lang p)"
  using matches_at_sound [OF parse_pattern_wf [OF assms], of s 0] matches_at_complete [of p 0 s]
  by (auto simp: pattern_matches_def)

section \<open>Negated sets\<close>

text \<open>A pending character is never lost.\<close>

lemma char_range_first: "\<not> schar d < schar c \<Longrightarrow> c \<in> set (char_range c d)"
  unfolding char_range_def by (auto intro!: image_eqI [where x = "schar c"])

lemma set_loop_keeps:
  "set_loop s pos prev result = Some (r, p, pos') \<Longrightarrow> set result \<subseteq> set r \<and> (prev \<noteq> CHR 0x00 \<longrightarrow> prev \<in> set r \<or> prev = p)"
proof (induction s pos prev result rule: set_loop.induct)
  case (1 s pos prev result)
  then show ?case
    by (subst (asm) (4) set_loop.simps) (auto split: if_splits prod.splits intro: subsetD [OF _ char_range_first])
qed

text \<open>
  In a negated set the caret itself is one of the excluded characters, and so is the byte 0xFF: the
  constructor notices the caret but does not skip it, and the complement stops at 254.
\<close>

theorem negated_set_excludes_caret:
  assumes "pattern_isCommandChar s pos (CHR ''['')" "pattern_isCommandChar s (pos + 1) (CHR ''^'')"
    and "pattern_scanCharSet s pos = Some (chars, pos')"
  shows "CHR ''^'' \<notin> set chars \<and> CHR 0xFF \<notin> set chars"
proof -
  have at: "pos + 1 < length s" "s ! (pos + 1) = CHR ''^''" using assms(2) by (auto simp: pattern_isCommandChar_def split: if_splits)
  then have "pattern_getChar s (pos + 1) = (CHR ''^'', pos + 2)"
    by (simp add: pattern_getChar_def pattern_isSlash_def char_at_def Let_def)
  moreover have "\<not> pattern_isCommandChar s (pos + 1) (CHR '']'')" using at by (simp add: pattern_isCommandChar_def)
  ultimately have "set_loop s (pos + 1) (CHR 0x00) [] = set_loop s (pos + 2) (CHR ''^'') []"
    using at by (subst set_loop.simps) simp
  with assms obtain r p pos1 where loop: "set_loop s (pos + 2) (CHR ''^'') [] = Some (r, p, pos1)"
    and chars: "\<forall>c \<in> set chars. c \<in> set (map char_of [0..<255 :: nat]) \<and> c \<notin> set r \<and> (p \<noteq> CHR 0x00 \<longrightarrow> c \<noteq> p)"
    by (auto simp: pattern_scanCharSet_def Let_def split: if_splits option.splits)
  have "CHR ''^'' \<in> set r \<or> CHR ''^'' = p" using set_loop_keeps [OF loop] by simp
  moreover have "CHR 0xFF \<notin> set (map char_of [0..<255 :: nat])"
  proof
    assume "CHR 0xFF \<in> set (map char_of [0..<255 :: nat])"
    then obtain n :: nat where "n < 255" "char_of n = CHR 0xFF" by auto
    then have "(of_char (char_of n) :: nat) = 255" by simp
    with \<open>n < 255\<close> show False by simp
  qed
  ultimately show ?thesis using chars by fastforce
qed

theorem negated_set_excludes_caret_witness:
  "\<exists>chars pos'. pattern_scanCharSet ''[^a]'' 0 = Some (chars, pos') \<and> CHR ''^'' \<notin> set chars"
proof -
  have "\<exists>chars pos'. pattern_scanCharSet ''[^a]'' 0 = Some (chars, pos')"
    by (simp add: pattern_scanCharSet_def pattern_isCommandChar_def set_loop.simps pattern_getChar_def pattern_isSlash_def char_at_def Let_def)
  moreover have "pattern_isCommandChar ''[^a]'' 0 (CHR ''['')" "pattern_isCommandChar ''[^a]'' (0 + 1) (CHR ''^'')"
    by (simp_all add: pattern_isCommandChar_def)
  ultimately show ?thesis using negated_set_excludes_caret by blast
qed

section \<open>The integers of \<open>hcmp\<close>\<close>

lemma digit_cases: "is_digit c \<longleftrightarrow> c \<in> set ''0123456789''"
proof
  assume "is_digit c"
  then have "(of_char c :: nat) \<in> set [48..<58]" unfolding is_digit_def set_upt atLeastLessThan_iff by linarith
  then have "char_of (of_char c :: nat) \<in> set (map char_of [48..<58 :: nat])" by (metis image_eqI image_set)
  moreover have "map char_of [48..<58 :: nat] = ''0123456789''" by code_simp
  ultimately show "c \<in> set ''0123456789''" by simp
qed (auto simp: is_digit_def)

lemma repeats_zero: "repeats ''0'' 1 1 u \<longleftrightarrow> u = ''0''"
  by (cases u) (auto simp: repeats_def)

lemma repeats_nonzero: "repeats ''123456789'' 1 1 u \<longleftrightarrow> (\<exists>d. u = [d] \<and> is_digit d \<and> d \<noteq> CHR ''0'')"
  by (cases u) (auto simp: repeats_def digit_cases)

lemma repeats_sign: "repeats ''-'' 0 1 u \<longleftrightarrow> u = [] \<or> u = ''-''"
  by (cases u) (auto simp: repeats_def le_Suc_eq)

lemma repeats_digits: "repeats ''0123456789'' 0 INT_MAX u \<longleftrightarrow> (\<forall>c \<in> set u. is_digit c) \<and> int (length u) \<le> INT_MAX"
  by (auto simp: repeats_def INT_MAX_def digit_cases subset_eq)

lemma lang_end: "pattern_lang (Pattern chars m n []) = {u. repeats chars m n u}"
  by auto

lemma lang_seq: "pattern_lang (Pattern chars m n [p]) = {u @ v | u v. repeats chars m n u \<and> v \<in> pattern_lang p}"
  by simp

lemma lang_alternatives: "ps \<noteq> [] \<Longrightarrow> pattern_lang (Pattern [] 0 0 ps) = (\<Union>p \<in> set ps. pattern_lang p)"
  by (auto simp: repeats_def)

declare pattern_lang.simps [simp del]

text \<open>A non-zero number without its sign, and with it.\<close>

definition magnitude :: pattern where
  "magnitude = Pattern ''123456789'' 1 1 [Pattern ''0123456789'' 0 INT_MAX []]"

definition pnum_pattern :: pattern where
  "pnum_pattern = Pattern [] 0 0 [Pattern ''0'' 1 1 [], Pattern ''-'' 0 1 [magnitude]]"

definition digits_magnitude :: "string \<Rightarrow> bool" where
  "digits_magnitude v \<longleftrightarrow> v \<noteq> [] \<and> hd v \<noteq> CHR ''0'' \<and> (\<forall>c \<in> set v. is_digit c)"

lemma split_first: "(\<exists>u w. v = u @ w \<and> (\<exists>d. u = [d] \<and> P d) \<and> Q w) \<longleftrightarrow> (\<exists>d w. v = d # w \<and> P d \<and> Q w)"
proof
  assume "\<exists>d w. v = d # w \<and> P d \<and> Q w"
  then obtain d w where "v = [d] @ w" "P d" "Q w" by auto
  then show "\<exists>u w. v = u @ w \<and> (\<exists>d. u = [d] \<and> P d) \<and> Q w" by blast
qed auto

lemma magnitude_lang: "v \<in> pattern_lang magnitude \<longleftrightarrow> digits_magnitude v \<and> int (length v) \<le> INT_MAX + 1"
proof -
  have "v \<in> pattern_lang magnitude \<longleftrightarrow>
      (\<exists>u w. v = u @ w \<and> (\<exists>d. u = [d] \<and> is_digit d \<and> d \<noteq> CHR ''0'') \<and> (\<forall>c \<in> set w. is_digit c) \<and> int (length w) \<le> INT_MAX)"
    unfolding magnitude_def lang_seq lang_end repeats_nonzero repeats_digits by simp
  also have "\<dots> \<longleftrightarrow> (\<exists>d w. v = d # w \<and> is_digit d \<and> d \<noteq> CHR ''0'' \<and> (\<forall>c \<in> set w. is_digit c) \<and> int (length w) \<le> INT_MAX)"
    using split_first [of v "\<lambda>d. is_digit d \<and> d \<noteq> CHR ''0''" "\<lambda>w. (\<forall>c \<in> set w. is_digit c) \<and> int (length w) \<le> INT_MAX"]
    by (simp only: conj_assoc)
  finally show ?thesis by (cases v) (auto simp: digits_magnitude_def)
qed

lemma pnum_lang_cases:
  "w \<in> pattern_lang pnum_pattern \<longleftrightarrow>
     w = ''0'' \<or> (\<exists>sgn v. w = sgn @ v \<and> (sgn = [] \<or> sgn = ''-'') \<and> v \<in> pattern_lang magnitude)"
  unfolding pnum_pattern_def by (subst lang_alternatives) (auto simp: lang_seq lang_end repeats_zero repeats_sign)

lemma pnum_safe: "greedy_safe pnum_pattern"
proof -
  have "v = [] \<or> hd v \<notin> set ''-''" if "v \<in> pattern_lang magnitude" for v
  proof -
    have "is_digit (hd v)" using that hd_in_set [of v] by (auto simp: magnitude_lang digits_magnitude_def)
    then show ?thesis by (auto simp: is_digit_def)
  qed
  moreover have "greedy_safe magnitude" by (simp add: magnitude_def)
  ultimately show ?thesis by (simp add: pnum_pattern_def)
qed

lemma pnum_lang:
  assumes "int (length w) \<le> INT_MAX"
  shows "w \<in> pattern_lang pnum_pattern \<longleftrightarrow> (\<exists>i. w = int_to_string i)"
proof
  assume "w \<in> pattern_lang pnum_pattern"
  then consider "w = ''0''" | sgn v where "w = sgn @ v" "sgn = [] \<or> sgn = ''-''" "digits_magnitude v"
    unfolding pnum_lang_cases magnitude_lang by blast
  then show "\<exists>i. w = int_to_string i"
  proof cases
    case 1
    then show ?thesis by (intro exI [of _ 0]) (simp add: int_to_string_def nat_to_string_zero)
  next
    case 2
    let ?n = "digits_value v"
    have n: "nat_to_string ?n = v" using 2(3) by (intro nat_to_string_value) (simp_all add: digits_magnitude_def)
    have "?n \<noteq> 0"
    proof
      assume "?n = 0"
      then have "v = ''0''" using n nat_to_string_zero by simp
      with 2(3) show False by (simp add: digits_magnitude_def)
    qed
    with 2 n show ?thesis by (intro exI [of _ "if sgn = [] then int ?n else - int ?n"]) (auto simp: int_to_string_def)
  qed
next
  assume "\<exists>i. w = int_to_string i"
  then obtain i where i: "w = int_to_string i" by blast
  have digits: "digits_magnitude (nat_to_string n)" if "n \<noteq> 0" for n
    using nat_to_string_digits nat_to_string_hd [OF that] by (simp add: digits_magnitude_def)
  consider "i = 0" | "0 < i" | "i < 0" by linarith
  then show "w \<in> pattern_lang pnum_pattern"
  proof cases
    case 1
    then show ?thesis using i by (simp add: pnum_lang_cases int_to_string_def nat_to_string_zero)
  next
    case 2
    then have "w = [] @ nat_to_string (nat i)" "digits_magnitude (nat_to_string (nat i))" using i digits by (simp_all add: int_to_string_def)
    with assms show ?thesis unfolding pnum_lang_cases magnitude_lang by force
  next
    case 3
    then have "w = ''-'' @ nat_to_string (nat (- i))" "digits_magnitude (nat_to_string (nat (- i)))" using i digits by (simp_all add: int_to_string_def)
    with assms show ?thesis unfolding pnum_lang_cases magnitude_lang by force
  qed
qed

text \<open>The pattern of \<open>hcmp\<close>, as its constructor parses it.\<close>

definition pnum_text :: string where
  "pnum_text = ''0|-?[1-9][0-9]*''"

lemma pnum_parsed: "parse_pattern pnum_text = Some pnum_pattern"
  by code_simp

lemma pnum_matches:
  assumes "int (length w) \<le> INT_MAX"
  shows "pattern_matches pnum_pattern w \<longleftrightarrow> (\<exists>i. w = int_to_string i)"
  using matches_at_sound [OF parse_pattern_wf [OF pnum_parsed], of w 0] matches_at_complete [OF pnum_safe, of 0 w] pnum_lang [OF assms]
  by (auto simp: pattern_matches_def)

theorem pattern_matches_language_witness:
  "''-12'' \<in> pattern_lang pnum_pattern \<and> \<not> pattern_matches pnum_pattern ''-012''"
proof -
  have "pattern_matches pnum_pattern ''-12''" by code_simp
  moreover have "\<not> pattern_matches pnum_pattern ''-012''" by code_simp
  ultimately show ?thesis using pattern_matches_language [OF pnum_parsed] by blast
qed

end
