(* ===== verification/HugeCheckers.thy ===== *)
theory HugeCheckers
  imports IntegerCheckers TestlibPattern
begin

text \<open>
  \<open>checker/src/hcmp.cpp\<close>, which compares two integers of any size as texts: they must match a pattern,
  and that pattern describes exactly the decimal texts without superfluous zeroes.
\<close>

definition isNumeric :: "string \<Rightarrow> bool" where
  "isNumeric p = (case parse_pattern pnum_text of None \<Rightarrow> False | Some pnum \<Rightarrow> pattern_matches pnum p)"

definition hcmp :: "string option \<Rightarrow> string option \<Rightarrow> int" where
  "hcmp output answer =
     (case bind_checked (registerTestlibCmd output answer) (\<lambda>(ouf, ans).
             bind_checked (readWord ans) (\<lambda>(ja, ans').
               bind_checked (readWord ouf) (\<lambda>(pa, ouf').
                 if \<not> isNumeric ja then Inl (quitf ouf' R_fail)
                 else if \<not> fst (seekEof ans') then Inl (quitf ouf' R_fail)
                 else if \<not> isNumeric pa then Inl (quitf ouf' R_pe)
                 else if ja \<noteq> pa then Inl (quitf ouf' R_wa)
                 else Inr (quitf ouf' R_ok)))) of
        Inl code \<Rightarrow> code
      | Inr code \<Rightarrow> code)"

lemma isNumeric_iff: "int (length w) \<le> INT_MAX \<Longrightarrow> isNumeric w \<longleftrightarrow> (\<exists>i. w = int_to_string i)"
  by (simp add: isNumeric_def pnum_parsed pnum_matches)

lemma readWord_no_token:
  assumes "shows_text m t s" "no_FF t" "tokens t = []"
  shows "readWord s = Inl (stream_quit m R_unexpected_eof)"
  using assms(1)
proof (cases rule: shows_text_cases)
  case 1
  have "dropWhile separator t = []" using assms(3) by (simp add: tokens_empty_iff)
  then have "skip_blank_cells (map Byte t) = []" by (simp add: skip_blank_text separator_def [abs_def])
  with 1 show ?thesis by (simp add: readWord_def stream_of_def EOF_def)
next
  case (2 r)
  then show ?thesis by (simp add: readWord_def EOF_def)
qed

lemma first_token_length: "tokens t \<noteq> [] \<Longrightarrow> length (hd (tokens t)) \<le> length t"
proof -
  assume ne: "tokens t \<noteq> []"
  then have "dropWhile separator t \<noteq> []" unfolding tokens_empty_iff .
  then have "hd (tokens t) = takeWhile (\<lambda>c. \<not> separator c) (dropWhile separator t)"
    by (subst tokens_unfold) (simp only: Let_def if_False list.sel)
  then show ?thesis
    using length_takeWhile_le [of "\<lambda>c. \<not> separator c" "dropWhile separator t"] length_dropWhile_le [of separator t] by simp
qed

text \<open>
  \<open>hcmp\<close> decides equality of integers of any size: for an answer that is one integer, it accepts
  exactly the outputs whose only token is that integer in canonical form; another integer first is a
  wrong answer, and everything else is a presentation error.
\<close>

theorem hcmp_decides:
  assumes "no_FF a" "no_FF b" "tokens a = [int_to_string i]" "int (length a) \<le> INT_MAX" "int (length b) \<le> INT_MAX"
  shows "hcmp (Some b) (Some a) =
    (if tokens b = [int_to_string i] then 0
     else if \<exists>j. j \<noteq> i \<and> tokens b \<noteq> [] \<and> hd (tokens b) = int_to_string j then 1 else 2)"
proof -
  let ?ans = "text_stream M_answer a" and ?ouf = "text_stream M_output b"
  obtain ans' a' where a': "readWord ?ans = Inr (int_to_string i, ans')" "shows_text M_answer a' ans'" "tokens a' = []" "no_FF a'"
    using readWord_shows [OF shows_text_whole assms(1)] assms(3) by (metis list.distinct(1) list.sel(1,3))
  have a_num: "isNumeric (int_to_string i)"
    using first_token_length [of a] assms(3,4) isNumeric_iff [of "int_to_string i"] by auto
  have a_end: "fst (seekEof ans')" using seekEof_shows [OF a'(2,4)] a'(3) by (metis fst_conv)
  show ?thesis
  proof (cases "tokens b = []")
    case True
    then have "hcmp (Some b) (Some a) = 2"
      using readWord_no_token [OF shows_text_whole assms(2)] a'(1)
      by (simp add: hcmp_def register_texts stream_quit_def)
    with True show ?thesis by simp
  next
    case False
    then obtain w ws where w: "tokens b = w # ws" by (cases "tokens b") auto
    obtain ouf' b' where b': "readWord ?ouf = Inr (w, ouf')" "shows_text M_output b' ouf'" "tokens b' = ws" "no_FF b'"
      using readWord_shows [OF shows_text_whole assms(2) False] w by (metis list.sel(1,3))
    have "int (length w) \<le> INT_MAX" using first_token_length [OF False] w assms(5) by simp
    then have w_num: "isNumeric w \<longleftrightarrow> (\<exists>j. w = int_to_string j)" by (rule isNumeric_iff)
    have "hcmp (Some b) (Some a) = (if \<not> isNumeric w then 2 else if int_to_string i \<noteq> w then 1 else if ws = [] then 0 else 2)"
      using a'(1) b' a_num a_end quitf_shows [OF b'(2,4)] by (simp add: hcmp_def register_texts)
    then show ?thesis using w w_num by auto
  qed
qed

theorem hcmp_decides_witness:
  "hcmp (Some '' 12 '') (Some ''12'') = 0 \<and> hcmp (Some ''012'') (Some ''12'') = 2"
proof -
  have "tokens ''12'' = [int_to_string 12]" "tokens '' 12 '' = [int_to_string 12]" "tokens ''012'' = [''012'']" by code_simp+
  moreover have "\<not> isNumeric ''012''" by code_simp
  then have "''012'' \<noteq> int_to_string j" for j using isNumeric_iff [of "''012''"] by (auto simp: INT_MAX_def)
  ultimately show ?thesis
    using hcmp_decides [of "''12''" "'' 12 ''" 12] hcmp_decides [of "''12''" "''012''" 12]
    by (simp add: no_FF_def INT_MAX_def)
qed

end
