(* ===== verification/DoubleTokens.thy ===== *)
theory DoubleTokens
  imports Doubles IntegerCheckers
begin

text \<open>
  The reading of a \<open>double\<close> in \<open>checker/src/testlib.h\<close>: the character counts and the \<open>sscanf\<close> of
  \<open>stringToDouble\<close>, and \<open>readReal\<close>. The texts that are accepted are the decimal notations, with the
  nearest \<open>double\<close> as their value.
\<close>

section \<open>Numbers\<close>

text \<open>A \<open>double\<close> is no number or a number; the infinities are the powers of two that no finite one reaches.\<close>

datatype double = NaN | Number rat

definition infinity :: rat where "infinity = pow_int 2 1024"

fun isNaN :: "double \<Rightarrow> bool" where
  "isNaN NaN \<longleftrightarrow> True"
| "isNaN (Number r) \<longleftrightarrow> False"

definition isInfinite :: "rat \<Rightarrow> bool" where
  "isInfinite ra \<longleftrightarrow> ra > fround (10 ^ 100) \<or> ra < - fround (10 ^ 100)"

section \<open>Reading a number\<close>

definition is_sign :: "char \<Rightarrow> bool" where
  "is_sign c \<longleftrightarrow> c = CHR ''-'' \<or> c = CHR ''+''"

definition take_sign :: "string \<Rightarrow> string" where
  "take_sign s = (if s \<noteq> [] \<and> is_sign (hd s) then [hd s] else [])"

definition drop_sign :: "string \<Rightarrow> string" where
  "drop_sign s = (if s \<noteq> [] \<and> is_sign (hd s) then tl s else s)"

text \<open>
  The conversion \<open>%lf\<close> on a text of digits, signs, points and exponent letters, as the C library of the
  image that the checkers are built in does it (the GNU library): the input item is the longest prefix
  that begins a decimal notation. The conversion fails when the item has no digit, and an exponent
  whose digits are missing counts as 0: \<open>1e\<close> and \<open>1e+\<close> are items with the value 1. The result is the
  item and the rest of the text.
\<close>

definition scan_exponent :: "string \<Rightarrow> string \<times> string" where
  "scan_exponent s =
     (if s \<noteq> [] \<and> exponent_char (hd s) then
        let u = drop_sign (tl s) in (hd s # take_sign (tl s) @ takeWhile is_digit u, dropWhile is_digit u)
      else ([], s))"

definition sscanf_lf :: "string \<Rightarrow> (string \<times> string) option" where
  "sscanf_lf s =
     (let t = drop_sign s; whole = takeWhile is_digit t; u = dropWhile is_digit t;
          point = (if u \<noteq> [] \<and> hd u = CHR ''.'' then ''.'' else []);
          v = (if u \<noteq> [] \<and> hd u = CHR ''.'' then tl u else u);
          fraction = (if point = [] then [] else takeWhile is_digit v);
          w = (if point = [] then v else dropWhile is_digit v)
      in if whole = [] \<and> fraction = [] then None
         else
           case scan_exponent w of
             (ex, rest) \<Rightarrow> Some (take_sign s @ whole @ point @ fraction @ ex, rest))"

text \<open>\<open>sscanf(buffer, "%lf%s", &retval, suffix)\<close>: the number of conversions, the value and the suffix.\<close>

definition sscanf_lf_s :: "string \<Rightarrow> nat \<times> rat \<times> string" where
  "sscanf_lf_s buffer =
     (case sscanf_lf buffer of
        None \<Rightarrow> (0, 0, [])
      | Some (item, rest) \<Rightarrow> (if rest = [] then 1 else 2, fround (decimal_value item), rest))"

definition double_char :: "char \<Rightarrow> bool" where
  "double_char c \<longleftrightarrow> is_digit c \<or> c = CHR ''.'' \<or> exponent_char c \<or> is_sign c"

definition count_chars :: "(char \<Rightarrow> bool) \<Rightarrow> string \<Rightarrow> nat" where
  "count_chars P s = length (filter P s)"

definition stringToDouble :: "TMode \<Rightarrow> string \<Rightarrow> double checked" where
  "stringToDouble m text =
     (let buffer = c_str text; pe = Inl (stream_quit m R_pe);
          minusCount = count_chars (\<lambda>c. c = CHR ''-'') buffer; plusCount = count_chars (\<lambda>c. c = CHR ''+'') buffer;
          decimalPointCount = count_chars (\<lambda>c. c = CHR ''.'') buffer; digitCount = count_chars is_digit buffer;
          eCount = count_chars exponent_char buffer
      in if \<not> list_all double_char buffer then pe
         else if digitCount = 0 \<or> minusCount > 2 \<or> plusCount > 2 \<or> decimalPointCount > 1 \<or> eCount > 1 then pe
         else
           case sscanf_lf_s buffer of
             (scanned, retval, sfx) \<Rightarrow>
               if scanned = 1 \<or> scanned = 2 \<and> length sfx = 0 then
                 (if isNaN (Number retval) \<or> isInfinite retval then pe else Inr (Number retval))
               else pe)"

definition readReal :: "InStream \<Rightarrow> (double \<times> InStream) checked" where
  "readReal s0 =
     (case seekEof s0 of
        (True, s) \<Rightarrow> Inl (stream_quit (is_mode s) R_unexpected_eof)
      | (False, s) \<Rightarrow>
          bind_checked (readWord s) (\<lambda>(w, s').
            bind_checked (stringToDouble (is_mode s) w) (\<lambda>v. Inr (v, s'))))"

definition readDouble :: "InStream \<Rightarrow> (double \<times> InStream) checked" where
  "readDouble s = readReal s"

section \<open>The texts that are read\<close>

definition digits :: "string \<Rightarrow> bool" where
  "digits s \<longleftrightarrow> list_all is_digit s"

definition sign_text :: "string \<Rightarrow> bool" where
  "sign_text s \<longleftrightarrow> s = [] \<or> (\<exists>c. s = [c] \<and> is_sign c)"

definition exponent_text :: "string \<Rightarrow> bool" where
  "exponent_text s \<longleftrightarrow> s = [] \<or> (\<exists>c sg ds. s = c # sg @ ds \<and> exponent_char c \<and> sign_text sg \<and> digits ds)"

text \<open>
  A decimal notation as the library takes it: an optional sign, digits with an optional point among or
  around them, and an optional exponent, whose digits may be missing.
\<close>

definition decimal_text :: "string \<Rightarrow> bool" where
  "decimal_text s \<longleftrightarrow>
     (\<exists>sg whole fraction ex. sign_text sg \<and> digits whole \<and> digits fraction \<and> exponent_text ex \<and> whole @ fraction \<noteq> [] \<and>
        (s = sg @ whole @ ex \<and> fraction = [] \<or> s = sg @ whole @ ''.'' @ fraction @ ex))"

lemma char_kinds:
  "is_digit c \<Longrightarrow> \<not> is_sign c \<and> \<not> exponent_char c \<and> c \<noteq> CHR ''.''"
  "exponent_char c \<Longrightarrow> \<not> is_sign c \<and> \<not> is_digit c \<and> c \<noteq> CHR ''.''"
  "is_sign c \<Longrightarrow> \<not> is_digit c \<and> \<not> exponent_char c \<and> c \<noteq> CHR ''.''"
  "\<not> is_digit (CHR ''.'')" "\<not> is_sign (CHR ''.'')" "\<not> exponent_char (CHR ''.'')"
  by (auto simp: is_digit_def is_sign_def exponent_char_def)

lemma sign_split: "take_sign s @ drop_sign s = s" "sign_text (take_sign s)"
  by (auto simp: take_sign_def drop_sign_def sign_text_def)

lemma sign_append:
  assumes "sign_text sg" "t = [] \<or> \<not> is_sign (hd t)"
  shows "take_sign (sg @ t) = sg" "drop_sign (sg @ t) = t"
  using assms by (auto simp: take_sign_def drop_sign_def sign_text_def)

lemma digits_split: "digits (takeWhile is_digit s)" "takeWhile is_digit s @ dropWhile is_digit s = s"
  by (auto simp: digits_def list_all_iff dest: set_takeWhileD)

lemma digits_append:
  assumes "digits ds" "t = [] \<or> \<not> is_digit (hd t)"
  shows "takeWhile is_digit (ds @ t) = ds" "dropWhile is_digit (ds @ t) = t"
  using assms by (cases t; simp add: digits_def list_all_iff takeWhile_append dropWhile_append)+

lemma scan_exponent_sound: "scan_exponent s = (ex, rest) \<Longrightarrow> exponent_text ex \<and> ex @ rest = s"
  using digits_split [of "drop_sign (tl s)"] sign_split [of "tl s"]
  by (auto simp: scan_exponent_def exponent_text_def Let_def split: if_splits)

lemma hd_digits: "digits ds \<Longrightarrow> ds \<noteq> [] \<Longrightarrow> is_digit (hd ds)"
  by (cases ds) (simp_all add: digits_def)

lemma scan_exponent_whole:
  assumes "exponent_text ex"
  shows "scan_exponent ex = (ex, [])"
proof (cases "ex = []")
  case False
  then obtain c sg ds where ex: "ex = c # sg @ ds" "exponent_char c" "sign_text sg" "digits ds"
    using assms unfolding exponent_text_def by blast
  have "ds = [] \<or> \<not> is_sign (hd ds)" using char_kinds(1) hd_digits [OF ex(4)] by blast
  then have u: "take_sign (sg @ ds) = sg" "drop_sign (sg @ ds) = ds" using sign_append [OF ex(3)] by simp_all
  have "takeWhile is_digit ds = ds" "dropWhile is_digit ds = []" using digits_append [OF ex(4), of "[]"] unfolding append_Nil2 by auto
  then show ?thesis unfolding ex(1) scan_exponent_def list.sel u Let_def using ex(2) by (simp only: simp_thms if_True if_False list.distinct append_Cons u)
qed (simp add: scan_exponent_def)

lemma exponent_text_hd: "exponent_text ex \<Longrightarrow> ex = [] \<or> \<not> is_digit (hd ex) \<and> hd ex \<noteq> CHR ''.'' \<and> \<not> is_sign (hd ex)"
  unfolding exponent_text_def using char_kinds(2) by auto

lemma sscanf_lf_sound:
  assumes "sscanf_lf s = Some (item, rest)"
  shows "decimal_text item \<and> item @ rest = s"
proof -
  let ?t = "drop_sign s"
  let ?whole = "takeWhile is_digit ?t" and ?u = "dropWhile is_digit ?t"
  have s: "take_sign s @ ?whole @ ?u = s" using sign_split(1) [of s] digits_split(2) [of ?t] by simp
  show ?thesis
  proof (cases "?u \<noteq> [] \<and> hd ?u = CHR ''.''")
    case True
    then have u: "?u = ''.'' @ tl ?u" by (cases ?u) auto
    let ?f = "takeWhile is_digit (tl ?u)" and ?w = "dropWhile is_digit (tl ?u)"
    from assms True obtain ex where ex: "scan_exponent ?w = (ex, rest)" "?whole @ ?f \<noteq> []"
        "item = take_sign s @ ?whole @ ''.'' @ ?f @ ex"
      by (auto simp: sscanf_lf_def Let_def split: prod.splits if_splits)
    then have "item @ rest = s" using scan_exponent_sound [OF ex(1)] digits_split(2) [of "tl ?u"] u s by simp
    then show ?thesis
      using ex scan_exponent_sound [OF ex(1)] sign_split(2) digits_split(1) unfolding decimal_text_def by blast
  next
    case False
    with assms obtain ex where ex: "scan_exponent ?u = (ex, rest)" "?whole @ [] \<noteq> []" "item = take_sign s @ ?whole @ ex"
      by (auto simp: sscanf_lf_def Let_def split: prod.splits if_splits)
    then have "item @ rest = s" using scan_exponent_sound [OF ex(1)] s by simp
    moreover have "digits []" by (simp add: digits_def)
    ultimately show ?thesis
      using ex scan_exponent_sound [OF ex(1)] sign_split(2) digits_split(1) unfolding decimal_text_def by blast
  qed
qed

lemma sscanf_lf_whole:
  assumes "decimal_text s"
  shows "sscanf_lf s = Some (s, [])"
proof -
  obtain sg whole fraction ex where parts: "sign_text sg" "digits whole" "digits fraction" "exponent_text ex" "whole @ fraction \<noteq> []"
    and s: "s = sg @ whole @ ex \<and> fraction = [] \<or> s = sg @ whole @ ''.'' @ fraction @ ex"
    using assms unfolding decimal_text_def by blast
  from s show ?thesis
  proof (elim disjE conjE)
    assume s: "s = sg @ whole @ ex" "fraction = []"
    then have "whole \<noteq> []" using parts(5) by simp
    then have t: "take_sign s = sg" "drop_sign s = whole @ ex"
      using sign_append [OF parts(1), of "whole @ ex"] hd_digits [OF parts(2)] char_kinds(1) s by auto
    have u: "takeWhile is_digit (whole @ ex) = whole" "dropWhile is_digit (whole @ ex) = ex"
      using digits_append [OF parts(2), of ex] exponent_text_hd [OF parts(4)] by blast+
    have "\<not> (ex \<noteq> [] \<and> hd ex = CHR ''.'')" using exponent_text_hd [OF parts(4)] by blast
    then show ?thesis
      unfolding sscanf_lf_def t u Let_def using \<open>whole \<noteq> []\<close> scan_exponent_whole [OF parts(4)] s(1) by auto
  next
    assume s: "s = sg @ whole @ ''.'' @ fraction @ ex"
    have "\<not> is_sign (hd (whole @ ''.''))"
    proof (cases "whole = []")
      case True
      then show ?thesis using char_kinds(5) by simp
    next
      case False
      from char_kinds(1) [OF hd_digits [OF parts(2) False]] show ?thesis using False by simp
    qed
    then have t: "take_sign s = sg" "drop_sign s = whole @ ''.'' @ fraction @ ex"
      using sign_append [OF parts(1), of "whole @ ''.'' @ fraction @ ex"] s by (cases whole; simp)+
    have u: "takeWhile is_digit (whole @ ''.'' @ fraction @ ex) = whole" "dropWhile is_digit (whole @ ''.'' @ fraction @ ex) = ''.'' @ fraction @ ex"
      using digits_append [OF parts(2), of "''.'' @ fraction @ ex"] char_kinds(4) by simp_all
    have v: "takeWhile is_digit (fraction @ ex) = fraction" "dropWhile is_digit (fraction @ ex) = ex"
      using digits_append [OF parts(3), of ex] exponent_text_hd [OF parts(4)] by blast+
    have w: "hd (''.'' @ fraction @ ex) = CHR ''.''" "tl (''.'' @ fraction @ ex) = fraction @ ex" "''.'' @ fraction @ ex \<noteq> []" by simp_all
    show ?thesis
      unfolding sscanf_lf_def t u Let_def w v if_True simp_thms using w(3) parts(5) scan_exponent_whole [OF parts(4)] s
      by (simp add: v)
  qed
qed

lemma count_chars_append [simp]: "count_chars P (s @ t) = count_chars P s + count_chars P t" "count_chars P [] = 0"
    "count_chars P (c # t) = (if P c then 1 else 0) + count_chars P t"
  by (simp_all add: count_chars_def)

lemma count_digits: "digits ds \<Longrightarrow> (\<And>c. is_digit c \<Longrightarrow> \<not> P c) \<Longrightarrow> count_chars P ds = 0"
  by (auto simp: count_chars_def digits_def list_all_iff filter_empty_conv)

lemma count_all_digits: "digits ds \<Longrightarrow> count_chars is_digit ds = length ds"
  by (simp add: count_chars_def digits_def list_all_iff)

lemma count_sign: "sign_text sg \<Longrightarrow> count_chars P sg \<le> 1" "sign_text sg \<Longrightarrow> (\<And>c. is_sign c \<Longrightarrow> \<not> P c) \<Longrightarrow> count_chars P sg = 0"
  by (auto simp: sign_text_def)

lemma exponent_counts:
  assumes "exponent_text ex"
  shows "count_chars (\<lambda>c. c = CHR ''-'') ex \<le> 1" "count_chars (\<lambda>c. c = CHR ''+'') ex \<le> 1"
    "count_chars (\<lambda>c. c = CHR ''.'') ex = 0" "count_chars exponent_char ex \<le> 1" "list_all double_char ex"
proof -
  have "count_chars (\<lambda>c. c = CHR ''-'') ex \<le> 1 \<and> count_chars (\<lambda>c. c = CHR ''+'') ex \<le> 1 \<and>
      count_chars (\<lambda>c. c = CHR ''.'') ex = 0 \<and> count_chars exponent_char ex \<le> 1 \<and> list_all double_char ex"
  proof (cases "ex = []")
    case False
    then obtain c sg ds where ex: "ex = c # sg @ ds" "exponent_char c" "sign_text sg" "digits ds"
      using assms unfolding exponent_text_def by blast
    have c: "c \<noteq> CHR ''-''" "c \<noteq> CHR ''+''" "c \<noteq> CHR ''.''" using ex(2) by (auto simp: exponent_char_def)
    have ds: "count_chars (\<lambda>c. c = CHR ''-'') ds = 0" "count_chars (\<lambda>c. c = CHR ''+'') ds = 0" "count_chars (\<lambda>c. c = CHR ''.'') ds = 0"
      "count_chars exponent_char ds = 0"
      by (rule count_digits [OF ex(4)], auto simp: is_digit_def exponent_char_def)+
    have sg: "count_chars (\<lambda>c. c = CHR ''.'') sg = 0" "count_chars exponent_char sg = 0"
      by (rule count_sign(2) [OF ex(3)], auto simp: is_sign_def exponent_char_def)+
    have "list_all double_char ex"
      using ex by (auto simp: double_char_def sign_text_def digits_def list_all_iff)
    then show ?thesis
      using c ds sg count_sign(1) [OF ex(3)] ex(1,2) by simp
  qed simp
  then show "count_chars (\<lambda>c. c = CHR ''-'') ex \<le> 1" "count_chars (\<lambda>c. c = CHR ''+'') ex \<le> 1"
    "count_chars (\<lambda>c. c = CHR ''.'') ex = 0" "count_chars exponent_char ex \<le> 1" "list_all double_char ex" by blast+
qed

lemma decimal_counts:
  assumes "decimal_text s"
  shows "list_all double_char s" "count_chars is_digit s > 0" "count_chars (\<lambda>c. c = CHR ''-'') s \<le> 2"
    "count_chars (\<lambda>c. c = CHR ''+'') s \<le> 2" "count_chars (\<lambda>c. c = CHR ''.'') s \<le> 1" "count_chars exponent_char s \<le> 1"
proof -
  obtain sg whole fraction ex where parts: "sign_text sg" "digits whole" "digits fraction" "exponent_text ex" "whole @ fraction \<noteq> []"
    and s: "s = sg @ whole @ ex \<and> fraction = [] \<or> s = sg @ whole @ ''.'' @ fraction @ ex"
    using assms unfolding decimal_text_def by blast
  note ex = exponent_counts [OF parts(4)] and sg = count_sign(1) [OF parts(1)]
  have none: "count_chars (\<lambda>c. c = CHR ''-'') ds = 0" "count_chars (\<lambda>c. c = CHR ''+'') ds = 0" "count_chars (\<lambda>c. c = CHR ''.'') ds = 0"
    "count_chars exponent_char ds = 0" if "digits ds" for ds
    by (rule count_digits [OF that], auto simp: is_digit_def exponent_char_def)+
  have sgn: "count_chars (\<lambda>c. c = CHR ''.'') sg = 0" "count_chars exponent_char sg = 0"
    by (rule count_sign(2) [OF parts(1)], auto simp: is_sign_def exponent_char_def)+
  have "list_all double_char sg" "list_all double_char whole" "list_all double_char fraction"
    using parts by (auto simp: double_char_def sign_text_def digits_def list_all_iff)
  then show "list_all double_char s" using s ex(5) by (auto simp: double_char_def)
  show "count_chars is_digit s > 0" using s parts(5) count_all_digits [OF parts(2)] count_all_digits [OF parts(3)] by auto
  show "count_chars (\<lambda>c. c = CHR ''-'') s \<le> 2" using s none [OF parts(2)] none [OF parts(3)] ex(1) sg [of "\<lambda>c. c = CHR ''-''"] by auto
  show "count_chars (\<lambda>c. c = CHR ''+'') s \<le> 2" using s none [OF parts(2)] none [OF parts(3)] ex(2) sg [of "\<lambda>c. c = CHR ''+''"] by auto
  show "count_chars (\<lambda>c. c = CHR ''.'') s \<le> 1" using s none [OF parts(2)] none [OF parts(3)] ex(3) sgn by auto
  show "count_chars exponent_char s \<le> 1" using s none [OF parts(2)] none [OF parts(3)] ex(4) sgn char_kinds(6) by auto
qed

section \<open>What is read\<close>

definition double_value :: "string \<Rightarrow> rat option" where
  "double_value s = (if decimal_text s \<and> \<not> isInfinite (fround (decimal_value s)) then Some (fround (decimal_value s)) else None)"

lemma scanned_whole: "(case sscanf_lf_s s of (scanned, retval, sfx) \<Rightarrow> scanned = 1 \<or> scanned = 2 \<and> length sfx = 0) \<longleftrightarrow> decimal_text s"
  using sscanf_lf_whole [of s] sscanf_lf_sound [of s]
  by (auto simp: sscanf_lf_s_def split: option.split prod.split)

lemma stringToDouble_value:
  "stringToDouble m w = (case double_value (c_str w) of None \<Rightarrow> Inl (stream_quit m R_pe) | Some v \<Rightarrow> Inr (Number v))"
proof (cases "decimal_text (c_str w)")
  case True
  then show ?thesis
    using decimal_counts [OF True] sscanf_lf_whole [OF True]
    by (simp add: stringToDouble_def Let_def sscanf_lf_s_def double_value_def not_less)
next
  case False
  then show ?thesis using scanned_whole [of "c_str w"]
    by (auto simp: stringToDouble_def Let_def double_value_def split: prod.split)
qed

text \<open>Bounds on the numbers that count as finite.\<close>

lemma fround_within:
  assumes "\<bar>q\<bar> \<le> B" "B \<le> 10 ^ 105"
  shows "fround q \<le> q + (B * (12 / 10 ^ 17) + 1 / 10 ^ 30)" "q - (B * (12 / 10 ^ 17) + 1 / 10 ^ 30) \<le> fround q"
proof -
  have "\<bar>q\<bar> * (12 / 10 ^ 17) \<le> B * (12 / 10 ^ 17)" using assms(1) by (rule mult_right_mono) simp
  then show "fround q \<le> q + (B * (12 / 10 ^ 17) + 1 / 10 ^ 30)" "q - (B * (12 / 10 ^ 17) + 1 / 10 ^ 30) \<le> fround q"
    using fround_error [of q] assms by linarith+
qed

lemma tens:
  "(10 :: rat) ^ 3 = 1000"
  "(10 :: rat) ^ 9 = 1000000000"
  "(10 :: rat) ^ 14 = 100000000000000"
  "(10 :: rat) ^ 15 = 1000000000000000"
  "(10 :: rat) ^ 17 = 100000000000000000"
  "(10 :: rat) ^ 18 = 1000000000000000000"
  "(10 :: rat) ^ 19 = 10000000000000000000"
  "(10 :: rat) ^ 30 = 1000000000000000000000000000000"
  by simp_all

lemma finite_bound: "\<not> isInfinite r \<Longrightarrow> \<bar>r\<bar> \<le> 2 * 10 ^ 100"
proof -
  assume r: "\<not> isInfinite r"
  define c :: rat where "c = 10 ^ 100"
  have "0 \<le> c" "1 / 10 ^ 30 \<le> c / 2" "c * (12 / 10 ^ 17) \<le> c / 2" by (simp_all add: c_def)
  moreover have "\<bar>fround c - c\<bar> \<le> c * (12 / 10 ^ 17) + 1 / 10 ^ 30" using fround_error [of c] by (simp add: c_def)
  ultimately have "fround c \<le> 2 * c" unfolding abs_le_iff by linarith
  with r show ?thesis unfolding isInfinite_def c_def [symmetric] by linarith
qed

lemma small_finite: "\<bar>q\<bar> \<le> 10 ^ 99 \<Longrightarrow> \<not> isInfinite (fround q)"
proof -
  assume q: "\<bar>q\<bar> \<le> 10 ^ 99"
  then have "fround q \<le> fround (10 ^ 100)" "fround (- (10 ^ 100)) \<le> fround q" by (auto intro!: fround_mono simp: abs_le_iff)
  then show ?thesis by (simp add: isInfinite_def fround_minus not_less)
qed

lemma finite_value_bound:
  assumes "\<not> isInfinite (fround q)"
  shows "\<bar>q\<bar> \<le> 10 ^ 105"
proof (rule ccontr)
  assume "\<not> \<bar>q\<bar> \<le> 10 ^ 105"
  then have "fround (10 ^ 105) \<le> \<bar>fround q\<bar>"
    using fround_mono [of "10 ^ 105" q] fround_mono [of "10 ^ 105" "- q"] fround_minus [of q] by linarith
  moreover have "(10 ^ 105 :: rat) / 2 \<le> fround (10 ^ 105)" using fround_within(2) [of "10 ^ 105" "10 ^ 105"] by simp
  moreover have "(2 * 10 ^ 100 :: rat) < 10 ^ 105 / 2" by simp
  ultimately show False using finite_bound [OF assms] by linarith
qed



section \<open>Reading from a stream\<close>

lemma readDouble_shows:
  assumes "shows_text m t s" "no_FF t" "tokens t \<noteq> []" "CHR 0x00 \<notin> set (hd (tokens t))"
  obtains s' t' where "readDouble s = (case double_value (hd (tokens t)) of None \<Rightarrow> Inl (stream_quit m R_pe) | Some v \<Rightarrow> Inr (Number v, s'))"
    "shows_text m t' s'" "tokens t' = tl (tokens t)" "no_FF t'" "length t' < length t"
proof -
  obtain s1 s2 t2 where s: "seekEof s = (False, s1)" "is_mode s1 = m" "readWord s1 = Inr (hd (tokens t), s2)"
      and t: "shows_text m t2 s2" "tokens t2 = tl (tokens t)" "no_FF t2" "length t2 < length t"
    using token_read [OF assms(1-3)] by metis
  then show ?thesis
    using that [OF _ t] assms(4) by (simp add: readDouble_def readReal_def stringToDouble_value c_str_id split: option.split)
qed

lemma readDouble_end:
  assumes "shows_text m t s" "no_FF t" "tokens t = []"
  shows "readDouble s = Inl (stream_quit m R_unexpected_eof)"
proof -
  obtain s1 where "seekEof s = (True, s1)" "shows_text m (dropWhile separator t) s1" using seekEof_shows [OF assms(1,2)] assms(3) by metis
  then show ?thesis using shows_text_mode by (simp add: readDouble_def readReal_def)
qed

lemma double_value_finite: "double_value w = Some v \<Longrightarrow> \<not> isInfinite v"
  by (auto simp: double_value_def split: if_splits)

lemma double_value_literal:
  assumes "sscanf_lf w = Some (w, [])" "decimal_value w = q" "\<bar>q\<bar> \<le> 10 ^ 99"
  shows "double_value w = Some (fround q)"
  using sscanf_lf_sound [OF assms(1)] small_finite [OF assms(3)] assms(2) by (simp add: double_value_def)

end
