(* ===== verification/DoubleCheckers.thy ===== *)
theory DoubleCheckers
  imports DoubleTokens
begin

text \<open>
  The checkers on real numbers: \<open>rcmp\<close> and \<open>acmp\<close> (one number, absolute error), \<open>dcmp\<close> (one number, absolute
  or relative error), \<open>rncmp\<close> (sequences, absolute error) and \<open>rcmp4\<close>, \<open>rcmp6\<close>, \<open>rcmp9\<close> (sequences, absolute or
  relative error). All arithmetic is rounded to \<open>double\<close>; what each checker decides is stated with the exact
  difference of the two numbers. The contract of a comparison is a locale, and what a checker makes of
  it is proved there once.
\<close>

section \<open>Comparing two numbers\<close>

text \<open>
  \<open>doubleCompare\<close>, the NaN and infinity branches included. The last argument is the \<open>double\<close> that the
  tolerance is rounded to.
\<close>

definition testlib_abs :: "rat \<Rightarrow> rat" where
  "testlib_abs x = (if x > 0 then x else - x)"

definition testlib_min :: "rat \<Rightarrow> rat \<Rightarrow> rat" where
  "testlib_min a b = (if a < b then a else b)"

definition testlib_max :: "rat \<Rightarrow> rat \<Rightarrow> rat" where
  "testlib_max a b = (if a > b then a else b)"

fun doubleCompare :: "double \<Rightarrow> double \<Rightarrow> rat \<Rightarrow> bool" where
  "doubleCompare NaN result MAX_DOUBLE_ERROR = isNaN result"
| "doubleCompare (Number expected) NaN MAX_DOUBLE_ERROR = False"
| "doubleCompare (Number expected) (Number result) MAX_DOUBLE_ERROR =
     (if isInfinite expected then
        (if expected > 0 then result > 0 \<and> isInfinite result else result < 0 \<and> isInfinite result)
      else if isInfinite result then False
      else if testlib_abs (fround (result - expected)) \<le> fround (MAX_DOUBLE_ERROR + fround (1 / 10 ^ 15)) then True
      else
        let low = fround (expected * fround (1 - MAX_DOUBLE_ERROR)); high = fround (expected * fround (1 + MAX_DOUBLE_ERROR));
            minv = testlib_min low high; maxv = testlib_max low high
        in fround (result + fround (1 / 10 ^ 15)) \<ge> minv \<and> result \<le> fround (maxv + fround (1 / 10 ^ 15)))"

text \<open>The subtraction of two \<open>double\<close>s, and the test \<open>fabs(x) > b\<close>, which NaN does not pass.\<close>

fun double_minus :: "double \<Rightarrow> double \<Rightarrow> double" where
  "double_minus NaN y = NaN"
| "double_minus x NaN = NaN"
| "double_minus (Number x) (Number y) =
     (if \<bar>x\<bar> = infinity then (if x = y then NaN else Number x)
      else if \<bar>y\<bar> = infinity then Number (- y)
      else Number (fround (x - y)))"

fun fabs_exceeds :: "double \<Rightarrow> rat \<Rightarrow> bool" where
  "fabs_exceeds NaN b = False"
| "fabs_exceeds (Number x) b = (\<bar>x\<bar> > b)"

definition absolute_test :: "rat \<Rightarrow> double \<Rightarrow> double \<Rightarrow> bool" where
  "absolute_test EPS j p \<longleftrightarrow> \<not> fabs_exceeds (double_minus j p) (fround (fround EPS + fround (1 / 10 ^ 15)))"

definition relative_test :: "rat \<Rightarrow> double \<Rightarrow> double \<Rightarrow> bool" where
  "relative_test EPS j p \<longleftrightarrow> doubleCompare j p (fround EPS)"

section \<open>The checkers\<close>

text \<open>A checker of one number: it reads the answer, then the output, and compares them.\<close>

definition number_checker :: "(double \<Rightarrow> double \<Rightarrow> bool) \<Rightarrow> string option \<Rightarrow> string option \<Rightarrow> int" where
  "number_checker test output answer =
     (case bind_checked (registerTestlibCmd output answer) (\<lambda>(ouf, ans).
             bind_checked (readDouble ans) (\<lambda>(ja, ans').
               bind_checked (readDouble ouf) (\<lambda>(pa, ouf').
                 if \<not> test ja pa then Inl (quitf ouf' R_wa) else Inr (quitf ouf' R_ok)))) of
        Inl code \<Rightarrow> code
      | Inr code \<Rightarrow> code)"

definition rcmp :: "string option \<Rightarrow> string option \<Rightarrow> int" where
  "rcmp = number_checker (absolute_test (15 / 10 ^ 7))"

definition acmp :: "string option \<Rightarrow> string option \<Rightarrow> int" where
  "acmp = number_checker (absolute_test (15 / 10 ^ 7))"

definition dcmp :: "string option \<Rightarrow> string option \<Rightarrow> int" where
  "dcmp = number_checker (relative_test (1 / 10 ^ 6))"

text \<open>A checker of sequences: the loop runs over the answer; \<open>quitf\<close> finds what the output has left.\<close>

partial_function (option) doubles_loop :: "(double \<Rightarrow> double \<Rightarrow> bool) \<Rightarrow> InStream \<Rightarrow> InStream \<Rightarrow> int option" where
  "doubles_loop test ans0 ouf =
     (case seekEof ans0 of (ans_end, ans) \<Rightarrow>
        if ans_end then Some (quitf ouf R_ok)
        else
          (case readDouble ans of
             Inl code \<Rightarrow> Some code
           | Inr (j, ans') \<Rightarrow>
               (case readDouble ouf of
                  Inl code \<Rightarrow> Some code
                | Inr (p, ouf') \<Rightarrow> if \<not> test j p then Some (quitf ouf' R_wa) else doubles_loop test ans' ouf')))"

declare doubles_loop.simps [code]

definition sequence_checker :: "(double \<Rightarrow> double \<Rightarrow> bool) \<Rightarrow> string option \<Rightarrow> string option \<Rightarrow> int option" where
  "sequence_checker test output answer =
     (case registerTestlibCmd output answer of Inl code \<Rightarrow> Some code | Inr (ouf, ans) \<Rightarrow> doubles_loop test ans ouf)"

definition rncmp :: "string option \<Rightarrow> string option \<Rightarrow> int option" where
  "rncmp = sequence_checker (absolute_test (15 / 10 ^ 6))"

definition rcmp4 :: "string option \<Rightarrow> string option \<Rightarrow> int option" where
  "rcmp4 = sequence_checker (relative_test (1 / 10 ^ 4))"

definition rcmp6 :: "string option \<Rightarrow> string option \<Rightarrow> int option" where
  "rcmp6 = sequence_checker (relative_test (1 / 10 ^ 6))"

definition rcmp9 :: "string option \<Rightarrow> string option \<Rightarrow> int option" where
  "rcmp9 = sequence_checker (relative_test (1 / 10 ^ 9))"

section \<open>Rounding in the comparisons\<close>

text \<open>The tolerances of the checkers lie in this range.\<close>

definition tolerance :: "rat \<Rightarrow> bool" where
  "tolerance E \<longleftrightarrow> 1 / 10 ^ 9 \<le> E \<and> E \<le> 1 / 10 ^ 3"

lemma literal_bounds:
  assumes "tolerance E"
  shows "\<bar>fround E - E\<bar> \<le> 2 / 10 ^ 19" "\<bar>fround (1 / 10 ^ 15) - 1 / 10 ^ 15\<bar> \<le> 2 / 10 ^ 30"
proof -
  have E: "\<bar>E\<bar> \<le> 1 / 10 ^ 3" using assms unfolding tolerance_def tens by linarith
  have "1 / 10 ^ 3 \<le> (10 ^ 105 :: rat)" by simp
  from fround_within [OF E this] show "\<bar>fround E - E\<bar> \<le> 2 / 10 ^ 19" unfolding tens by linarith
  show "\<bar>fround (1 / 10 ^ 15) - 1 / 10 ^ 15\<bar> \<le> 2 / 10 ^ 30" using fround_error [of "1 / 10 ^ 15"] by simp
qed

lemma sum_bounds:
  assumes "tolerance E"
  shows "\<bar>fround (fround E + fround (1 / 10 ^ 15)) - (E + 1 / 10 ^ 15)\<bar> \<le> 1 / 10 ^ 18"
    "\<bar>fround (1 - fround E) - (1 - E)\<bar> \<le> 13 / 10 ^ 17" "\<bar>fround (1 + fround E) - (1 + E)\<bar> \<le> 13 / 10 ^ 17"
proof -
  note lit = literal_bounds [OF assms]
  have E: "1 / 10 ^ 9 \<le> E" "E \<le> 1 / 10 ^ 3" using assms by (simp_all add: tolerance_def)
  have "\<bar>fround E + fround (1 / 10 ^ 15)\<bar> \<le> 2 / 10 ^ 3" "2 / 10 ^ 3 \<le> (10 ^ 105 :: rat)" using lit E unfolding tens by (linarith, simp)
  from fround_within [OF this] show "\<bar>fround (fround E + fround (1 / 10 ^ 15)) - (E + 1 / 10 ^ 15)\<bar> \<le> 1 / 10 ^ 18"
    using lit unfolding tens by linarith
  have "\<bar>1 - fround E\<bar> \<le> 1" "1 \<le> (10 ^ 105 :: rat)" using lit E unfolding tens by (linarith, simp)
  from fround_within [OF this] show "\<bar>fround (1 - fround E) - (1 - E)\<bar> \<le> 13 / 10 ^ 17" using lit unfolding tens by linarith
  have "\<bar>1 + fround E\<bar> \<le> 1002 / 10 ^ 3" "1002 / 10 ^ 3 \<le> (10 ^ 105 :: rat)" using lit E unfolding tens by (linarith, simp)
  from fround_within [OF this] show "\<bar>fround (1 + fround E) - (1 + E)\<bar> \<le> 13 / 10 ^ 17" using lit unfolding tens by linarith
qed

text \<open>The product of a number and a factor near one.\<close>

lemma product_bounds:
  assumes "\<bar>c - k\<bar> \<le> 13 / 10 ^ 17" "\<bar>k\<bar> \<le> 1 + 1 / 10 ^ 3" "\<bar>e\<bar> \<le> 2 * 10 ^ 100"
  shows "\<bar>fround (e * c) - e * k\<bar> \<le> \<bar>e\<bar> * (26 / 10 ^ 17) + 1 / 10 ^ 30"
proof -
  have "\<bar>e * c - e * k\<bar> = \<bar>e\<bar> * \<bar>c - k\<bar>" by (simp add: abs_mult [symmetric] right_diff_distrib)
  also have "\<dots> \<le> \<bar>e\<bar> * (13 / 10 ^ 17)" using assms(1) by (rule mult_left_mono) simp
  finally have near: "\<bar>e * c - e * k\<bar> \<le> \<bar>e\<bar> * (13 / 10 ^ 17)" .
  have "\<bar>c\<bar> \<le> 1002 / 10 ^ 3" using assms(1,2) unfolding tens by linarith
  then have ec: "\<bar>e * c\<bar> \<le> \<bar>e\<bar> * (1002 / 10 ^ 3)" unfolding abs_mult by (rule mult_left_mono) simp
  have "\<bar>e\<bar> * (1002 / 10 ^ 3) \<le> 2 * 10 ^ 100 * (1002 / 10 ^ 3)" using assms(3) by (rule mult_right_mono) simp
  also have "\<dots> \<le> 10 ^ 105" by simp
  finally have "\<bar>e\<bar> * (1002 / 10 ^ 3) \<le> 10 ^ 105" .
  note fround_within [OF ec this]
  moreover have "\<bar>e\<bar> * (1002 / 10 ^ 3) * (12 / 10 ^ 17) \<le> \<bar>e\<bar> * (13 / 10 ^ 17)"
    unfolding mult.assoc by (rule mult_left_mono) simp_all
  ultimately show ?thesis using near unfolding tens by linarith
qed

lemma interval_bounds:
  assumes "tolerance E" "\<bar>e\<bar> \<le> 2 * 10 ^ 100"
  defines "low \<equiv> fround (e * fround (1 - fround E))" and "high \<equiv> fround (e * fround (1 + fround E))"
  shows "\<bar>testlib_min low high - (e - E * \<bar>e\<bar>)\<bar> \<le> \<bar>e\<bar> * (26 / 10 ^ 17) + 1 / 10 ^ 30"
    "\<bar>testlib_max low high - (e + E * \<bar>e\<bar>)\<bar> \<le> \<bar>e\<bar> * (26 / 10 ^ 17) + 1 / 10 ^ 30"
proof -
  have E: "0 < E" "E \<le> 1 / 10 ^ 3" using assms(1) unfolding tolerance_def tens by linarith+
  have k: "\<bar>1 - E\<bar> \<le> 1 + 1 / 10 ^ 3" "\<bar>1 + E\<bar> \<le> 1 + 1 / 10 ^ 3" using E unfolding tens by linarith+
  have low: "\<bar>low - (e - e * E)\<bar> \<le> \<bar>e\<bar> * (26 / 10 ^ 17) + 1 / 10 ^ 30"
    using product_bounds [OF sum_bounds(2) [OF assms(1)] k(1) assms(2)] by (simp add: low_def right_diff_distrib)
  have high: "\<bar>high - (e + e * E)\<bar> \<le> \<bar>e\<bar> * (26 / 10 ^ 17) + 1 / 10 ^ 30"
    using product_bounds [OF sum_bounds(3) [OF assms(1)] k(2) assms(2)] by (simp add: high_def distrib_left)
  define d where "d = \<bar>e\<bar> * (26 / 10 ^ 17) + 1 / 10 ^ 30"
  have "e \<ge> 0 \<and> E * \<bar>e\<bar> = e * E \<and> e * E \<ge> 0 \<or> e < 0 \<and> E * \<bar>e\<bar> = - (e * E) \<and> e * E \<le> 0"
    using E(1) by (cases "e \<ge> 0") (auto simp: mult_nonpos_nonneg)
  with low high show "\<bar>testlib_min low high - (e - E * \<bar>e\<bar>)\<bar> \<le> \<bar>e\<bar> * (26 / 10 ^ 17) + 1 / 10 ^ 30"
    "\<bar>testlib_max low high - (e + E * \<bar>e\<bar>)\<bar> \<le> \<bar>e\<bar> * (26 / 10 ^ 17) + 1 / 10 ^ 30"
    unfolding d_def [symmetric] testlib_min_def testlib_max_def by (auto simp: abs_le_iff mult.commute [of E])
qed

lemma testlib_abs_eq [simp]: "testlib_abs x = \<bar>x\<bar>"
  by (simp add: testlib_abs_def)

text \<open>The comparison within the absolute error.\<close>

lemma absolute_accepts:
  assumes "tolerance E" "\<bar>r - e\<bar> \<le> E"
  shows "\<bar>fround (r - e)\<bar> \<le> fround (fround E + fround (1 / 10 ^ 15))"
proof -
  have "\<bar>r - e\<bar> \<le> 1 / 10 ^ 3" using assms unfolding tolerance_def tens by linarith
  moreover have "1 / 10 ^ 3 \<le> (10 ^ 105 :: rat)" by simp
  ultimately show ?thesis using fround_within [of "r - e" "1 / 10 ^ 3"] sum_bounds(1) [OF assms(1)] assms(2) unfolding tens by linarith
qed

lemma absolute_rejects:
  assumes "tolerance E" "\<bar>r - e\<bar> > E + 1 / 10 ^ 14"
  shows "\<bar>fround (r - e)\<bar> > fround (fround E + fround (1 / 10 ^ 15))"
proof -
  let ?b = "E + 1 / 10 ^ 14"
  have b: "\<bar>?b\<bar> \<le> 2 / 10 ^ 3" "2 / 10 ^ 3 \<le> (10 ^ 105 :: rat)" using assms(1) unfolding tolerance_def tens by (linarith, simp)
  have "\<bar>fround (r - e)\<bar> \<ge> fround ?b"
    using assms(2) fround_mono [of ?b "r - e"] fround_mono [of "r - e" "- ?b"] fround_minus [of ?b] unfolding tens by linarith
  then show ?thesis using fround_within [OF b] sum_bounds(1) [OF assms(1)] unfolding tens by linarith
qed

lemma relative_accepts:
  assumes "tolerance E" "1 \<le> \<bar>e\<bar>" "\<bar>e\<bar> \<le> 2 * 10 ^ 100" "\<bar>r - e\<bar> \<le> (E - 1 / 10 ^ 14) * \<bar>e\<bar>"
  defines "low \<equiv> fround (e * fround (1 - fround E))" and "high \<equiv> fround (e * fround (1 + fround E))"
  shows "testlib_min low high \<le> fround (r + fround (1 / 10 ^ 15)) \<and> r \<le> fround (testlib_max low high + fround (1 / 10 ^ 15))"
proof -
  define A where "A = \<bar>e\<bar>"
  define d where "d = fround (1 / 10 ^ 15)"
  have A: "1 \<le> A" "- A \<le> e" "e \<le> A" "3 * A \<le> 10 ^ 105" using assms(2,3) by (auto simp: A_def)
  have q: "E * A \<le> A * (1 / 10 ^ 3)" "0 \<le> E * A"
    using assms(1) A(1) by (auto simp: tolerance_def mult.commute [of E] intro!: mult_left_mono)
  have near: "\<bar>r - e\<bar> \<le> E * A - A * (1 / 10 ^ 14)" using assms(4) by (simp add: A_def left_diff_distrib)
  have d: "0 \<le> d" "d \<le> 2 / 10 ^ 15" using literal_bounds(2) [OF assms(1)] unfolding d_def tens by linarith+
  note ends = interval_bounds [OF assms(1,3), folded low_def high_def A_def]
  have "\<bar>r + d\<bar> \<le> 3 * A" using near q d A unfolding tens by linarith
  note f1 = fround_within [OF this A(4)]
  have "\<bar>testlib_max low high + d\<bar> \<le> 3 * A" using ends(2) q d A unfolding tens by linarith
  note f2 = fround_within [OF this A(4)]
  have scaled: "3 * A * (12 / 10 ^ 17) = A * (36 / 10 ^ 17)" by simp
  show ?thesis unfolding d_def [symmetric]
  proof
    show "testlib_min low high \<le> fround (r + d)" using f1(2) ends(1) near q d A unfolding scaled tens by linarith
    show "r \<le> fround (testlib_max low high + d)" using f2(2) ends(2) near q d A unfolding scaled tens by linarith
  qed
qed

lemma relative_rejects:
  assumes "tolerance E" "\<bar>e\<bar> \<le> 2 * 10 ^ 100" "\<bar>r\<bar> \<le> 2 * 10 ^ 100" "\<bar>r - e\<bar> > (E + 1 / 10 ^ 14) * max 1 \<bar>e\<bar>"
  defines "low \<equiv> fround (e * fround (1 - fround E))" and "high \<equiv> fround (e * fround (1 + fround E))"
  shows "\<not> (testlib_min low high \<le> fround (r + fround (1 / 10 ^ 15)) \<and> r \<le> fround (testlib_max low high + fround (1 / 10 ^ 15)))"
proof -
  define A where "A = \<bar>e\<bar>"
  define M where "M = max 1 A"
  define d where "d = fround (1 / 10 ^ 15)"
  have M: "1 \<le> M" "0 \<le> A" "A \<le> M" "- A \<le> e" "e \<le> A" "4 * M \<le> 10 ^ 105" using assms(2) by (auto simp: A_def M_def)
  have q: "E * M \<le> M * (1 / 10 ^ 3)" "E * A \<le> E * M" "0 \<le> E * A"
    using assms(1) M by (auto simp: tolerance_def mult.commute [of E] intro!: mult_left_mono)
  have far: "\<bar>r - e\<bar> > E * M + M * (1 / 10 ^ 14)" using assms(4) by (simp add: A_def M_def distrib_right)
  have d: "0 \<le> d" "d \<le> 1 / 10 ^ 15 + 2 / 10 ^ 30" using literal_bounds(2) [OF assms(1)] unfolding d_def tens by linarith+
  note ends = interval_bounds [OF assms(1,2), folded low_def high_def A_def]
  let ?x = "e - E * M - M * (1 / 10 ^ 14) + d"
  have scaled: "4 * M * (12 / 10 ^ 17) = M * (48 / 10 ^ 17)" by simp
  have "\<bar>?x\<bar> \<le> 4 * M" using q d M unfolding tens by linarith
  note f1 = fround_within [OF this M(6)]
  have "\<bar>testlib_max low high + d\<bar> \<le> 4 * M" using ends(2) q d M unfolding tens by linarith
  note f2 = fround_within [OF this M(6)]
  have below: "r < e \<Longrightarrow> fround (r + d) \<le> fround ?x" by (rule fround_mono) (use far in linarith)
  show ?thesis unfolding d_def [symmetric]
  proof (cases "r < e")
    case True
    then have "fround (r + d) < testlib_min low high" using below f1(1) ends(1) q d M unfolding scaled tens by linarith
    then show "\<not> (testlib_min low high \<le> fround (r + d) \<and> r \<le> fround (testlib_max low high + d))" by simp
  next
    case False
    then have "fround (testlib_max low high + d) < r" using f2(1) ends(2) far q d M unfolding scaled tens by linarith
    then show "\<not> (testlib_min low high \<le> fround (r + d) \<and> r \<le> fround (testlib_max low high + d))" by simp
  qed
qed

lemma doubleCompare_accepts:
  assumes "tolerance E" "\<not> isInfinite e" "\<not> isInfinite r" "\<bar>r - e\<bar> \<le> E \<or> \<bar>r - e\<bar> \<le> (E - 1 / 10 ^ 14) * \<bar>e\<bar>"
  shows "doubleCompare (Number e) (Number r) (fround E)"
proof (cases "\<bar>r - e\<bar> \<le> E")
  case True
  then show ?thesis using absolute_accepts [OF assms(1) True] assms(2,3) by simp
next
  case False
  then have near: "\<bar>r - e\<bar> \<le> (E - 1 / 10 ^ 14) * \<bar>e\<bar>" using assms(4) by simp
  have "1 \<le> \<bar>e\<bar>"
  proof (rule ccontr)
    assume "\<not> 1 \<le> \<bar>e\<bar>"
    then have "(E - 1 / 10 ^ 14) * \<bar>e\<bar> \<le> (E - 1 / 10 ^ 14) * 1" using assms(1) by (intro mult_left_mono) (auto simp: tolerance_def)
    with near False show False by simp
  qed
  from relative_accepts [OF assms(1) this finite_bound [OF assms(2)] near] show ?thesis using assms(2,3) by (simp add: Let_def)
qed

lemma doubleCompare_rejects:
  assumes "tolerance E" "\<not> isInfinite e" "\<not> isInfinite r" "\<bar>r - e\<bar> > (E + 1 / 10 ^ 14) * max 1 \<bar>e\<bar>"
  shows "\<not> doubleCompare (Number e) (Number r) (fround E)"
proof -
  have "(E + 1 / 10 ^ 14) * 1 \<le> (E + 1 / 10 ^ 14) * max 1 \<bar>e\<bar>" using assms(1) by (intro mult_left_mono) (auto simp: tolerance_def)
  from le_less_trans [OF this assms(4)] have "\<bar>r - e\<bar> > E + 1 / 10 ^ 14" unfolding mult_1_right .
  from absolute_rejects [OF assms(1) this] relative_rejects [OF assms(1) finite_bound [OF assms(2)] finite_bound [OF assms(3)] assms(4)]
  show ?thesis using assms(2,3) by (simp add: Let_def not_le)
qed

section \<open>The contract of a comparison\<close>

text \<open>
  A comparison accepts what lies within one relation on the exact numbers and accepts nothing outside
  another one; between the two its rounding decides.
\<close>

locale comparison =
  fixes test :: "double \<Rightarrow> double \<Rightarrow> bool" and inner outer :: "rat \<Rightarrow> rat \<Rightarrow> bool"
  assumes accepts: "\<lbrakk>\<not> isInfinite e; \<not> isInfinite r; inner e r\<rbrakk> \<Longrightarrow> test (Number e) (Number r)"
    and accepted: "\<lbrakk>\<not> isInfinite e; \<not> isInfinite r; test (Number e) (Number r)\<rbrakk> \<Longrightarrow> outer e r"
begin

text \<open>The token of the output against the token of the answer.\<close>

definition token_test :: "string \<Rightarrow> string \<Rightarrow> bool" where
  "token_test w x \<longleftrightarrow> (\<exists>e r. double_value w = Some e \<and> double_value x = Some r \<and> test (Number e) (Number r))"

lemma token_test_accepts: "double_value w = Some e \<Longrightarrow> double_value x = Some r \<Longrightarrow> inner e r \<Longrightarrow> token_test w x"
  using accepts double_value_finite by (auto simp: token_test_def)

lemma token_test_accepted: "token_test w x \<Longrightarrow> \<exists>e r. double_value w = Some e \<and> double_value x = Some r \<and> outer e r"
  using accepted double_value_finite by (auto simp: token_test_def)

lemma number_accepted:
  assumes "no_FF a" "no_FF b" "tokens a \<noteq> []" "\<forall>w \<in> set (tokens a) \<union> set (tokens b). CHR 0x00 \<notin> set w"
  shows "number_checker test (Some b) (Some a) = 0 \<longleftrightarrow> (\<exists>x. tokens b = [x] \<and> token_test (hd (tokens a)) x)"
proof -
  have "CHR 0x00 \<notin> set (hd (tokens a))" using assms(3,4) by simp
  then obtain s1 where ans: "readDouble (text_stream M_answer a) =
      (case double_value (hd (tokens a)) of None \<Rightarrow> Inl (stream_quit M_answer R_pe) | Some v \<Rightarrow> Inr (Number v, s1))"
    using readDouble_shows [OF shows_text_whole assms(1,3)] by metis
  show ?thesis
  proof (cases "tokens b = []")
    case True
    then show ?thesis using ans readDouble_end [OF shows_text_whole assms(2) True, of M_output]
      by (auto simp: number_checker_def register_texts stream_quit_def split: option.split)
  next
    case False
    then have "CHR 0x00 \<notin> set (hd (tokens b))" using assms(4) by simp
    then obtain s2 b2 where ouf: "readDouble (text_stream M_output b) =
        (case double_value (hd (tokens b)) of None \<Rightarrow> Inl (stream_quit M_output R_pe) | Some v \<Rightarrow> Inr (Number v, s2))"
        "shows_text M_output b2 s2" "tokens b2 = tl (tokens b)" "no_FF b2"
      using readDouble_shows [OF shows_text_whole assms(2) False] by metis
    have "(\<exists>x. tokens b = [x] \<and> token_test (hd (tokens a)) x) \<longleftrightarrow> tl (tokens b) = [] \<and> token_test (hd (tokens a)) (hd (tokens b))"
      using False by (cases "tokens b") auto
    then show ?thesis using ans ouf(1,3) quitf_shows [OF ouf(2,4)]
      by (auto simp: number_checker_def register_texts stream_quit_def token_test_def split: option.split)
  qed
qed

lemma sequence_accepted:
  assumes "shows_text M_answer a ans" "shows_text M_output b ouf" "no_FF a" "no_FF b"
    and "\<forall>w \<in> set (tokens a) \<union> set (tokens b). CHR 0x00 \<notin> set w"
  shows "\<exists>code. doubles_loop test ans ouf = Some code \<and> (code = 0 \<longleftrightarrow> list_all2 token_test (tokens a) (tokens b))"
  using assms
proof (induction "length a" arbitrary: a b ans ouf rule: less_induct)
  case less
  obtain ans1 where a1: "seekEof ans = (tokens a = [], ans1)" "shows_text M_answer (dropWhile separator a) ans1"
    using seekEof_shows less.prems(1,3) by metis
  show ?case
  proof (cases "tokens a = []")
    case True
    then show ?thesis using a1(1) quitf_shows(1) [OF less.prems(2,4)] by (subst doubles_loop.simps) simp
  next
    case False
    let ?u = "dropWhile separator a"
    have u: "no_FF ?u" "tokens ?u = tokens a" "length ?u \<le> length a"
      using no_FF_drop [OF less.prems(3)] length_dropWhile_le by simp_all
    have "CHR 0x00 \<notin> set (hd (tokens a))" using False less.prems(5) by simp
    then obtain ans2 a2 where a2: "readDouble ans1 = (case double_value (hd (tokens a)) of None \<Rightarrow> Inl (stream_quit M_answer R_pe)
        | Some v \<Rightarrow> Inr (Number v, ans2))" "shows_text M_answer a2 ans2" "tokens a2 = tl (tokens a)" "no_FF a2" "length a2 < length ?u"
      using readDouble_shows [OF a1(2) u(1)] False unfolding u(2) by metis
    have step: "doubles_loop test ans ouf = (case readDouble ans1 of Inl code \<Rightarrow> Some code
        | Inr (j, ans') \<Rightarrow> (case readDouble ouf of Inl code \<Rightarrow> Some code
          | Inr (p, ouf') \<Rightarrow> if \<not> test j p then Some (quitf ouf' R_wa) else doubles_loop test ans' ouf'))"
      using a1(1) False by (subst doubles_loop.simps) simp
    show ?thesis
    proof (cases "tokens b = []")
      case True
      then show ?thesis using False readDouble_end [OF less.prems(2,4) True] unfolding step a2(1)
        by (auto simp: stream_quit_def split: option.split)
    next
      case bs: False
      then have "CHR 0x00 \<notin> set (hd (tokens b))" using less.prems(5) by simp
      then obtain ouf2 b2 where b2: "readDouble ouf = (case double_value (hd (tokens b)) of None \<Rightarrow> Inl (stream_quit M_output R_pe)
          | Some v \<Rightarrow> Inr (Number v, ouf2))" "shows_text M_output b2 ouf2" "tokens b2 = tl (tokens b)" "no_FF b2"
        using readDouble_shows [OF less.prems(2,4) bs] by metis
      have "length a2 < length a" using a2(5) u(3) by simp
      moreover have "\<forall>w \<in> set (tokens a2) \<union> set (tokens b2). CHR 0x00 \<notin> set w"
        using less.prems(5) False bs unfolding a2(3) b2(3) by (meson Un_iff list.set_sel(2))
      ultimately obtain code where IH: "doubles_loop test ans2 ouf2 = Some code" "code = 0 \<longleftrightarrow> list_all2 token_test (tokens a2) (tokens b2)"
        using less.hyps [OF _ a2(2) b2(2) a2(4) b2(4)] by metis
      have "list_all2 token_test (tokens a) (tokens b) \<longleftrightarrow> token_test (hd (tokens a)) (hd (tokens b)) \<and> list_all2 token_test (tokens a2) (tokens b2)"
        using False bs a2(3) b2(3) by (cases "tokens a"; cases "tokens b") simp_all
      then show ?thesis using IH quitf_shows(2) [OF b2(2,4)] unfolding step a2(1) b2(1)
        by (auto simp: stream_quit_def token_test_def split: option.split)
    qed
  qed
qed

lemma sequence_decides:
  assumes "readable a" "readable b"
  shows "\<exists>code. sequence_checker test (Some b) (Some a) = Some code \<and>
    (list_all2 (\<lambda>w x. \<exists>e r. double_value w = Some e \<and> double_value x = Some r \<and> inner e r) (tokens a) (tokens b) \<longrightarrow> code = 0) \<and>
    (code = 0 \<longrightarrow> list_all2 (\<lambda>w x. \<exists>e r. double_value w = Some e \<and> double_value x = Some r \<and> outer e r) (tokens a) (tokens b))"
proof -
  have "\<forall>w \<in> set (tokens a) \<union> set (tokens b). CHR 0x00 \<notin> set w"
    using assms token_chars unfolding readable_def by blast
  moreover have "no_FF a" "no_FF b" using assms by (simp_all add: readable_def)
  ultimately have "\<exists>code. doubles_loop test (text_stream M_answer a) (text_stream M_output b) = Some code \<and>
      (code = 0 \<longleftrightarrow> list_all2 token_test (tokens a) (tokens b))"
    by (intro sequence_accepted) simp_all
  then obtain code where code: "sequence_checker test (Some b) (Some a) = Some code" "code = 0 \<longleftrightarrow> list_all2 token_test (tokens a) (tokens b)"
    by (auto simp: sequence_checker_def register_texts)
  show ?thesis using code token_test_accepts token_test_accepted
    by (intro exI [of _ code]) (auto elim!: list_all2_mono)
qed

lemma number_decides:
  assumes "readable a" "readable b" "tokens a = w # ws"
  shows "(tokens b = [x] \<and> double_value w = Some e \<and> double_value x = Some r \<and> inner e r \<longrightarrow> number_checker test (Some b) (Some a) = 0) \<and>
    (number_checker test (Some b) (Some a) = 0 \<longrightarrow>
       (\<exists>x e r. tokens b = [x] \<and> double_value w = Some e \<and> double_value x = Some r \<and> outer e r))"
proof -
  have "\<forall>w \<in> set (tokens a) \<union> set (tokens b). CHR 0x00 \<notin> set w"
    using assms token_chars unfolding readable_def by blast
  with number_accepted [of a b] assms
  have "number_checker test (Some b) (Some a) = 0 \<longleftrightarrow> (\<exists>x. tokens b = [x] \<and> token_test w x)" by (simp add: readable_def)
  then show ?thesis using token_test_accepts token_test_accepted by (metis list.inject)
qed

end

section \<open>The comparisons of the checkers\<close>

abbreviation off_by :: "rat \<Rightarrow> rat \<Rightarrow> rat \<Rightarrow> bool" where
  "off_by d e r \<equiv> \<bar>r - e\<bar> \<le> d"

lemma finite_not_infinity: "\<not> isInfinite r \<Longrightarrow> \<bar>r\<bar> \<noteq> infinity"
proof -
  assume "\<not> isInfinite r"
  then have "\<bar>r\<bar> \<le> 2 * 10 ^ 100" by (rule finite_bound)
  moreover have "2 * 10 ^ 100 < infinity" by (simp add: infinity_def pow_int_def)
  ultimately show ?thesis by simp
qed

lemma absolute_comparison:
  assumes "tolerance E"
  shows "comparison (absolute_test E) (off_by E) (off_by (E + 1 / 10 ^ 14))"
proof
  fix e r assume fin: "\<not> isInfinite e" "\<not> isInfinite r"
  have test: "absolute_test E (Number e) (Number r) \<longleftrightarrow> \<bar>fround (r - e)\<bar> \<le> fround (fround E + fround (1 / 10 ^ 15))"
    using fin [THEN finite_not_infinity] fround_minus [of "r - e"] by (simp add: absolute_test_def not_less)
  show "absolute_test E (Number e) (Number r)" if "off_by E e r" using absolute_accepts [OF assms that] unfolding test .
  show "off_by (E + 1 / 10 ^ 14) e r" if "absolute_test E (Number e) (Number r)"
    using that absolute_rejects [OF assms, of r e] unfolding test by linarith
qed

lemma relative_comparison:
  assumes "tolerance E"
  shows "comparison (relative_test E) (\<lambda>e r. off_by E e r \<or> off_by ((E - 1 / 10 ^ 14) * \<bar>e\<bar>) e r)
    (\<lambda>e r. off_by ((E + 1 / 10 ^ 14) * max 1 \<bar>e\<bar>) e r)"
proof
  fix e r assume fin: "\<not> isInfinite e" "\<not> isInfinite r"
  show "relative_test E (Number e) (Number r)" if "off_by E e r \<or> off_by ((E - 1 / 10 ^ 14) * \<bar>e\<bar>) e r"
    unfolding relative_test_def by (rule doubleCompare_accepts [OF assms fin that])
  show "off_by ((E + 1 / 10 ^ 14) * max 1 \<bar>e\<bar>) e r" if "relative_test E (Number e) (Number r)"
    using that doubleCompare_rejects [OF assms fin] unfolding relative_test_def by (meson not_less)
qed

interpretation abs7: comparison "absolute_test (15 / 10 ^ 7)" "off_by (15 / 10 ^ 7)" "off_by (15 / 10 ^ 7 + 1 / 10 ^ 14)"
  by (rule absolute_comparison) (simp add: tolerance_def)

interpretation abs6: comparison "absolute_test (15 / 10 ^ 6)" "off_by (15 / 10 ^ 6)" "off_by (15 / 10 ^ 6 + 1 / 10 ^ 14)"
  by (rule absolute_comparison) (simp add: tolerance_def)

interpretation rel4: comparison "relative_test (1 / 10 ^ 4)" "\<lambda>e r. off_by (1 / 10 ^ 4) e r \<or> off_by ((1 / 10 ^ 4 - 1 / 10 ^ 14) * \<bar>e\<bar>) e r"
    "\<lambda>e r. off_by ((1 / 10 ^ 4 + 1 / 10 ^ 14) * max 1 \<bar>e\<bar>) e r"
  by (rule relative_comparison) (simp add: tolerance_def)

interpretation rel6: comparison "relative_test (1 / 10 ^ 6)" "\<lambda>e r. off_by (1 / 10 ^ 6) e r \<or> off_by ((1 / 10 ^ 6 - 1 / 10 ^ 14) * \<bar>e\<bar>) e r"
    "\<lambda>e r. off_by ((1 / 10 ^ 6 + 1 / 10 ^ 14) * max 1 \<bar>e\<bar>) e r"
  by (rule relative_comparison) (simp add: tolerance_def)

interpretation rel9: comparison "relative_test (1 / 10 ^ 9)" "\<lambda>e r. off_by (1 / 10 ^ 9) e r \<or> off_by ((1 / 10 ^ 9 - 1 / 10 ^ 14) * \<bar>e\<bar>) e r"
    "\<lambda>e r. off_by ((1 / 10 ^ 9 + 1 / 10 ^ 14) * max 1 \<bar>e\<bar>) e r"
  by (rule relative_comparison) (simp add: tolerance_def)

text \<open>
  On readable texts \<open>rcmp\<close> and \<open>acmp\<close> accept every output of one number whose exact distance from
  the answer is at most 1.5E-6, and accept only outputs of one number at a distance of at most
  1.5E-6 + 1E-14: the roundings of the comparison never matter beyond that margin.
\<close>

theorem rcmp_decides:
  assumes "readable a" "readable b" "tokens a = w # ws" "checker \<in> {rcmp, acmp}"
  shows "(tokens b = [x] \<and> double_value w = Some e \<and> double_value x = Some r \<and> \<bar>r - e\<bar> \<le> 15 / 10 ^ 7 \<longrightarrow> checker (Some b) (Some a) = 0) \<and>
    (checker (Some b) (Some a) = 0 \<longrightarrow>
       (\<exists>x e r. tokens b = [x] \<and> double_value w = Some e \<and> double_value x = Some r \<and> \<bar>r - e\<bar> \<le> 15 / 10 ^ 7 + 1 / 10 ^ 14))"
  using abs7.number_decides [OF assms(1-3), of x e r] assms(4) by (auto simp only: rcmp_def acmp_def insert_iff empty_iff)

lemma demo_values:
  "double_value ''0.5'' = Some (fround (1 / 2))" "double_value ''+5e-1'' = Some (fround (1 / 2))" "double_value ''2.'' = Some (fround 2)"
  "tokens ''0.5'' = [''0.5'']" "tokens '' +5e-1 '' = [''+5e-1'']" "tokens ''2.'' = [''2.'']"
  "readable ''0.5''" "readable '' +5e-1 ''" "readable ''2.''"
proof -
  have "sscanf_lf ''0.5'' = Some (''0.5'', [])" "decimal_value ''0.5'' = 1 / 2" by code_simp+
  then show "double_value ''0.5'' = Some (fround (1 / 2))" by (rule double_value_literal) simp
  have "sscanf_lf ''+5e-1'' = Some (''+5e-1'', [])" "decimal_value ''+5e-1'' = 1 / 2" by code_simp+
  then show "double_value ''+5e-1'' = Some (fround (1 / 2))" by (rule double_value_literal) simp
  have "sscanf_lf ''2.'' = Some (''2.'', [])" "decimal_value ''2.'' = 2" by code_simp+
  then show "double_value ''2.'' = Some (fround 2)" by (rule double_value_literal) simp
  show "tokens ''0.5'' = [''0.5'']" "tokens '' +5e-1 '' = [''+5e-1'']" "tokens ''2.'' = [''2.'']" by code_simp+
  show "readable ''0.5''" "readable '' +5e-1 ''" "readable ''2.''" by (simp_all add: readable_def no_FF_def)
qed

lemma demo_distance: "1 < \<bar>fround 2 - fround (1 / 2)\<bar>"
proof -
  have "\<bar>fround 2 - 2\<bar> \<le> 1 / 10" "\<bar>fround (1 / 2) - 1 / 2\<bar> \<le> 1 / 10" using fround_error [of 2] fround_error [of "1 / 2"] by simp_all
  then show ?thesis by linarith
qed

theorem rcmp_decides_witness:
  "rcmp (Some '' +5e-1 '') (Some ''0.5'') = 0 \<and> rcmp (Some ''2.'') (Some ''0.5'') \<noteq> 0"
proof
  show "rcmp (Some '' +5e-1 '') (Some ''0.5'') = 0"
    using rcmp_decides [of "''0.5''" "'' +5e-1 ''" "''0.5''" "[]" rcmp "''+5e-1''" "fround (1 / 2)" "fround (1 / 2)"] demo_values by simp
  show "rcmp (Some ''2.'') (Some ''0.5'') \<noteq> 0"
    using rcmp_decides [of "''0.5''" "''2.''" "''0.5''" "[]" rcmp] demo_values demo_distance by auto
qed

text \<open>\<open>dcmp\<close> and \<open>rncmp\<close> likewise.\<close>

theorem dcmp_decides:
  assumes "readable a" "readable b" "tokens a = w # ws"
  shows "(tokens b = [x] \<and> double_value w = Some e \<and> double_value x = Some r \<and>
      (off_by (1 / 10 ^ 6) e r \<or> off_by ((1 / 10 ^ 6 - 1 / 10 ^ 14) * \<bar>e\<bar>) e r) \<longrightarrow> dcmp (Some b) (Some a) = 0) \<and>
    (dcmp (Some b) (Some a) = 0 \<longrightarrow>
       (\<exists>x e r. tokens b = [x] \<and> double_value w = Some e \<and> double_value x = Some r \<and> off_by ((1 / 10 ^ 6 + 1 / 10 ^ 14) * max 1 \<bar>e\<bar>) e r))"
  unfolding dcmp_def by (rule rel6.number_decides [OF assms])

theorem rncmp_decides:
  assumes "readable a" "readable b"
  shows "\<exists>code. rncmp (Some b) (Some a) = Some code \<and>
    (list_all2 (\<lambda>w x. \<exists>e r. double_value w = Some e \<and> double_value x = Some r \<and> off_by (15 / 10 ^ 6) e r) (tokens a) (tokens b) \<longrightarrow> code = 0) \<and>
    (code = 0 \<longrightarrow> list_all2 (\<lambda>w x. \<exists>e r. double_value w = Some e \<and> double_value x = Some r \<and> off_by (15 / 10 ^ 6 + 1 / 10 ^ 14) e r) (tokens a) (tokens b))"
  unfolding rncmp_def by (rule abs6.sequence_decides [OF assms])



end
