(* ===== verification/ExternalSjudge.thy ===== *)
theory ExternalSjudge
  imports JudgeTypes
begin

text \<open>
  \<open>sjudge/ExternalSjudgeCompat.cpp\<close>: the bridge to the external \<open>sjudge\<close> program of earlier versions.
  It builds a command line, runs it with \<open>popen\<close> and reads the fields of the result from the lines
  the program prints. The program is a parameter: the text a command prints, None when \<open>popen\<close> fails.
\<close>

section \<open>The command line\<close>

definition append_limit_arg :: "string \<Rightarrow> string \<Rightarrow> uint64 \<Rightarrow> string" where
  "append_limit_arg command name v =
     (if v \<noteq> SJUDGE_UNLIMITED then command @ '' '' @ name @ '' '' @ nat_to_string (unat v) else command)"

definition append_path_arg :: "string \<Rightarrow> string \<Rightarrow> string \<Rightarrow> string" where
  "append_path_arg command name v = (if v \<noteq> [] then command @ '' '' @ name @ '' '' @ v else command)"

definition sjudge_command :: "string \<Rightarrow> judge_config \<Rightarrow> string" where
  "sjudge_command sjudge_binary_path config =
     (let c1 = append_limit_arg sjudge_binary_path ''--max-cpu-time'' (ucast (max_cpu_time_ms config));
          c2 = append_limit_arg c1 ''--max-real-time'' (ucast (max_real_time_ms config));
          c3 = append_limit_arg c2 ''--max-memory'' (max_memory_bytes config);
          c4 = append_limit_arg c3 ''--max-stack'' (max_stack_bytes config);
          c5 = append_limit_arg c4 ''--max-output'' (max_output_bytes config);
          c6 = append_path_arg c5 ''--cwd'' (cwd config);
          c7 = append_path_arg c6 ''--exe'' (exe_path config);
          c8 = append_path_arg c7 ''--input'' (input_path config);
          c9 = append_path_arg c8 ''--output'' (output_path config);
          c10 = append_path_arg c9 ''--error'' (error_path config);
          c11 = append_path_arg c10 ''--log'' (log_path config)
      in c11 @ '' 2>&1'')"

section \<open>The output\<close>

text \<open>
  \<open>fgets\<close> with a buffer of 128: up to 127 characters, the newline included; appending the buffer as a
  C string stops at its first NUL.
\<close>

definition fgets_length :: "string \<Rightarrow> nat" where
  "fgets_length pipe =
     (let line = length (takeWhile (\<lambda>ch. ch \<noteq> CHR 0x0A) pipe) in
      min 127 (if line < length pipe then Suc line else line))"

lemma fgets_length_pos: "fgets_length (c # pipe) \<noteq> 0"
  by (simp add: fgets_length_def Let_def)

function fgets_loop :: "string \<Rightarrow> string \<Rightarrow> string" where
  "fgets_loop pipe out =
     (if pipe = [] then out
      else fgets_loop (drop (fgets_length pipe) pipe) (out @ takeWhile (\<lambda>ch. ch \<noteq> CHR 0x00) (take (fgets_length pipe) pipe)))"
  by auto
termination
proof (relation "measure (\<lambda>(pipe, out). length pipe)")
  show "((drop (fgets_length pipe) pipe, x), (pipe, out)) \<in> measure (\<lambda>(pipe, out). length pipe)" if "pipe \<noteq> []" for pipe out x
    using that fgets_length_pos by (cases pipe) auto
qed simp

declare fgets_loop.simps [simp del]

datatype result_field = f_cpu_time | f_real_time | f_memory | f_signal | f_exit_code | f_error | f_result

fun field_name :: "result_field \<Rightarrow> string" where
  "field_name f_cpu_time = ''cpu_time''"
| "field_name f_real_time = ''real_time''"
| "field_name f_memory = ''memory''"
| "field_name f_signal = ''signal''"
| "field_name f_exit_code = ''exit_code''"
| "field_name f_error = ''error''"
| "field_name f_result = ''result''"

text \<open>The field whose name starts the line, in the order of the tests.\<close>

definition starts_with :: "string \<Rightarrow> string \<Rightarrow> bool" where
  "starts_with p s \<longleftrightarrow> take (length p) s = p"

definition line_field :: "string \<Rightarrow> result_field option" where
  "line_field line =
     List.find (\<lambda>f. starts_with (field_name f) line)
       [f_cpu_time, f_real_time, f_memory, f_signal, f_exit_code, f_error, f_result]"

fun set_field :: "result_field \<Rightarrow> int \<Rightarrow> judge_result \<Rightarrow> judge_result" where
  "set_field f_cpu_time v r = r\<lparr>jr_cpu_time_ms := v\<rparr>"
| "set_field f_real_time v r = r\<lparr>jr_real_time_ms := v\<rparr>"
| "set_field f_memory v r = r\<lparr>jr_memory_bytes := v\<rparr>"
| "set_field f_signal v r = r\<lparr>jr_signal := v\<rparr>"
| "set_field f_exit_code v r = r\<lparr>jr_exit_code := v\<rparr>"
| "set_field f_error v r = r\<lparr>jr_error := v\<rparr>"
| "set_field f_result v r = r\<lparr>jr_result := v\<rparr>"

text \<open>The text from the first digit; the conversions throw (None) when the number does not fit.\<close>

definition field_value :: "result_field \<Rightarrow> string \<Rightarrow> int option" where
  "field_value f s =
     (case scan_number s of
        None \<Rightarrow> None
      | Some (neg, m, pos) \<Rightarrow>
          let v = (if neg then - int m else int m); b = (if f = f_memory then 2 ^ 63 else 2 ^ 31) in
          if - b \<le> v \<and> v < b then Some v else None)"

definition parse_result_line :: "judge_result \<Rightarrow> string \<Rightarrow> judge_result option" where
  "parse_result_line result line =
     (let digits = dropWhile (\<lambda>c. \<not> is_digit c) line in
      if digits = [] then Some result
      else case line_field line of
        None \<Rightarrow> Some result
      | Some f \<Rightarrow> map_option (\<lambda>v. set_field f v result) (field_value f digits))"

fun parse_lines :: "string list \<Rightarrow> judge_result \<Rightarrow> judge_result option" where
  "parse_lines [] result = Some result"
| "parse_lines (line # rest) result = (case parse_result_line result line of None \<Rightarrow> None | Some r \<Rightarrow> parse_lines rest r)"

datatype sjudge_exception = PopenFailed | NumberOutOfRange

definition call_sjudge :: "(string \<Rightarrow> string option) \<Rightarrow> string \<Rightarrow> judge_config \<Rightarrow> sjudge_exception + judge_result" where
  "call_sjudge popen sjudge_binary_path config =
     (case popen (sjudge_command sjudge_binary_path config) of
        None \<Rightarrow> Inl PopenFailed
      | Some pipe \<Rightarrow>
          (case parse_lines (getlines [] (fgets_loop pipe [])) default_judge_result of
             None \<Rightarrow> Inl NumberOutOfRange
           | Some r \<Rightarrow> Inr r))"

section \<open>What the bridge reads\<close>

lemma fgets_collects: "CHR 0x00 \<notin> set pipe \<Longrightarrow> fgets_loop pipe out = out @ pipe"
proof (induction pipe out rule: fgets_loop.induct)
  case (1 pipe out)
  let ?n = "fgets_length pipe"
  have clean: "takeWhile (\<lambda>ch. ch \<noteq> CHR 0x00) (take ?n pipe) = take ?n pipe"
    unfolding takeWhile_eq_all_conv using in_set_takeD [of _ ?n pipe] "1.prems" by blast
  have "CHR 0x00 \<notin> set (drop ?n pipe)" using "1.prems" by (meson in_set_dropD)
  then show ?case using "1.IH" unfolding clean by (subst fgets_loop.simps) (simp add: clean del: takeWhile_eq_all_conv)
qed

text \<open>A line of a report: a name, a separator without digits, a number.\<close>

definition report_line :: "string \<Rightarrow> result_field \<times> nat \<Rightarrow> string" where
  "report_line sep fv = field_name (fst fv) @ sep @ nat_to_string (snd fv)"

definition plain_separator :: "string \<Rightarrow> bool" where
  "plain_separator sep \<longleftrightarrow> (\<forall>c \<in> set sep. \<not> is_digit c \<and> c \<noteq> CHR 0x0A \<and> c \<noteq> CHR 0x00)"

definition field_fits :: "result_field \<times> nat \<Rightarrow> bool" where
  "field_fits fv \<longleftrightarrow> snd fv < (if fst fv = f_memory then 2 ^ 63 else 2 ^ 31)"

lemma field_name_plain: "c \<in> set (field_name f) \<Longrightarrow> \<not> is_digit c \<and> c \<noteq> CHR 0x0A \<and> c \<noteq> CHR 0x00"
  by (cases f) (auto simp: is_digit_def)

lemma line_field_report: "line_field (field_name f @ rest) = Some f"
  by (cases f) (simp_all add: line_field_def starts_with_def)

lemma digits_from:
  assumes "\<forall>c \<in> set sep. \<not> is_digit c"
  shows "dropWhile (\<lambda>c. \<not> is_digit c) (field_name f @ sep @ nat_to_string n) = nat_to_string n"
proof -
  obtain d ds where d: "nat_to_string n = d # ds" "is_digit d" using nat_to_string_digits [of n] by (cases "nat_to_string n") auto
  have "dropWhile (\<lambda>c. \<not> is_digit c) (field_name f @ sep @ d # ds) = dropWhile (\<lambda>c. \<not> is_digit c) (d # ds)"
    using assms field_name_plain [of _ f] by (simp add: dropWhile_append)
  with d show ?thesis by simp
qed

lemma parse_report_line:
  assumes "\<forall>c \<in> set sep. \<not> is_digit c" "field_fits (f, n)"
  shows "parse_result_line r (report_line sep (f, n)) = Some (set_field f (int n) r)"
proof -
  have "field_value f (nat_to_string n) = Some (int n)"
    using assms(2) by (auto simp: field_value_def field_fits_def Let_def)
  then show ?thesis
    using digits_from [OF assms(1), of f n] by (simp add: parse_result_line_def report_line_def line_field_report)
qed

lemma getlines_line: "CHR 0x0A \<notin> set l \<Longrightarrow> getlines cur (l @ CHR 0x0A # rest) = (cur @ l) # getlines [] rest"
  by (induction l arbitrary: cur) auto

lemma report_line_plain:
  assumes "plain_separator sep"
  shows "CHR 0x0A \<notin> set (report_line sep fv)" "CHR 0x00 \<notin> set (report_line sep fv)"
proof -
  have "\<not> is_digit (CHR 0x0A)" "\<not> is_digit (CHR 0x00)" by (simp_all add: is_digit_def)
  then show "CHR 0x0A \<notin> set (report_line sep fv)" "CHR 0x00 \<notin> set (report_line sep fv)"
    using assms field_name_plain nat_to_string_digits [of "snd fv"] by (fastforce simp: report_line_def plain_separator_def)+
qed

definition report_text :: "string \<Rightarrow> (result_field \<times> nat) list \<Rightarrow> string" where
  "report_text sep fvs = concat (map (\<lambda>fv. report_line sep fv @ [CHR 0x0A]) fvs)"

lemma report_lines: "plain_separator sep \<Longrightarrow> getlines [] (report_text sep fvs) = map (report_line sep) fvs"
  by (induction fvs) (simp_all add: report_text_def getlines_line report_line_plain)

lemma parse_report:
  assumes "plain_separator sep"
  shows "list_all field_fits fvs \<Longrightarrow>
     parse_lines (map (report_line sep) fvs) r = Some (fold (\<lambda>(f, n). set_field f (int n)) fvs r)"
proof (induction fvs arbitrary: r)
  case (Cons fv fvs)
  obtain f n where "fv = (f, n)" by (cases fv)
  with Cons parse_report_line [of sep f n r] assms show ?case by (simp add: plain_separator_def)
qed simp

text \<open>
  The bridge reads what the external program reports: when it prints lines of a field's name, a
  separator without digits and a number that fits the field, in any order and number, the result
  holds for each field the last number printed, and the default for a field not printed.
\<close>

theorem call_sjudge_reads_report:
  assumes "popen (sjudge_command path config) = Some (report_text sep fvs)"
    and "plain_separator sep" and "list_all field_fits fvs"
  shows "call_sjudge popen path config = Inr (fold (\<lambda>(f, n). set_field f (int n)) fvs default_judge_result)"
proof -
  have "CHR 0x00 \<notin> set (report_text sep fvs)"
    using report_line_plain(2) [OF assms(2)] by (auto simp: report_text_def)
  then show ?thesis
    using assms parse_report [OF assms(2,3)] by (simp add: call_sjudge_def fgets_collects report_lines)
qed

theorem call_sjudge_reads_report_witness:
  "call_sjudge (\<lambda>_. Some (report_text '': '' [(f_cpu_time, 12), (f_memory, 4096), (f_result, 0)])) ''sjudge'' default_config =
     Inr (default_judge_result\<lparr>jr_cpu_time_ms := 12, jr_memory_bytes := 4096, jr_result := 0\<rparr>)"
proof -
  have "plain_separator '': ''" by (simp add: plain_separator_def is_digit_def)
  moreover have "list_all field_fits [(f_cpu_time, 12), (f_memory, 4096), (f_result, 0)]" by (simp add: field_fits_def)
  ultimately show ?thesis
    using call_sjudge_reads_report [of "\<lambda>_. Some (report_text '': '' [(f_cpu_time, 12), (f_memory, 4096), (f_result, 0)])" "''sjudge''"
      default_config "'': ''" "[(f_cpu_time, 12), (f_memory, 4096), (f_result, 0)]"]
    by simp
qed

text \<open>
  The sign of a number is not read: the search for the first digit skips it, so a negative value is
  stored as its magnitude.
\<close>

theorem sign_is_skipped:
  assumes "field_fits (f, n)"
  shows "parse_result_line r (field_name f @ '': -'' @ nat_to_string n) = Some (set_field f (int n) r)"
  using parse_report_line [OF _ assms, of "'': -''" r] by (simp add: report_line_def is_digit_def)

theorem sign_is_skipped_witness:
  "parse_result_line default_judge_result (field_name f_error @ '': -'' @ nat_to_string 1) =
     Some (default_judge_result\<lparr>jr_error := 1\<rparr>)"
  using sign_is_skipped [of f_error 1 default_judge_result] by (simp add: field_fits_def)

text \<open>
  A program that prints no number, in particular one that is not found, is a system error.
\<close>

lemma parse_no_digit: "\<forall>l \<in> set ls. \<forall>c \<in> set l. \<not> is_digit c \<Longrightarrow> parse_lines ls r = Some r"
proof (induction ls)
  case (Cons l ls)
  then have "dropWhile (\<lambda>c. \<not> is_digit c) l = []" by simp
  with Cons show ?case by (simp add: parse_result_line_def)
qed simp

lemma getlines_chars: "l \<in> set (getlines cur s) \<Longrightarrow> set l \<subseteq> set cur \<union> set s"
  by (induction cur s rule: getlines.induct) (auto split: if_splits)

lemma fgets_chars: "set (fgets_loop pipe out) \<subseteq> set pipe \<union> set out"
proof (induction pipe out rule: fgets_loop.induct)
  case (1 pipe out)
  then show ?case
    by (subst fgets_loop.simps) (auto dest: in_set_takeD in_set_dropD set_takeWhileD)
qed

lemma silent_sjudge_is_system_error:
  assumes "popen (sjudge_command path config) = Some pipe" "\<forall>c \<in> set pipe. \<not> is_digit c"
  shows "call_sjudge popen path config = Inr default_judge_result"
proof -
  have "\<forall>l \<in> set (getlines [] (fgets_loop pipe [])). \<forall>c \<in> set l. \<not> is_digit c"
    using assms(2) fgets_chars [of pipe "[]"] getlines_chars [of _ "[]" "fgets_loop pipe []"] by fastforce
  then show ?thesis using assms(1) by (simp add: call_sjudge_def parse_no_digit)
qed

end
