(* ===== verification/Logger.thy ===== *)
theory Logger
  imports Prelude
begin

text \<open>
  Logging: \<open>src/src/common/Logger.h\<close>, \<open>Logger.cpp\<close>, \<open>Timestamp.h\<close> and \<open>Timestamp.cpp\<close>. A log macro is two
  accesses to the shared logger, \<open>setLogLevel\<close>, which takes no lock, and \<open>log\<close>, which prints one line
  under the lock; a run is a sequence of such accesses, and concurrent threads are the interleavings of
  their sequences. The C library's \<open>localtime\<close> is an argument.
\<close>

section \<open>Time stamps\<close>

record tm =
  tm_year :: int
  tm_mon :: int
  tm_mday :: int
  tm_hour :: int
  tm_min :: int
  tm_sec :: int

definition pad_left :: "nat \<Rightarrow> char \<Rightarrow> string \<Rightarrow> string" where
  "pad_left w c s = replicate (w - length s) c @ s"

text \<open>The conversions \<open>%4d\<close> and \<open>%02d\<close>.\<close>

definition format_d :: "nat \<Rightarrow> int \<Rightarrow> string" where
  "format_d w i = pad_left w (CHR '' '') (int_to_string i)"

definition format_0d :: "nat \<Rightarrow> int \<Rightarrow> string" where
  "format_0d w i =
     (if i < 0 then CHR ''-'' # pad_left (w - 1) (CHR ''0'') (nat_to_string (nat (- i)))
      else pad_left w (CHR ''0'') (nat_to_string (nat i)))"

definition timestamp_toString :: "(int \<Rightarrow> tm) \<Rightarrow> int \<Rightarrow> string" where
  "timestamp_toString localtime secondsSinceEpoch =
     (let t = localtime secondsSinceEpoch in
      take 127 (format_d 4 (tm_year t + 1900) @ ''/'' @ format_0d 2 (tm_mon t + 1) @ ''/'' @ format_0d 2 (tm_mday t) @ '' '' @
        format_0d 2 (tm_hour t) @ '':'' @ format_0d 2 (tm_min t) @ '':'' @ format_0d 2 (tm_sec t)))"

section \<open>Log lines\<close>

datatype LogLevel = L_INFO | L_ERROR | L_FATAL | L_DEBUG

fun level_code :: "LogLevel \<Rightarrow> int" where
  "level_code L_INFO = 0"
| "level_code L_ERROR = 1"
| "level_code L_FATAL = 2"
| "level_code L_DEBUG = 3"

definition level_prefix :: "int \<Rightarrow> string" where
  "level_prefix logLevel =
     (if logLevel = 0 then ''[INFO] '' else if logLevel = 1 then ''[ERROR] ''
      else if logLevel = 2 then ''[FATAL] '' else if logLevel = 3 then ''[DEBUG] '' else [])"

text \<open>\<open>std::string::find\<close> of a text.\<close>

fun find_text :: "string \<Rightarrow> string \<Rightarrow> nat option" where
  "find_text p [] = (if p = [] then Some 0 else None)"
| "find_text p (c # s) = (if take (length p) (c # s) = p then Some 0 else map_option Suc (find_text p s))"

definition strip_project :: "string \<Rightarrow> string \<Rightarrow> string" where
  "strip_project project_prefix file_path =
     (if project_prefix \<noteq> [] then
        (case find_text project_prefix file_path of
           None \<Rightarrow> file_path
         | Some prefix_pos \<Rightarrow> drop (prefix_pos + length project_prefix) file_path)
      else file_path)"

record log_entry =
  le_file :: string
  le_line :: nat
  le_msg :: string
  le_time :: int

record log_env =
  lv_localtime :: "int \<Rightarrow> tm"
  lv_project :: string

definition log_text :: "log_env \<Rightarrow> int \<Rightarrow> log_entry \<Rightarrow> string" where
  "log_text env logLevel e =
     ''['' @ strip_project (lv_project env) (le_file e) @ '':'' @ nat_to_string (le_line e) @ '']'' @
     level_prefix logLevel @ timestamp_toString (lv_localtime env) (le_time e) @ '': '' @ le_msg e @ [CHR 0x0A]"

section \<open>The shared logger\<close>

text \<open>The accesses of a thread, and the process: the level, the lines printed and whether it has ended.\<close>

datatype log_event = SetLogLevel int | Log log_entry | ExitProcess

record LoggerState =
  logLevel :: int
  printed :: "string list"
  exited :: bool

fun log_step :: "log_env \<Rightarrow> log_event \<Rightarrow> LoggerState \<Rightarrow> LoggerState" where
  "log_step env (SetLogLevel level) s = (if exited s then s else s\<lparr>logLevel := level\<rparr>)"
| "log_step env (Log e) s = (if exited s then s else s\<lparr>printed := printed s @ [log_text env (logLevel s) e]\<rparr>)"
| "log_step env ExitProcess s = s\<lparr>exited := True\<rparr>"

text \<open>
  The macros: the message is formatted into a buffer of 1024 bytes; \<open>LOG_FATAL\<close> ends the process, and
  \<open>LOG_DEBUG\<close> is empty outside debug builds.
\<close>

definition log_macro :: "bool \<Rightarrow> LogLevel \<times> log_entry \<Rightarrow> log_event list" where
  "log_macro debug_build call =
     (case call of (l, e) \<Rightarrow>
        if l = L_DEBUG \<and> \<not> debug_build then []
        else [SetLogLevel (level_code l), Log (e\<lparr>le_msg := take 1023 (le_msg e)\<rparr>)] @ (if l = L_FATAL then [ExitProcess] else []))"

definition thread_events :: "bool \<Rightarrow> (LogLevel \<times> log_entry) list \<Rightarrow> log_event list" where
  "thread_events debug_build calls = concat (map (log_macro debug_build) calls)"

definition log_run :: "log_env \<Rightarrow> log_event list \<Rightarrow> LoggerState \<Rightarrow> LoggerState" where
  "log_run env evs s = fold (log_step env) evs s"

section \<open>One thread\<close>

definition entry_of :: "log_entry \<Rightarrow> log_entry" where
  "entry_of e = e\<lparr>le_msg := take 1023 (le_msg e)\<rparr>"

lemma log_run_append: "log_run env (xs @ ys) s = log_run env ys (log_run env xs s)"
  by (simp add: log_run_def)

text \<open>
  A single thread prints one line for each macro, with the level of that macro, and debug messages only
  in a debug build.
\<close>

theorem single_thread_levels:
  assumes "\<not> exited s" "\<forall>c \<in> set calls. fst c \<noteq> L_FATAL"
  shows "printed (log_run env (thread_events debug_build calls) s) =
    printed s @ map (\<lambda>(l, e). log_text env (level_code l) (entry_of e)) (filter (\<lambda>(l, e). l = L_DEBUG \<longrightarrow> debug_build) calls)"
  using assms
proof (induction calls arbitrary: s)
  case Nil
  then show ?case by (simp add: thread_events_def log_run_def)
next
  case (Cons c calls)
  obtain l e where c: "c = (l, e)" by (cases c)
  let ?s = "log_run env (log_macro debug_build c) s"
  have "\<not> exited ?s" "printed ?s = printed s @ (if l = L_DEBUG \<longrightarrow> debug_build then [log_text env (level_code l) (entry_of e)] else [])"
    using Cons.prems c by (auto simp: log_macro_def log_run_def entry_of_def)
  with Cons.IH [of ?s] Cons.prems(2) c show ?case
    by (auto simp: thread_events_def log_run_append)
qed

section \<open>Several threads\<close>

text \<open>The entries that a sequence of accesses prints, whatever their levels.\<close>

definition entries :: "log_event list \<Rightarrow> log_entry list" where
  "entries evs = concat (map (\<lambda>ev. case ev of Log e \<Rightarrow> [e] | _ \<Rightarrow> []) evs)"

lemma entries_simps [simp]:
  "entries [] = []" "entries (SetLogLevel l # evs) = entries evs" "entries (Log e # evs) = e # entries evs"
  "entries (ExitProcess # evs) = entries evs" "entries (xs @ ys) = entries xs @ entries ys"
  by (simp_all add: entries_def)

lemma entries_shuffles: "zs \<in> shuffles xs ys \<Longrightarrow> entries zs \<in> shuffles (entries xs) (entries ys)"
proof (induction xs ys arbitrary: zs rule: shuffles.induct)
  case (3 x xs y ys)
  then obtain z zs' where zs: "zs = z # zs'" by (cases zs) auto
  consider "z = x" "zs' \<in> shuffles xs (y # ys)" | "z = y" "zs' \<in> shuffles (x # xs) ys"
    using 3(3) unfolding zs by (auto simp: Cons_in_shuffles_iff)
  then show ?case
  proof cases
    case 1
    then show ?thesis using 3(1) [of zs'] unfolding zs by (cases x) (auto intro: Cons_in_shuffles_leftI)
  next
    case 2
    then show ?thesis using 3(2) [of zs'] unfolding zs by (cases y) (auto intro: Cons_in_shuffles_rightI)
  qed
qed simp_all

lemma log_run_lines:
  assumes "\<not> exited s" "ExitProcess \<notin> set evs" "logLevel s \<in> L" "\<forall>l. SetLogLevel l \<in> set evs \<longrightarrow> l \<in> L"
  shows "\<exists>ls. length ls = length (entries evs) \<and> set ls \<subseteq> L \<and>
    printed (log_run env evs s) = printed s @ map2 (log_text env) ls (entries evs)"
  using assms
proof (induction evs arbitrary: s)
  case Nil
  then show ?case by (simp add: log_run_def)
next
  case (Cons ev evs)
  have step: "log_run env (ev # evs) s = log_run env evs (log_step env ev s)" by (simp add: log_run_def)
  show ?case
  proof (cases ev)
    case (SetLogLevel l)
    then show ?thesis using Cons.IH [of "s\<lparr>logLevel := l\<rparr>"] Cons.prems unfolding step by auto
  next
    case (Log e)
    let ?s = "s\<lparr>printed := printed s @ [log_text env (logLevel s) e]\<rparr>"
    obtain ls where "length ls = length (entries evs)" "set ls \<subseteq> L" "printed (log_run env evs ?s) = printed ?s @ map2 (log_text env) ls (entries evs)"
      using Cons.IH [of ?s] Cons.prems by auto
    then show ?thesis unfolding step using Log Cons.prems by (intro exI [of _ "logLevel s # ls"]) simp
  next
    case ExitProcess
    then show ?thesis using Cons.prems(2) by simp
  qed
qed

definition kept_calls :: "bool \<Rightarrow> (LogLevel \<times> log_entry) list \<Rightarrow> (LogLevel \<times> log_entry) list" where
  "kept_calls debug_build calls = filter (\<lambda>(l, e). l = L_DEBUG \<longrightarrow> debug_build) calls"

lemma thread_events_facts:
  assumes "\<forall>c \<in> set calls. fst c \<noteq> L_FATAL"
  shows "entries (thread_events d calls) = map (entry_of \<circ> snd) (kept_calls d calls)" "ExitProcess \<notin> set (thread_events d calls)"
    "SetLogLevel l \<in> set (thread_events d calls) \<Longrightarrow> \<exists>c \<in> set (kept_calls d calls). l = level_code (fst c)"
    "thread_events d calls = [] \<or> (\<exists>c \<in> set (kept_calls d calls). hd (thread_events d calls) = SetLogLevel (level_code (fst c)))"
proof -
  have "entries (thread_events d calls) = map (entry_of \<circ> snd) (kept_calls d calls) \<and> ExitProcess \<notin> set (thread_events d calls) \<and>
    (\<forall>l. SetLogLevel l \<in> set (thread_events d calls) \<longrightarrow> (\<exists>c \<in> set (kept_calls d calls). l = level_code (fst c))) \<and>
    (thread_events d calls = [] \<or> (\<exists>c \<in> set (kept_calls d calls). hd (thread_events d calls) = SetLogLevel (level_code (fst c))))"
    using assms
  proof (induction calls)
    case (Cons c calls)
    then show ?case by (cases c) (auto simp: thread_events_def kept_calls_def log_macro_def entry_of_def)
  qed (simp_all add: thread_events_def kept_calls_def)
  then show "entries (thread_events d calls) = map (entry_of \<circ> snd) (kept_calls d calls)" "ExitProcess \<notin> set (thread_events d calls)"
    "SetLogLevel l \<in> set (thread_events d calls) \<Longrightarrow> \<exists>c \<in> set (kept_calls d calls). l = level_code (fst c)"
    "thread_events d calls = [] \<or> (\<exists>c \<in> set (kept_calls d calls). hd (thread_events d calls) = SetLogLevel (level_code (fst c)))"
    by blast+
qed

text \<open>
  However two threads interleave, every message is printed once and as a whole line, each thread's
  messages in their order, and every level printed is the level of some macro of the two threads: the
  level that the constructor leaves uninitialised is never read.
\<close>

theorem concurrent_log_lines:
  assumes "evs \<in> shuffles (thread_events d xs) (thread_events d ys)" "\<not> exited s"
    and "\<forall>c \<in> set xs \<union> set ys. fst c \<noteq> L_FATAL"
  shows "\<exists>es ls. es \<in> shuffles (map (entry_of \<circ> snd) (kept_calls d xs)) (map (entry_of \<circ> snd) (kept_calls d ys)) \<and>
    length ls = length es \<and> set ls \<subseteq> level_code ` fst ` (set (kept_calls d xs) \<union> set (kept_calls d ys)) \<and>
    printed (log_run env evs s) = printed s @ map2 (log_text env) ls es"
proof -
  let ?L = "level_code ` fst ` (set (kept_calls d xs) \<union> set (kept_calls d ys))"
  have xs: "\<forall>c \<in> set xs. fst c \<noteq> L_FATAL" and ys: "\<forall>c \<in> set ys. fst c \<noteq> L_FATAL" using assms(3) by auto
  note fx = thread_events_facts [OF xs, where d = d] and fy = thread_events_facts [OF ys, where d = d]
  have set: "set evs = set (thread_events d xs) \<union> set (thread_events d ys)" using set_shuffles [OF assms(1)] .
  have es: "entries evs \<in> shuffles (map (entry_of \<circ> snd) (kept_calls d xs)) (map (entry_of \<circ> snd) (kept_calls d ys))"
    using entries_shuffles [OF assms(1)] fx(1) fy(1) by simp
  have levels: "\<forall>l. SetLogLevel l \<in> set evs \<longrightarrow> l \<in> ?L" using set fx(3) fy(3) by (force simp: image_iff)
  show ?thesis
  proof (cases evs)
    case Nil
    then show ?thesis using es by (intro exI [of _ "[]"]) (simp add: log_run_def)
  next
    case (Cons ev rest)
    then have "ev = hd (thread_events d xs) \<and> thread_events d xs \<noteq> [] \<or> ev = hd (thread_events d ys) \<and> thread_events d ys \<noteq> []"
      using assms(1) by (auto simp: Cons_in_shuffles_iff)
    then obtain l where ev: "ev = SetLogLevel l" using fx(4) fy(4) by blast
    let ?s = "s\<lparr>logLevel := l\<rparr>"
    have run: "log_run env evs s = log_run env rest ?s" "entries evs = entries rest" using Cons ev assms(2) by (simp_all add: log_run_def)
    have "l \<in> ?L" using levels Cons ev by simp
    then obtain ls where "length ls = length (entries evs)" "set ls \<subseteq> ?L" "printed (log_run env evs s) = printed s @ map2 (log_text env) ls (entries evs)"
      using log_run_lines [of ?s rest ?L env] assms(2) levels set fx(2) fy(2) Cons unfolding run by auto
    then show ?thesis using es by blast
  qed
qed

text \<open>
  The level is not protected by the lock: between a thread's \<open>setLogLevel\<close> and its \<open>log\<close> another thread may
  set its own, and the message is printed with the wrong level.
\<close>

theorem log_level_race:
  assumes "\<not> exited s"
  shows "\<exists>evs \<in> shuffles (thread_events d [(L_INFO, e1)]) (thread_events d [(L_ERROR, e2)]).
    printed (log_run env evs s) = printed s @ [log_text env (level_code L_ERROR) (entry_of e1), log_text env (level_code L_ERROR) (entry_of e2)]"
proof
  let ?evs = "[SetLogLevel (level_code L_INFO), SetLogLevel (level_code L_ERROR), Log (entry_of e1), Log (entry_of e2)]"
  show "?evs \<in> shuffles (thread_events d [(L_INFO, e1)]) (thread_events d [(L_ERROR, e2)])"
    by (simp add: thread_events_def log_macro_def entry_of_def Cons_in_shuffles_iff)
  show "printed (log_run env ?evs s) = printed s @ [log_text env (level_code L_ERROR) (entry_of e1), log_text env (level_code L_ERROR) (entry_of e2)]"
    using assms by (simp add: log_run_def)
qed

theorem log_level_race_witness:
  "\<exists>evs. printed (log_run \<lparr>lv_localtime = \<lambda>_. \<lparr>tm_year = 125, tm_mon = 0, tm_mday = 2, tm_hour = 3, tm_min = 4, tm_sec = 5\<rparr>, lv_project = ''/p/''\<rparr> evs
      \<lparr>logLevel = 0, printed = [], exited = False\<rparr>) =
     [''[a.cpp:7][ERROR] 2025/01/02 03:04:05: started'' @ [CHR 0x0A], ''[a.cpp:8][ERROR] 2025/01/02 03:04:05: failed'' @ [CHR 0x0A]]"
proof -
  let ?env = "\<lparr>lv_localtime = \<lambda>_. \<lparr>tm_year = 125, tm_mon = 0, tm_mday = 2, tm_hour = 3, tm_min = 4, tm_sec = 5\<rparr>, lv_project = ''/p/''\<rparr>"
  let ?e = "\<lambda>l m. \<lparr>le_file = ''/p/a.cpp'', le_line = l, le_msg = m, le_time = 0\<rparr>"
  have "log_text ?env (level_code L_ERROR) (entry_of (?e 7 ''started'')) = ''[a.cpp:7][ERROR] 2025/01/02 03:04:05: started'' @ [CHR 0x0A]"
    "log_text ?env (level_code L_ERROR) (entry_of (?e 8 ''failed'')) = ''[a.cpp:8][ERROR] 2025/01/02 03:04:05: failed'' @ [CHR 0x0A]"
    by code_simp+
  then show ?thesis
    using log_level_race [of "\<lparr>logLevel = 0, printed = [], exited = False\<rparr>" False "?e 7 ''started''" "?e 8 ''failed''" ?env]
    by auto
qed

end
