(* ===== verification/ResultType.thy ===== *)
theory ResultType
  imports Prelude
begin

text \<open>
  The generic \<open>Result<T, E>\<close> of \<open>src/src/common/Result.h\<close>: a value or an error, with checked access and the
  chaining operations. A function passed to \<open>map\<close> or \<open>and_then\<close> may return, throw an error of type \<open>E\<close>,
  throw a standard exception, or throw something else; the conversion \<open>E(e.what())\<close> is an argument.
\<close>

datatype ('t, 'e) Result = HoldsValue 't | HoldsError 'e

definition success :: "'t \<Rightarrow> ('t, 'e) Result" where
  "success v = HoldsValue v"

definition failure :: "'e \<Rightarrow> ('t, 'e) Result" where
  "failure err = HoldsError err"

fun isSuccess :: "('t, 'e) Result \<Rightarrow> bool" where
  "isSuccess (HoldsValue v) \<longleftrightarrow> True"
| "isSuccess (HoldsError err) \<longleftrightarrow> False"

fun isFailure :: "('t, 'e) Result \<Rightarrow> bool" where
  "isFailure (HoldsValue v) \<longleftrightarrow> False"
| "isFailure (HoldsError err) \<longleftrightarrow> True"

datatype ('u, 'e) outcome = Returned 'u | ThrewError 'e | ThrewStd string | ThrewOther

fun result_value :: "('t, 'e) Result \<Rightarrow> ('t, 'e) outcome" where
  "result_value (HoldsValue v) = Returned v"
| "result_value (HoldsError err) = ThrewStd ''Attempted to access value of a failed Result''"

fun result_error :: "('t, 'e) Result \<Rightarrow> ('e, 'e) outcome" where
  "result_error (HoldsError err) = Returned err"
| "result_error (HoldsValue v) = ThrewStd ''Attempted to access error of a successful Result''"

fun value_or :: "('t, 'e) Result \<Rightarrow> 't \<Rightarrow> 't" where
  "value_or (HoldsValue v) defaultValue = v"
| "value_or (HoldsError err) defaultValue = defaultValue"

fun result_map :: "(string \<Rightarrow> 'e) \<Rightarrow> ('t \<Rightarrow> ('u, 'e) outcome) \<Rightarrow> ('t, 'e) Result \<Rightarrow> (('u, 'e) Result, 'e) outcome" where
  "result_map what_error func (HoldsError err) = Returned (failure err)"
| "result_map what_error func (HoldsValue v) =
     (case func v of
        Returned u \<Rightarrow> Returned (success u)
      | ThrewError err \<Rightarrow> Returned (failure err)
      | ThrewStd what \<Rightarrow> Returned (failure (what_error what))
      | ThrewOther \<Rightarrow> ThrewOther)"

fun and_then :: "(string \<Rightarrow> 'e) \<Rightarrow> ('t \<Rightarrow> (('u, 'e) Result, 'e) outcome) \<Rightarrow> ('t, 'e) Result \<Rightarrow> (('u, 'e) Result, 'e) outcome" where
  "and_then what_error func (HoldsError err) = Returned (failure err)"
| "and_then what_error func (HoldsValue v) =
     (case func v of
        Returned r \<Rightarrow> Returned r
      | ThrewError err \<Rightarrow> Returned (failure err)
      | ThrewStd what \<Rightarrow> Returned (failure (what_error what))
      | ThrewOther \<Rightarrow> ThrewOther)"

section \<open>Laws\<close>

lemma success_or_failure: "isFailure r \<longleftrightarrow> \<not> isSuccess r"
  by (cases r) simp_all

lemma accessors:
  "result_value r = Returned v \<longleftrightarrow> r = success v" "result_error r = Returned err \<longleftrightarrow> r = failure err"
  by (cases r; auto simp: success_def failure_def)+

text \<open>\<open>map\<close> is \<open>and_then\<close> with a function whose returned values are successes.\<close>

fun map_outcome_value :: "('u \<Rightarrow> 'v) \<Rightarrow> ('u, 'e) outcome \<Rightarrow> ('v, 'e) outcome" where
  "map_outcome_value f (Returned u) = Returned (f u)"
| "map_outcome_value f (ThrewError err) = ThrewError err"
| "map_outcome_value f (ThrewStd what) = ThrewStd what"
| "map_outcome_value f ThrewOther = ThrewOther"

lemma map_is_and_then: "result_map we func r = and_then we (\<lambda>v. map_outcome_value success (func v)) r"
  by (cases r) (auto split: outcome.split)

text \<open>A call whose result another call uses; an exception ends the whole expression.\<close>

fun use_outcome :: "('u, 'e) outcome \<Rightarrow> ('u \<Rightarrow> ('v, 'e) outcome) \<Rightarrow> ('v, 'e) outcome" where
  "use_outcome (Returned u) k = k u"
| "use_outcome (ThrewError err) k = ThrewError err"
| "use_outcome (ThrewStd what) k = ThrewStd what"
| "use_outcome ThrewOther k = ThrewOther"

lemma and_then_exceptions: "(\<exists>q. and_then we f r = Returned q) \<or> and_then we f r = ThrewOther"
  by (cases r) (auto split: outcome.split)

lemma chain_exceptions:
  "(\<exists>q. use_outcome (and_then we f r) (and_then we g) = Returned q) \<or> use_outcome (and_then we f r) (and_then we g) = ThrewOther"
proof (cases "and_then we f r = ThrewOther")
  case False
  then obtain q where "and_then we f r = Returned q" using and_then_exceptions by blast
  then show ?thesis using and_then_exceptions [of we g q] by simp
qed simp

text \<open>
  \<open>and_then\<close> chains as a monad: a success passes its value on, a failure skips every later step, and the
  grouping of the steps does not matter. No error and no standard exception of a step leaves the chain.
\<close>

theorem and_then_chains:
  "and_then we (\<lambda>v. Returned (success v)) r = Returned r \<and>
   and_then we f (failure err) = Returned (failure err) \<and>
   use_outcome (and_then we f r) (and_then we g) = and_then we (\<lambda>v. use_outcome (and_then we f (success v)) (and_then we g)) r \<and>
   ((\<exists>q. use_outcome (and_then we f r) (and_then we g) = Returned q) \<or> use_outcome (and_then we f r) (and_then we g) = ThrewOther)"
proof (intro conjI)
  show "and_then we (\<lambda>v. Returned (success v)) r = Returned r" by (cases r) (simp_all add: success_def failure_def)
  show "and_then we f (failure err) = Returned (failure err)" by (simp add: failure_def)
  have g: "(case use_outcome (and_then we f q) (and_then we g) of Returned r \<Rightarrow> Returned r | ThrewError err \<Rightarrow> Returned (failure err)
      | ThrewStd what \<Rightarrow> Returned (failure (we what)) | ThrewOther \<Rightarrow> ThrewOther) = use_outcome (and_then we f q) (and_then we g)" for q
    using chain_exceptions [of we f q g] by auto
  show "use_outcome (and_then we f r) (and_then we g) = and_then we (\<lambda>v. use_outcome (and_then we f (success v)) (and_then we g)) r"
  proof (cases r)
    case (HoldsValue v)
    show ?thesis
      unfolding HoldsValue success_def
      using and_then.simps(2) [of we "\<lambda>v. use_outcome (and_then we f (HoldsValue v)) (and_then we g)" v] unfolding g by (rule sym)
  next
    case (HoldsError err)
    then show ?thesis by (simp add: failure_def)
  qed
  show "(\<exists>q. use_outcome (and_then we f r) (and_then we g) = Returned q) \<or> use_outcome (and_then we f r) (and_then we g) = ThrewOther"
    by (rule chain_exceptions)
qed

end
