(* ===== verification/MiniJudger.thy ===== *)
theory MiniJudger
  imports Sjudger FileSystem
begin

text \<open>
  The tutorial's judger, \<open>sjudge/demo_code_for_tutorial/06_mini_judger.cpp\<close>: one program, one test case. The
  child is a sequence of calls like that of the sandbox, the parent a polling loop over the same
  observations (\<open>child_process\<close>), and the verdict a function of what the loop measured. The main theorem
  compares it with the monitor of the sandbox: both stop in the same round and measure the same.
\<close>

section \<open>Data\<close>

datatype mini_verdict = Mini_AC | Mini_TLE | Mini_MLE | Mini_RE | Mini_SYSTEM_ERROR

record mini_config =
  mc_exe :: string
  mc_args :: "string list"
  mc_input :: string
  mc_output :: string
  mc_real_time_limit_ms :: int
  mc_cpu_time_limit_ms :: int
  mc_memory_limit_bytes :: uint64

record mini_result =
  mn_verdict :: mini_verdict
  mn_exit_code :: int
  mn_signal :: int
  mn_real_time_ms :: int
  mn_cpu_time_ms :: int
  mn_memory_bytes :: int

definition default_mini_config :: mini_config where
  "default_mini_config =
     \<lparr>mc_exe = [], mc_args = [], mc_input = [], mc_output = [], mc_real_time_limit_ms = 1000,
      mc_cpu_time_limit_ms = 1000, mc_memory_limit_bytes = 0\<rparr>"

definition default_mini_result :: mini_result where
  "default_mini_result =
     \<lparr>mn_verdict = Mini_SYSTEM_ERROR, mn_exit_code = 0, mn_signal = 0, mn_real_time_ms = 0, mn_cpu_time_ms = 0, mn_memory_bytes = 0\<rparr>"

fun mini_to_string :: "mini_verdict \<Rightarrow> string" where
  "mini_to_string Mini_AC = ''AC''"
| "mini_to_string Mini_TLE = ''TLE''"
| "mini_to_string Mini_MLE = ''MLE''"
| "mini_to_string Mini_RE = ''RE''"
| "mini_to_string Mini_SYSTEM_ERROR = ''SYSTEM_ERROR''"

section \<open>The child\<close>

definition redirect_or_exit :: "kernel \<Rightarrow> Syscall \<Rightarrow> int \<Rightarrow> child_step" where
  "redirect_or_exit k open_call target_fd =
     then_step (or_exit (all_succeed k [open_call, Dup2 target_fd]) 100) (ignored CloseFd)"

definition apply_memory_limit_or_exit :: "kernel \<Rightarrow> uint64 \<Rightarrow> child_step" where
  "apply_memory_limit_or_exit k bytes =
     (if bytes = 0 then skip_step else or_exit (all_succeed k [Setrlimit RLIMIT_AS bytes]) 101)"

definition mini_child :: "kernel \<Rightarrow> mini_config \<Rightarrow> int option \<times> Syscall list" where
  "mini_child k config =
     then_step (redirect_or_exit k (OpenRead (mc_input config)) 0)
       (then_step (redirect_or_exit k (OpenTrunc (mc_output config)) 1)
         (then_step (apply_memory_limit_or_exit k (mc_memory_limit_bytes config))
           (or_exit (all_succeed k [Execve (mc_exe config) (if mc_args config = [] then [mc_exe config] else mc_args config)]) 127))) []"

section \<open>The parent\<close>

definition map_result :: "mini_config \<Rightarrow> mini_result \<Rightarrow> bool \<Rightarrow> mini_verdict" where
  "map_result config raw timed_out =
     (if timed_out then Mini_TLE
      else if mc_memory_limit_bytes config > 0 \<and> mn_memory_bytes raw > sint (mc_memory_limit_bytes config) then Mini_MLE
      else if mc_memory_limit_bytes config > 0 \<and>
        (mn_signal raw = SIGSEGV \<or> mn_signal raw = SIGABRT \<or> mn_signal raw = SIGKILL \<or> mn_exit_code raw = 127) then Mini_MLE
      else if mc_cpu_time_limit_ms config > 0 \<and> mn_cpu_time_ms raw > mc_cpu_time_limit_ms config then Mini_TLE
      else if mn_signal raw \<noteq> 0 \<or> mn_exit_code raw \<noteq> 0 then Mini_RE
      else Mini_AC)"

text \<open>\<open>no_signal\<close> is the value stored for a status without a signal: 0, or \<open>SIGKILL\<close> after a kill.\<close>

definition mini_fill :: "mini_result \<Rightarrow> int \<Rightarrow> rusage \<Rightarrow> int \<Rightarrow> mini_result" where
  "mini_fill result status usage no_signal =
     result\<lparr>mn_exit_code := if WIFEXITED status then WEXITSTATUS status else 0,
            mn_signal := if WIFSIGNALED status then WTERMSIG status else no_signal,
            mn_cpu_time_ms := timeval_to_ms (ru_utime_sec usage) (ru_utime_usec usage),
            mn_memory_bytes := ru_maxrss usage * 1024\<rparr>"

definition no_usage :: rusage where
  "no_usage = \<lparr>ru_utime_sec = 0, ru_utime_usec = 0, ru_maxrss = 0\<rparr>"

text \<open>
  The loop; \<open>Inl\<close> is the early return with a system error, \<open>Inr\<close> a break with the flag \<open>timed_out\<close>. The
  blocking \<open>wait4\<close> after the kill is not checked: when it fails, status and usage stay zero.
\<close>

partial_function (option) mini_loop :: "child_process \<Rightarrow> int \<Rightarrow> nat \<Rightarrow> mini_result \<Rightarrow> (mini_result + mini_result \<times> bool) option" where
  "mini_loop p limit i result =
     (case cp_poll p i of
        Ended status usage \<Rightarrow>
          Some (Inr ((mini_fill result status usage 0)\<lparr>mn_real_time_ms := wrap32 (cp_elapsed p i)\<rparr>, False))
      | WaitError \<Rightarrow> Some (Inl (result\<lparr>mn_verdict := Mini_SYSTEM_ERROR\<rparr>))
      | StillRunning \<Rightarrow>
          (let result' = result\<lparr>mn_real_time_ms := wrap32 (cp_elapsed p i)\<rparr> in
           if limit > 0 \<and> wrap32 (cp_elapsed p i) > limit then
             (case (case cp_reap p i of None \<Rightarrow> (0, no_usage) | Some su \<Rightarrow> su) of
                (status, usage) \<Rightarrow> Some (Inr (mini_fill result' status usage SIGKILL, True)))
           else mini_loop p limit (Suc i) result'))"

declare mini_loop.simps [code]

text \<open>\<open>run_case\<close>; None for the child is a failed \<open>fork\<close>.\<close>

definition run_case :: "child_process option \<Rightarrow> mini_config \<Rightarrow> mini_result option" where
  "run_case child config =
     (case child of
        None \<Rightarrow> Some (default_mini_result\<lparr>mn_verdict := Mini_SYSTEM_ERROR\<rparr>)
      | Some p \<Rightarrow>
          (case mini_loop p (mc_real_time_limit_ms config) 0 default_mini_result of
             None \<Rightarrow> None
           | Some (Inl result) \<Rightarrow> Some result
           | Some (Inr (result, timed_out)) \<Rightarrow> Some (result\<lparr>mn_verdict := map_result config result timed_out\<rparr>)))"

section \<open>The demonstration\<close>

text \<open>\<open>make_config\<close> throws (None) when the directory cannot be created; the stream is not checked.\<close>

definition make_config :: "string \<Rightarrow> string \<Rightarrow> FileSystem \<Rightarrow> (mini_config \<times> FileSystem) option" where
  "make_config mode self_path fs =
     (case create_directories ''demo_tmp'' fs of
        (False, fs1) \<Rightarrow> None
      | (True, fs1) \<Rightarrow>
          let fs2 = snd (write_file ''demo_tmp/mini.in'' (''hello'' @ [CHR 0x0A]) fs1);
              config = default_mini_config\<lparr>mc_input := ''demo_tmp/mini.in'', mc_output := ''demo_tmp/mini.out''\<rparr>
          in Some
            (if mode = ''ok'' then config\<lparr>mc_exe := ''/bin/cat'', mc_args := [''/bin/cat'']\<rparr>
             else if mode = ''re'' then config\<lparr>mc_exe := ''/bin/sh'', mc_args := [''/bin/sh'', ''-c'', ''exit 3'']\<rparr>
             else if mode = ''tle'' then
               config\<lparr>mc_exe := ''/bin/sleep'', mc_args := [''/bin/sleep'', ''10''], mc_real_time_limit_ms := 300\<rparr>
             else if mode = ''mle'' then
               config\<lparr>mc_exe := self_path, mc_args := [self_path, ''--alloc-memory''], mc_memory_limit_bytes := 64 * 1024 * 1024\<rparr>
             else config\<lparr>mc_exe := ''/bin/sh'', mc_args := [''/bin/sh'', ''-c'', ''echo unknown mode; exit 2'']\<rparr>, fs2))"

definition mini_report :: "mini_result \<Rightarrow> string" where
  "mini_report r =
     ''verdict='' @ mini_to_string (mn_verdict r) @ '' exit_code='' @ int_to_string (mn_exit_code r) @
     '' signal='' @ int_to_string (mn_signal r) @ '' real_time_ms='' @ int_to_string (mn_real_time_ms r) @
     '' cpu_time_ms='' @ int_to_string (mn_cpu_time_ms r) @ '' memory_bytes='' @ int_to_string (mn_memory_bytes r) @ [CHR 0x0A]"

text \<open>
  \<open>main\<close> without the allocating mode, which the child runs; \<open>child\<close> is what the parent observes of the child of
  a configuration. None is an uncaught exception or a loop without end.
\<close>

definition mini_main :: "(mini_config \<Rightarrow> child_process option) \<Rightarrow> string list \<Rightarrow> FileSystem \<Rightarrow> (string \<times> FileSystem) option" where
  "mini_main child argv fs =
     (let mode = (if length argv > 1 then argv ! 1 else ''ok'') in
      case make_config mode (hd argv) fs of
        None \<Rightarrow> None
      | Some (config, fs') \<Rightarrow> map_option (\<lambda>r. (mini_report r, fs')) (run_case (child config) config))"

section \<open>When the loop ends\<close>

definition mini_stops :: "child_process \<Rightarrow> int \<Rightarrow> nat \<Rightarrow> bool" where
  "mini_stops p limit i \<longleftrightarrow> cp_poll p i \<noteq> StillRunning \<or> limit > 0 \<and> wrap32 (cp_elapsed p i) > limit"

definition mini_final :: "child_process \<Rightarrow> nat \<Rightarrow> mini_result \<Rightarrow> mini_result + mini_result \<times> bool" where
  "mini_final p i result =
     (case cp_poll p i of
        Ended status usage \<Rightarrow> Inr ((mini_fill result status usage 0)\<lparr>mn_real_time_ms := wrap32 (cp_elapsed p i)\<rparr>, False)
      | WaitError \<Rightarrow> Inl (result\<lparr>mn_verdict := Mini_SYSTEM_ERROR\<rparr>)
      | StillRunning \<Rightarrow>
          (case (case cp_reap p i of None \<Rightarrow> (0, no_usage) | Some su \<Rightarrow> su) of
             (status, usage) \<Rightarrow> Inr (mini_fill (result\<lparr>mn_real_time_ms := wrap32 (cp_elapsed p i)\<rparr>) status usage SIGKILL, True)))"

lemma mini_loop_at:
  assumes "mini_stops p limit (i + n)" "\<forall>j < n. \<not> mini_stops p limit (i + j)"
  shows "\<exists>t. mini_loop p limit i result = Some (mini_final p (i + n) (result\<lparr>mn_real_time_ms := t\<rparr>))"
  using assms
proof (induction n arbitrary: i result)
  case 0
  then have "mini_loop p limit i result = Some (mini_final p i (result\<lparr>mn_real_time_ms := mn_real_time_ms result\<rparr>))"
    by (subst mini_loop.simps) (auto simp: mini_stops_def mini_final_def Let_def split: wait_answer.splits option.split)
  then show ?case by (intro exI [of _ "mn_real_time_ms result"]) simp
next
  case (Suc n)
  have "\<not> mini_stops p limit i" using Suc.prems(2) by (metis add.right_neutral zero_less_Suc)
  then have "mini_loop p limit i result = mini_loop p limit (Suc i) (result\<lparr>mn_real_time_ms := wrap32 (cp_elapsed p i)\<rparr>)"
    by (subst mini_loop.simps) (auto simp: mini_stops_def Let_def)
  moreover have "mini_stops p limit (Suc i + n)" "\<forall>j < n. \<not> mini_stops p limit (Suc i + j)"
    using Suc.prems by (auto simp: add_Suc_right [symmetric] simp del: add_Suc_right)
  ultimately show ?case using Suc.IH [of "Suc i" "result\<lparr>mn_real_time_ms := wrap32 (cp_elapsed p i)\<rparr>"] by simp
qed

lemma mini_loop_diverges:
  assumes "mini_loop p limit i result = Some y"
  shows "\<exists>n \<ge> i. mini_stops p limit n"
  using _ assms
proof (rule mini_loop.raw_induct [where P = "\<lambda>p limit i result y. \<exists>n \<ge> i. mini_stops p limit n"])
  fix loop p limit i result y
  assume IH: "\<And>p limit i result y. loop p limit i result = Some y \<Longrightarrow> \<exists>n \<ge> i. mini_stops p limit n"
    and step: "(case cp_poll p i of
        WaitError \<Rightarrow> Some (Inl (result\<lparr>mn_verdict := Mini_SYSTEM_ERROR\<rparr>))
      | StillRunning \<Rightarrow>
          (let result' = result\<lparr>mn_real_time_ms := wrap32 (cp_elapsed p i)\<rparr> in
           if limit > 0 \<and> wrap32 (cp_elapsed p i) > limit then
             (case (case cp_reap p i of None \<Rightarrow> (0, no_usage) | Some su \<Rightarrow> su) of
                (status, usage) \<Rightarrow> Some (Inr (mini_fill result' status usage SIGKILL, True)))
           else loop p limit (Suc i) result')
      | Ended status usage \<Rightarrow>
          Some (Inr ((mini_fill result status usage 0)\<lparr>mn_real_time_ms := wrap32 (cp_elapsed p i)\<rparr>, False))) = Some y"
  show "\<exists>n \<ge> i. mini_stops p limit n"
  proof (cases "mini_stops p limit i")
    case False
    with step have "loop p limit (Suc i) (result\<lparr>mn_real_time_ms := wrap32 (cp_elapsed p i)\<rparr>) = Some y"
      by (auto simp: mini_stops_def Let_def)
    then have "\<exists>n \<ge> Suc i. mini_stops p limit n" by (rule IH)
    then show ?thesis using Suc_leD by blast
  qed blast
qed

lemma mini_loop_result:
  assumes "mini_loop p limit 0 default_mini_result = Some out"
  obtains n t where "mini_stops p limit n" "\<forall>i < n. \<not> mini_stops p limit i" "out = mini_final p n (default_mini_result\<lparr>mn_real_time_ms := t\<rparr>)"
proof -
  have "\<exists>n. mini_stops p limit n" using mini_loop_diverges [OF assms] by blast
  then obtain n where n: "mini_stops p limit n" "\<forall>i < n. \<not> mini_stops p limit i"
    using exists_least_iff [of "mini_stops p limit"] by blast
  then show ?thesis using that [OF n] mini_loop_at [of p limit 0 n default_mini_result] assms by auto
qed

lemma signaled_termsig: "WIFSIGNALED status \<Longrightarrow> WTERMSIG status \<noteq> 0"
  by (auto simp: WIFSIGNALED_def)

section \<open>The verdict\<close>

text \<open>
  The mini judger reports AC exactly when the first poll that stops the loop finds the child ended without
  a signal and with exit code 0, within the memory limit and within the CPU limit where they are set.
\<close>

theorem mini_accepted_iff:
  assumes "run_case (Some p) config = Some r"
  shows "mn_verdict r = Mini_AC \<longleftrightarrow>
    (\<exists>n status usage. (\<forall>i < n. \<not> mini_stops p (mc_real_time_limit_ms config) i) \<and> cp_poll p n = Ended status usage \<and>
       \<not> WIFSIGNALED status \<and> (WIFEXITED status \<longrightarrow> WEXITSTATUS status = 0) \<and>
       (mc_memory_limit_bytes config > 0 \<longrightarrow> ru_maxrss usage * 1024 \<le> sint (mc_memory_limit_bytes config)) \<and>
       (mc_cpu_time_limit_ms config > 0 \<longrightarrow> timeval_to_ms (ru_utime_sec usage) (ru_utime_usec usage) \<le> mc_cpu_time_limit_ms config))"
proof -
  let ?limit = "mc_real_time_limit_ms config"
  from assms obtain out where out: "mini_loop p ?limit 0 default_mini_result = Some out"
    and r: "Some r = (case out of Inl result \<Rightarrow> Some result | Inr (result, timed_out) \<Rightarrow> Some (result\<lparr>mn_verdict := map_result config result timed_out\<rparr>))"
    by (auto simp: run_case_def split: option.splits)
  from mini_loop_result [OF out] obtain n t where n: "mini_stops p ?limit n" "\<forall>i < n. \<not> mini_stops p ?limit i"
    and fin: "out = mini_final p n (default_mini_result\<lparr>mn_real_time_ms := t\<rparr>)" by blast
  have first: "(\<forall>i < m. \<not> mini_stops p ?limit i) \<and> cp_poll p m = Ended status usage \<longleftrightarrow> m = n \<and> cp_poll p n = Ended status usage" for m status usage
    using n by (metis (mono_tags) linorder_neqE_nat mini_stops_def wait_answer.distinct(5))
  show ?thesis
  proof (cases "cp_poll p n")
    case (Ended status usage)
    have "mn_verdict r = map_result config (mini_fill (default_mini_result\<lparr>mn_real_time_ms := t\<rparr>) status usage 0\<lparr>mn_real_time_ms := wrap32 (cp_elapsed p n)\<rparr>) False"
      using r fin Ended by (simp add: mini_final_def)
    then have "mn_verdict r = Mini_AC \<longleftrightarrow> \<not> WIFSIGNALED status \<and> (WIFEXITED status \<longrightarrow> WEXITSTATUS status = 0) \<and>
       (mc_memory_limit_bytes config > 0 \<longrightarrow> ru_maxrss usage * 1024 \<le> sint (mc_memory_limit_bytes config)) \<and>
       (mc_cpu_time_limit_ms config > 0 \<longrightarrow> timeval_to_ms (ru_utime_sec usage) (ru_utime_usec usage) \<le> mc_cpu_time_limit_ms config)"
      using signaled_termsig [of status]
      by (auto simp: map_result_def mini_fill_def SIGSEGV_def SIGABRT_def SIGKILL_def)
    then show ?thesis unfolding conj_assoc [symmetric] first [unfolded conj_assoc [symmetric]] using Ended by auto
  next
    case WaitError
    then have "mn_verdict r = Mini_SYSTEM_ERROR" using r fin by (simp add: mini_final_def)
    then show ?thesis using first WaitError by auto
  next
    case StillRunning
    then have "mn_verdict r = Mini_TLE" using r fin by (auto simp: mini_final_def map_result_def split: prod.splits)
    then show ?thesis using first StillRunning by auto
  qed
qed

section \<open>The monitor of the sandbox\<close>

lemma limit_word:
  assumes "0 \<le> limit" "limit < 2 ^ 31"
  shows "sint (word_of_int limit :: uint32) = limit" "(word_of_int limit :: uint32) > 0 \<longleftrightarrow> limit > 0"
proof -
  show s: "sint (word_of_int limit :: uint32) = limit"
    using assms by (simp add: sint_uint uint_word_of_int signed_take_bit_int_eq_self)
  show "(word_of_int limit :: uint32) > 0 \<longleftrightarrow> limit > 0" using s assms(1) by (cases "limit = 0") (auto simp: word_gt_0)
qed

lemma mini_stops_monitor:
  assumes "0 \<le> limit" "limit < 2 ^ 31"
  shows "mini_stops p limit i \<longleftrightarrow> stops_at p (word_of_int limit) i"
  using limit_word [OF assms] by (simp add: mini_stops_def stops_at_def real_time_limit_exceeded_def)

text \<open>
  For limits up to \<open>INT_MAX\<close> the mini judger's loop ends exactly when the sandbox monitor's does. Both agree on
  a failed \<open>wait4\<close> and on the time-out, and unless the monitor reports an error they measure the same exit
  code, signal, CPU time and memory.
\<close>

theorem mini_agrees_with_monitor:
  assumes "0 \<le> limit" "limit < 2 ^ 31"
  shows "(mini_loop p limit 0 default_mini_result = None \<longleftrightarrow> monitor_child_process p (word_of_int limit) = None) \<and>
    (\<forall>out mr calls. mini_loop p limit 0 default_mini_result = Some out \<and> monitor_child_process p (word_of_int limit) = Some (mr, calls) \<longrightarrow>
       (case out of
          Inl r \<Rightarrow> mr_error mr \<noteq> 0 \<and> \<not> mr_timed_out mr
        | Inr (r, timed_out) \<Rightarrow> timed_out = mr_timed_out mr \<and>
            (mr_error mr = 0 \<longrightarrow> mn_exit_code r = mr_exit_code mr \<and> mn_signal r = mr_signal mr \<and>
               mn_cpu_time_ms r = mr_cpu_time_ms mr \<and> mn_memory_bytes r = mr_memory_bytes mr)))"
proof (cases "\<exists>n. stops_at p (word_of_int limit) n")
  case False
  then have "mini_loop p limit 0 default_mini_result = None" "monitor_child_process p (word_of_int limit) = None"
    using mini_loop_diverges [of p limit 0 default_mini_result] monitor_stops_iff [of p "word_of_int limit"] mini_stops_monitor [OF assms]
    by (metis not_None_eq)+
  then show ?thesis by simp
next
  case True
  then obtain n where n: "first_stop p (word_of_int limit) n" using first_stop_exists by blast
  then have "mini_stops p limit n" "\<forall>i < n. \<not> mini_stops p limit i" using mini_stops_monitor [OF assms] by (simp_all add: first_stop_def)
  then obtain t where mini: "mini_loop p limit 0 default_mini_result = Some (mini_final p n (default_mini_result\<lparr>mn_real_time_ms := t\<rparr>))"
    using mini_loop_at [of p limit 0 n default_mini_result] by auto
  obtain t' where mon: "monitor_child_process p (word_of_int limit) =
      Some (final_result p n (default_monitor_result\<lparr>mr_real_time_ms := t'\<rparr>), wait_calls n @ final_calls p n)"
    using monitor_first_stop [OF n] by blast
  have err: "judge_code J_WAIT_FAILED \<noteq> 0" by simp
  show ?thesis unfolding mini mon
    using signaled_termsig err
    by (auto simp: mini_final_def final_result_def mini_fill_def fill_result_from_wait_status_def collect_killed_child_def
        default_monitor_result_def Let_def split: wait_answer.splits option.splits)
qed

theorem mini_accepted_iff_witness:
  "\<exists>r. run_case (Some \<lparr>cp_poll = (\<lambda>i. if i < 2 then StillRunning else Ended 0 \<lparr>ru_utime_sec = 0, ru_utime_usec = 5000, ru_maxrss = 1000\<rparr>),
       cp_elapsed = (\<lambda>i. int i), cp_reap = (\<lambda>_. None), cp_reap_elapsed = (\<lambda>i. int i)\<rparr>) default_mini_config = Some r \<and> mn_verdict r = Mini_AC"
proof -
  let ?p = "\<lparr>cp_poll = (\<lambda>i. if i < 2 then StillRunning else Ended 0 \<lparr>ru_utime_sec = 0, ru_utime_usec = 5000, ru_maxrss = 1000\<rparr>),
       cp_elapsed = (\<lambda>i. int i), cp_reap = (\<lambda>_. None), cp_reap_elapsed = (\<lambda>i. int i)\<rparr>"
  have "map_option mn_exit_code (run_case (Some ?p) default_mini_config) = Some 0" by code_simp
  then obtain r where r: "run_case (Some ?p) default_mini_config = Some r" by auto
  have "WIFEXITED 0 \<and> WEXITSTATUS 0 = 0 \<and> \<not> WIFSIGNALED 0" using wait_macros_exit [of 0] by (simp add: exit_status_def)
  moreover have "\<not> mini_stops ?p 1000 i" if "i < 2" for i
    using that by (simp add: mini_stops_def wrap32_id)
  ultimately have "mn_verdict r = Mini_AC"
    unfolding mini_accepted_iff [OF r]
    by (intro exI [of _ 2] exI [of _ 0] exI [of _ "\<lparr>ru_utime_sec = 0, ru_utime_usec = 5000, ru_maxrss = 1000\<rparr>"])
      (simp add: default_mini_config_def timeval_to_ms_def wrap32_id)
  with r show ?thesis by blast
qed

end
