(* ===== verification/TestlibRandom.thy ===== *)
theory TestlibRandom
  imports TestlibPattern "HOL-Library.Word" "HOL-Library.Multiset"
begin

unbundle bit_operations_syntax

text \<open>
  The random numbers of \<open>checker/src/testlib.h\<close>: the 48-bit linear congruential generator of \<open>random_t\<close>, the
  bounded numbers drawn from it by rejection, the strings that \<open>pattern::next\<close> generates and \<open>shuffle\<close>. The
  generator visits every state, whatever the seed, so that the rejection loops end; the numbers lie in the
  range asked for, and a generated string belongs to the language of its pattern.

  A failure (\<open>__testlib_fail\<close>) is the exit code \<open>Inl\<close>, a loop without end is None. Where the code draws two
  numbers in one expression, whose order C++ leaves open, the model draws the left one first.
\<close>

section \<open>The generator\<close>

type_synonym seed = "64 word"

definition multiplier :: seed where "multiplier = 0x5DEECE66D"

definition addend :: seed where "addend = 0xB"

definition seed_mask :: seed where "seed_mask = push_bit 48 1 - 1"

definition random_t :: seed where "random_t = 3905348978240129619"

text \<open>The assignment to \<open>seed\<close> in \<open>nextBits\<close>.\<close>

definition next_seed :: "seed \<Rightarrow> seed" where
  "next_seed s = (s * multiplier + addend) AND seed_mask"

definition testlib_fail :: "'a checked" where
  "testlib_fail = Inl (resultExitCode R_fail)"

definition small_bits :: "nat \<Rightarrow> seed \<Rightarrow> int \<times> seed" where
  "small_bits bits s = (let s' = next_seed s in (uint (drop_bit (48 - bits) s'), s'))"

definition large_bits :: "int \<Rightarrow> seed \<Rightarrow> int \<times> seed" where
  "large_bits version s =
     (case small_bits 31 s of
        (high, s1) \<Rightarrow> (case small_bits (if version = 0 then 31 else 32) s1 of (low, s2) \<Rightarrow> (push_bit 32 high XOR low, s2)))"

definition nextBits :: "int \<Rightarrow> nat \<Rightarrow> seed \<Rightarrow> (int \<times> seed) checked" where
  "nextBits version bits s =
     (if bits \<le> 48 then Inr (small_bits bits s)
      else if bits > 63 then testlib_fail
      else Inr (large_bits version s))"

text \<open>\<open>setSeed\<close> from the command line (the arguments after the program's name; a character is sign-extended) and from a value.\<close>

definition seed_char :: "seed \<Rightarrow> char \<Rightarrow> seed" where
  "seed_char s c = s * multiplier + word_of_int (schar c mod 2 ^ 32) + addend"

definition seed_arg :: "seed \<Rightarrow> string \<Rightarrow> seed" where
  "seed_arg s a = foldl seed_char s a + multiplier div addend"

definition setSeed_args :: "string list \<Rightarrow> seed" where
  "setSeed_args arguments = foldl seed_arg 3905348978240129619 arguments AND seed_mask"

definition setSeed :: "int \<Rightarrow> seed" where
  "setSeed v = (word_of_int v XOR multiplier) AND seed_mask"

section \<open>Bounded numbers\<close>

text \<open>\<open>do bits = draw(); while (bits >= limit)\<close>\<close>

partial_function (option) reject_loop :: "(seed \<Rightarrow> int \<times> seed) \<Rightarrow> int \<Rightarrow> seed \<Rightarrow> (int \<times> seed) option" where
  "reject_loop draw limit s = (case draw s of (bits, s') \<Rightarrow> if bits \<ge> limit then reject_loop draw limit s' else Some (bits, s'))"

declare reject_loop.simps [code]

definition next_int :: "int \<Rightarrow> seed \<Rightarrow> (int \<times> seed) checked option" where
  "next_int n s =
     (if n \<le> 0 then Some testlib_fail
      else if n AND - n = n then
        (case small_bits 31 s of (bits, s') \<Rightarrow> Some (Inr (drop_bit 31 (n * bits), s')))
      else map_option (\<lambda>(bits, s'). Inr (bits mod n, s')) (reject_loop (small_bits 31) (INT_MAX div n * n) s))"

definition next_uint :: "int \<Rightarrow> seed \<Rightarrow> (int \<times> seed) checked option" where
  "next_uint n s = (if n \<ge> INT_MAX then Some testlib_fail else next_int n s)"

definition LLONG_MAX :: int where "LLONG_MAX = 9223372036854775807"

definition next_long :: "int \<Rightarrow> int \<Rightarrow> seed \<Rightarrow> (int \<times> seed) checked option" where
  "next_long version n s =
     (if n \<le> 0 then Some testlib_fail
      else map_option (\<lambda>(bits, s'). Inr (bits mod n, s')) (reject_loop (large_bits version) (LLONG_MAX div n * n) s))"

definition next_ulong :: "int \<Rightarrow> int \<Rightarrow> seed \<Rightarrow> (int \<times> seed) checked option" where
  "next_ulong version n s = (if n \<ge> LLONG_MAX then Some testlib_fail else next_long version n s)"

text \<open>
  The ranges: for \<open>int\<close> the width is computed in 64 bits, for \<open>long long\<close> it wraps (the compiled code), for the
  unsigned types it is reduced modulo the word.
\<close>

definition add_to :: "int \<Rightarrow> (int \<times> seed) checked option \<Rightarrow> (int \<times> seed) checked option" where
  "add_to from = map_option (map_sum id (\<lambda>(v, s). (v + from, s)))"

definition next_range_int :: "int \<Rightarrow> int \<Rightarrow> int \<Rightarrow> seed \<Rightarrow> (int \<times> seed) checked option" where
  "next_range_int version from to s = add_to from (next_long version (to - from + 1) s)"

definition next_range_long :: "int \<Rightarrow> int \<Rightarrow> int \<Rightarrow> seed \<Rightarrow> (int \<times> seed) checked option" where
  "next_range_long version from to s = add_to from (next_long version (wrap64 (to - from + 1)) s)"

definition next_range_ulong :: "int \<Rightarrow> int \<Rightarrow> int \<Rightarrow> seed \<Rightarrow> (int \<times> seed) checked option" where
  "next_range_ulong version from to s =
     (if from > to then Some testlib_fail else add_to from (next_ulong version ((to - from + 1) mod 2 ^ 64) s))"

text \<open>\<open>any\<close> on a container.\<close>

definition any_of :: "int \<Rightarrow> 'a list \<Rightarrow> seed \<Rightarrow> ('a \<times> seed) checked option" where
  "any_of version c s =
     (if c = [] then Some testlib_fail
      else map_option (map_sum id (\<lambda>(i, s'). (c ! nat i, s'))) (next_ulong version (int (length c)) s))"

section \<open>Every state is reached\<close>

text \<open>The generator without the reduction modulo \<open>2^48\<close>.\<close>

definition lcg :: "int \<Rightarrow> int" where
  "lcg x = 25214903917 * x + 11"

lemma next_seed_int: "uint (next_seed s) = lcg (uint s) mod 2 ^ 48"
proof -
  have "seed_mask = mask 48" by (simp add: seed_mask_def mask_eq_exp_minus_1 push_bit_eq_mult)
  then have "next_seed s = take_bit 48 (s * multiplier + addend)" by (simp add: next_seed_def take_bit_eq_mask)
  then have "uint (next_seed s) = take_bit 48 (uint (s * multiplier + addend))" by (simp add: unsigned_take_bit_eq)
  also have "uint (s * multiplier + addend) = take_bit 64 (lcg (uint s))"
    by (simp add: uint_word_ariths lcg_def multiplier_def addend_def take_bit_eq_mod mod_simps ac_simps)
  also have "take_bit 48 (take_bit 64 (lcg (uint s))) = lcg (uint s) mod 2 ^ 48" by (simp add: take_bit_eq_mod [of 48])
  finally show ?thesis .
qed

lemma lcg_mod: "lcg (x mod 2 ^ m) mod 2 ^ m = lcg x mod 2 ^ m"
  unfolding lcg_def by (metis mod_add_left_eq mod_mult_right_eq)

lemma next_seed_power: "uint ((next_seed ^^ k) s) mod 2 ^ 48 = (lcg ^^ k) (uint s) mod 2 ^ 48"
proof (induction k)
  case (Suc k)
  have "uint ((next_seed ^^ Suc k) s) mod 2 ^ 48 = lcg (uint ((next_seed ^^ k) s) mod 2 ^ 48) mod 2 ^ 48"
    by (simp only: funpow.simps o_apply next_seed_int lcg_mod mod_mod_trivial)
  also have "\<dots> = (lcg ^^ Suc k) (uint s) mod 2 ^ 48" by (simp only: Suc.IH lcg_mod funpow.simps o_apply)
  finally show ?case .
qed simp

lemma lcg_affine: "(lcg ^^ k) x = 25214903917 ^ k * x + (lcg ^^ k) 0"
proof (induction k)
  case (Suc k)
  have step: "(lcg ^^ Suc k) y = 25214903917 * (lcg ^^ k) y + 11" for y unfolding funpow.simps o_apply by (rule lcg_def)
  show ?case unfolding step Suc.IH by (simp add: algebra_simps)
qed simp

text \<open>After \<open>2^m\<close> steps the \<open>m\<close> low bits are back and the next bit has changed.\<close>

lemma lcg_doubling: "\<exists>u v. (25214903917 :: int) ^ (2 ^ m) = 1 + 2 ^ (m + 2) * u \<and> (lcg ^^ (2 ^ m)) 0 = 2 ^ m * (2 * v + 1)"
proof (induction m)
  case 0
  have "(25214903917 :: int) = 1 + 4 * 6303725979" "lcg 0 = 2 * 5 + 1" by (simp_all add: lcg_def)
  then show ?case by (intro exI [of _ 6303725979] exI [of _ 5]) (simp add: lcg_def)
next
  case (Suc m)
  then obtain u v where A: "(25214903917 :: int) ^ (2 ^ m) = 1 + 2 ^ (m + 2) * u" and C: "(lcg ^^ (2 ^ m)) 0 = 2 ^ m * (2 * v + 1)" by blast
  let ?A = "25214903917 ^ (2 ^ m) :: int" and ?C = "(lcg ^^ (2 ^ m)) 0"
  have "(25214903917 :: int) ^ (2 ^ Suc m) = ?A * ?A" by (simp add: mult_2 power_add)
  also have "\<dots> = 1 + 2 ^ (Suc m + 2) * (u + 2 ^ (m + 1) * u * u)"
    unfolding A by (simp add: algebra_simps power_add power2_eq_square)
  finally have A': "(25214903917 :: int) ^ (2 ^ Suc m) = 1 + 2 ^ (Suc m + 2) * (u + 2 ^ (m + 1) * u * u)" .
  have "(lcg ^^ (2 ^ Suc m)) 0 = (lcg ^^ (2 ^ m)) ((lcg ^^ (2 ^ m)) 0)" by (simp add: mult_2 funpow_add)
  also have "\<dots> = ?A * ?C + ?C" by (rule lcg_affine)
  also have "\<dots> = 2 ^ Suc m * (2 * (v + 2 ^ m * u * (2 * v + 1)) + 1)" unfolding A C by (simp add: algebra_simps power_add)
  finally show ?case using A' by blast
qed

lemma lcg_flips_bit: "((lcg ^^ (2 ^ m)) x) mod 2 ^ Suc m = (x + 2 ^ m) mod 2 ^ Suc m"
proof -
  obtain u v where A: "(25214903917 :: int) ^ (2 ^ m) = 1 + 2 ^ (m + 2) * u" and C: "(lcg ^^ (2 ^ m)) 0 = 2 ^ m * (2 * v + 1)"
    using lcg_doubling by blast
  have "(lcg ^^ (2 ^ m)) x = (x + 2 ^ m) + 2 ^ Suc m * (2 * u * x + v)"
    unfolding lcg_affine [of "2 ^ m" x] A C by (simp add: algebra_simps power_add)
  then show ?thesis by simp
qed

lemma lcg_reaches: "\<exists>k. ((lcg ^^ k) x) mod 2 ^ m = y mod 2 ^ m"
proof (induction m)
  case (Suc m)
  then obtain k where k: "((lcg ^^ k) x) mod 2 ^ m = y mod 2 ^ m" by blast
  let ?z = "(lcg ^^ k) x"
  have "?z mod 2 ^ Suc m = y mod 2 ^ Suc m \<or> (?z + 2 ^ m) mod 2 ^ Suc m = y mod 2 ^ Suc m"
  proof -
    from k have "2 ^ m dvd y - ?z" by (simp add: mod_eq_dvd_iff [symmetric])
    then obtain q where q: "y = ?z + 2 ^ m * q" by (auto simp: dvd_def algebra_simps)
    show ?thesis
    proof (cases "even q")
      case True
      then obtain q' where "q = 2 * q'" by blast
      then have "y = ?z + 2 ^ Suc m * q'" using q by (simp add: algebra_simps)
      then show ?thesis by simp
    next
      case False
      then obtain q' where "q = 2 * q' + 1" by (metis oddE)
      then have "y = (?z + 2 ^ m) + 2 ^ Suc m * q'" using q by (simp add: algebra_simps)
      then show ?thesis by simp
    qed
  qed
  then show ?case
  proof
    assume "(?z + 2 ^ m) mod 2 ^ Suc m = y mod 2 ^ Suc m"
    then have "((lcg ^^ (2 ^ m + k)) x) mod 2 ^ Suc m = y mod 2 ^ Suc m" using lcg_flips_bit [of m ?z] by (simp add: funpow_add)
    then show ?thesis by blast
  qed blast
qed simp

lemma next_seed_bounds: "0 \<le> uint (next_seed s)" "uint (next_seed s) < 2 ^ 48"
  by (simp_all add: next_seed_int)

lemma seed_reaches:
  assumes "uint y < 2 ^ 48"
  shows "\<exists>k. (next_seed ^^ Suc k) s = y"
proof -
  obtain k where k: "((lcg ^^ k) (uint (next_seed s))) mod 2 ^ 48 = uint y mod 2 ^ 48" using lcg_reaches by blast
  let ?z = "(next_seed ^^ Suc k) s"
  have "uint ?z mod 2 ^ 48 = uint y mod 2 ^ 48"
    using next_seed_power [of k "next_seed s"] k by (simp only: funpow_Suc_right o_apply)
  moreover have "uint ?z mod 2 ^ 48 = uint ?z" using next_seed_bounds [of "(next_seed ^^ k) s"] by simp
  moreover have "uint y mod 2 ^ 48 = uint y" using assms by simp
  ultimately show ?thesis by (intro exI [of _ k]) (simp only: word_uint_eq_iff)
qed

section \<open>The numbers drawn\<close>

lemma small_bits_div: "small_bits bits s = (uint (next_seed s) div 2 ^ (48 - bits), next_seed s)"
proof -
  have "take_bit 64 (uint w) = uint w" for w :: seed using uint_lt2p [of w] by (simp add: take_bit_eq_mod)
  then have "uint (drop_bit n w) = drop_bit n (uint w)" for n and w :: seed by (simp add: unsigned_drop_bit_eq)
  then show ?thesis unfolding small_bits_def Let_def by (simp add: drop_bit_eq_div)
qed

lemma div_below:
  fixes x d n :: int
  assumes "0 < d" "x < n * d"
  shows "x div d < n"
proof -
  have "x div d * d \<le> x" using assms(1) by (simp add: minus_mod_eq_div_mult [symmetric])
  with assms(2) have "x div d * d < n * d" by linarith
  then show ?thesis using assms(1) by simp
qed

lemma small_bits_range:
  assumes "bits \<le> 48"
  shows "0 \<le> fst (small_bits bits s)" "fst (small_bits bits s) < 2 ^ bits"
proof -
  have "(2 :: int) ^ bits * 2 ^ (48 - bits) = 2 ^ 48" using assms by (simp only: power_add [symmetric]) simp
  then have less: "uint (next_seed s) < 2 ^ bits * 2 ^ (48 - bits)" using next_seed_bounds(2) [of s] by simp
  then show "fst (small_bits bits s) < 2 ^ bits" unfolding small_bits_div fst_conv by (rule div_below [rotated]) simp
  show "0 \<le> fst (small_bits bits s)" by (simp add: small_bits_div pos_imp_zdiv_nonneg_iff)
qed

lemma large_bits_sum:
  "large_bits version s =
     (uint (next_seed s) div 2 ^ 17 * 2 ^ 32 + uint (next_seed (next_seed s)) div 2 ^ (if version = 0 then 17 else 16), next_seed (next_seed s))"
proof -
  let ?low = "fst (small_bits (if version = 0 then 31 else 32) (next_seed s))"
  have low: "0 \<le> ?low" "?low < 2 ^ 32"
    using small_bits_range [of 31 "next_seed s"] small_bits_range [of 32 "next_seed s"] by (auto simp: less_le_trans)
  have xor: "push_bit 32 h XOR l = h * 2 ^ 32 + l" if "0 \<le> l" "l < 2 ^ 32" for h l :: int
  proof -
    have "take_bit 32 l = l" using that by (simp add: take_bit_eq_mod)
    then have "bit l n \<Longrightarrow> n < 32" for n by (metis bit_take_bit_iff)
    then have "push_bit 32 h AND l = 0" by (intro bit_eqI) (auto simp: bit_and_iff bit_push_bit_iff not_le [symmetric])
    then show ?thesis by (simp add: disjunctive_xor_eq_or disjunctive_add_eq_or [symmetric] push_bit_eq_mult)
  qed
  show ?thesis using xor [OF low, of "uint (next_seed s) div 2 ^ 17"]
    by (auto simp: large_bits_def small_bits_div split: if_splits)
qed

lemma reject_loop_returns:
  assumes "fst (draw (((snd \<circ> draw) ^^ k) s)) < limit"
  shows "\<exists>bits s' s0. reject_loop draw limit s = Some (bits, s') \<and> bits < limit \<and> draw s0 = (bits, s')"
  using assms
proof (induction k arbitrary: s)
  case 0
  then show ?case by (cases "draw s") (auto simp: reject_loop.simps)
next
  case (Suc k)
  obtain bits s' where d: "draw s = (bits, s')" by (cases "draw s")
  show ?case
  proof (cases "bits < limit")
    case True
    then show ?thesis using d by (auto simp: reject_loop.simps [of draw limit s])
  next
    case False
    have "fst (draw (((snd \<circ> draw) ^^ k) s')) < limit" using Suc.prems d by (metis comp_apply funpow_Suc_right snd_conv)
    from Suc.IH [OF this] show ?thesis using d False by (simp add: reject_loop.simps [of draw limit s])
  qed
qed

lemma limit_facts:
  fixes n m :: int
  assumes "0 < n" "n \<le> m"
  shows "m < 2 * (m div n * n)"
proof -
  have "m div n \<ge> 1" using assms by (simp add: pos_imp_zdiv_pos_iff int_one_le_iff_zero_less)
  then have "n \<le> m div n * n" using assms(1) by simp
  moreover have "m = m div n * n + m mod n" "m mod n < n" using assms(1) by simp_all
  ultimately show ?thesis by linarith
qed

lemma reject_small:
  assumes "0 < limit"
  shows "\<exists>bits s' s0. reject_loop (small_bits 31) limit s = Some (bits, s') \<and> bits < limit \<and> small_bits 31 s0 = (bits, s')"
proof -
  obtain k where k: "(next_seed ^^ Suc k) s = 0" using seed_reaches [of 0] by auto
  have "snd \<circ> small_bits 31 = next_seed" by (simp add: fun_eq_iff small_bits_div)
  then have "fst (small_bits 31 (((snd \<circ> small_bits 31) ^^ k) s)) = 0" using k by (simp add: small_bits_div)
  then show ?thesis using reject_loop_returns [of "small_bits 31" k s limit] assms by simp
qed

lemma reject_large:
  assumes "2 ^ 32 \<le> limit"
  shows "\<exists>bits s' s0. reject_loop (large_bits version) limit s = Some (bits, s') \<and> bits < limit \<and> large_bits version s0 = (bits, s')"
proof -
  have step: "snd \<circ> large_bits version = next_seed ^^ 2" by (simp add: fun_eq_iff large_bits_sum numeral_2_eq_2)
  have low: "uint (next_seed z) div 2 ^ (if version = 0 then 17 else 16) < 2 ^ 32" for z
    using small_bits_range(2) [of 31 z] small_bits_range(2) [of 32 z] by (simp add: small_bits_div)
  have small: "fst (large_bits version ((next_seed ^^ j) s)) < limit" if "uint ((next_seed ^^ Suc j) s) < 2 ^ 17" for j
    using that low [of "(next_seed ^^ Suc j) s"] assms next_seed_bounds(1) [of "(next_seed ^^ j) s"] by (simp add: large_bits_sum)
  obtain k where k: "(next_seed ^^ Suc k) s = 0" using seed_reaches [of 0] by auto
  then have k': "(next_seed ^^ Suc (Suc k)) s = 11" by (simp add: next_seed_def addend_def seed_mask_def)
  have "\<exists>j. uint ((next_seed ^^ Suc (2 * j)) s) < 2 ^ 17"
  proof (cases "even k")
    case True
    then obtain j where "k = 2 * j" by blast
    then have "uint ((next_seed ^^ Suc (2 * j)) s) < 2 ^ 17" using k by simp
    then show ?thesis by blast
  next
    case False
    then obtain j where "Suc k = 2 * j" by (metis even_Suc evenE)
    then have "uint ((next_seed ^^ Suc (2 * j)) s) < 2 ^ 17" using k' by simp
    then show ?thesis by blast
  qed
  then obtain j where "fst (large_bits version ((next_seed ^^ (2 * j)) s)) < limit" using small by blast
  then have "fst (large_bits version (((snd \<circ> large_bits version) ^^ j) s)) < limit" unfolding step by (simp add: funpow_mult mult.commute)
  then show ?thesis by (rule reject_loop_returns)
qed

lemma next_int_range:
  assumes "0 < n" "n \<le> INT_MAX"
  shows "\<exists>v s'. next_int n s = Some (Inr (v, s')) \<and> 0 \<le> v \<and> v < n"
proof (cases "n AND - n = n")
  case True
  let ?b = "fst (small_bits 31 s)"
  have b: "0 \<le> ?b" "?b < 2 ^ 31" using small_bits_range [of 31 s] by simp_all
  then have "n * ?b < n * 2 ^ 31" using assms by simp
  then have "drop_bit 31 (n * ?b) < n" unfolding drop_bit_eq_div by (rule div_below [rotated]) simp
  moreover have "0 \<le> drop_bit 31 (n * ?b)" using assms b by (simp add: drop_bit_eq_div pos_imp_zdiv_nonneg_iff)
  ultimately show ?thesis using True assms by (simp add: next_int_def case_prod_beta)
next
  case False
  have "0 < INT_MAX div n * n" using limit_facts [OF assms] by (simp add: INT_MAX_def)
  then show ?thesis using reject_small [of "INT_MAX div n * n" s] False assms by (auto simp: next_int_def)
qed

lemma next_long_range:
  assumes "0 < n" "n \<le> LLONG_MAX"
  shows "\<exists>v s'. next_long version n s = Some (Inr (v, s')) \<and> 0 \<le> v \<and> v < n"
proof -
  have "2 ^ 32 \<le> LLONG_MAX div n * n" using limit_facts [OF assms] by (simp add: LLONG_MAX_def)
  then show ?thesis using reject_large [of "LLONG_MAX div n * n" version s] assms by (auto simp: next_long_def)
qed

text \<open>
  C40. Every draw returns a number in the range asked for: \<open>next(n)\<close> for \<open>int\<close> and \<open>long long\<close> and \<open>next(from, to)\<close>
  for \<open>int\<close> end from every state of the generator, although they reject numbers in a loop, and their value
  lies in the range.
\<close>

theorem next_returns_in_range:
  "(0 < n \<and> n \<le> INT_MAX \<longrightarrow> (\<exists>v s'. next_int n s = Some (Inr (v, s')) \<and> 0 \<le> v \<and> v < n)) \<and>
   (0 < n \<and> n \<le> LLONG_MAX \<longrightarrow> (\<exists>v s'. next_long version n s = Some (Inr (v, s')) \<and> 0 \<le> v \<and> v < n)) \<and>
   (from \<le> to \<and> - INT_MAX - 1 \<le> from \<and> to \<le> INT_MAX \<longrightarrow>
     (\<exists>v s'. next_range_int version from to s = Some (Inr (v, s')) \<and> from \<le> v \<and> v \<le> to))"
proof (intro conjI impI)
  assume r: "from \<le> to \<and> - INT_MAX - 1 \<le> from \<and> to \<le> INT_MAX"
  then have "0 < to - from + 1" "to - from + 1 \<le> LLONG_MAX" by (auto simp: INT_MAX_def LLONG_MAX_def)
  from next_long_range [OF this] obtain v s' where "next_long version (to - from + 1) s = Some (Inr (v, s'))" "0 \<le> v" "v < to - from + 1"
    by blast
  then show "\<exists>v s'. next_range_int version from to s = Some (Inr (v, s')) \<and> from \<le> v \<and> v \<le> to"
    by (simp add: next_range_int_def add_to_def)
qed (use next_int_range next_long_range in blast)+

theorem next_returns_in_range_witness:
  "(\<exists>v s'. next_int 6 random_t = Some (Inr (v, s')) \<and> 0 \<le> v \<and> v < 6) \<and>
   (\<exists>v s'. next_long 1 6 random_t = Some (Inr (v, s')) \<and> 0 \<le> v \<and> v < 6) \<and>
   (\<exists>v s'. next_range_int 1 (- 5) 5 random_t = Some (Inr (v, s')) \<and> - 5 \<le> v \<and> v \<le> 5)"
  using next_returns_in_range [of 6 random_t 1 "- 5" 5] by (simp add: INT_MAX_def LLONG_MAX_def)

section \<open>Strings and permutations\<close>

fun bind_draw :: "'a checked option \<Rightarrow> ('a \<Rightarrow> 'b checked option) \<Rightarrow> 'b checked option" where
  "bind_draw None f = None"
| "bind_draw (Some (Inl code)) f = Some (Inl code)"
| "bind_draw (Some (Inr x)) f = f x"

lemma bind_draw_cong [fundef_cong]:
  "m = m' \<Longrightarrow> (\<And>x. m' = Some (Inr x) \<Longrightarrow> f x = g x) \<Longrightarrow> bind_draw m f = bind_draw m' g"
  by (cases "(m', g)" rule: bind_draw.cases) auto

fun gen_chars :: "nat \<Rightarrow> string \<Rightarrow> seed \<Rightarrow> string \<Rightarrow> (string \<times> seed) checked option" where
  "gen_chars 0 chars s result = Some (Inr (result, s))"
| "gen_chars (Suc k) chars s result =
     bind_draw (next_int (int (length chars)) s) (\<lambda>(j, s'). gen_chars k chars s' (result @ [chars ! nat j]))"

text \<open>\<open>pattern::next\<close>. The index drawn for a child is always one of the children; the model checks it.\<close>

function pattern_next :: "pattern \<Rightarrow> seed \<Rightarrow> (string \<times> seed) checked option" where
  "pattern_next (Pattern chars from to children) s =
     (if to = INT_MAX then Some testlib_fail
      else
        bind_draw
          (if to > 0 then bind_draw (next_int (wrap32 (to - from + 1)) s) (\<lambda>(c, s1). gen_chars (nat (c + from)) chars s1 [])
           else Some (Inr ([], s)))
          (\<lambda>(result, s2).
             if length children > 0 then
               bind_draw (next_int (int (length children)) s2) (\<lambda>(child, s3).
                 if nat child < length children then
                   map_option (map_sum id (\<lambda>(v, s4). (result @ v, s4))) (pattern_next (children ! nat child) s3)
                 else None)
             else Some (Inr (result, s2))))"
  by pat_completeness auto
termination
proof (relation "measure (\<lambda>(p, s). size p)", goal_cases)
  case (2 chars "from" "to" children s x result s2 xa child s3)
  then have "children ! nat child \<in> set children" by simp
  then have "size (children ! nat child) \<le> size_list size children" by (rule size_list_estimation') simp
  then show ?case by simp
qed simp

text \<open>\<open>shuffle\<close> swaps every element with one at or before its place.\<close>

fun shuffle_loop :: "nat list \<Rightarrow> 'a list \<Rightarrow> seed \<Rightarrow> ('a list \<times> seed) checked option" where
  "shuffle_loop [] xs s = Some (Inr (xs, s))"
| "shuffle_loop (i # is) xs s =
     bind_draw (next_int (int i + 1) s) (\<lambda>(j, s'). shuffle_loop is (xs[i := xs ! nat j, nat j := xs ! i]) s')"

definition testlib_shuffle :: "'a list \<Rightarrow> seed \<Rightarrow> ('a list \<times> seed) checked option" where
  "testlib_shuffle xs s = (if xs = [] then Some (Inr (xs, s)) else shuffle_loop [1..<length xs] xs s)"

declare pattern_next.simps [simp del]

lemma bind_draw_Inr: "m = Some (Inr x) \<Longrightarrow> bind_draw m f = f x"
  by simp

lemma gen_chars_returns:
  assumes "chars \<noteq> []" "int (length chars) \<le> INT_MAX"
  shows "\<exists>u s'. gen_chars k chars s result = Some (Inr (result @ u, s')) \<and> length u = k \<and> set u \<subseteq> set chars"
proof (induction k arbitrary: s result)
  case (Suc k)
  obtain j s1 where j: "next_int (int (length chars)) s = Some (Inr (j, s1))" "0 \<le> j" "j < int (length chars)"
    using next_int_range [of "int (length chars)" s] assms by auto
  obtain u s' where u: "gen_chars k chars s1 (result @ [chars ! nat j]) = Some (Inr ((result @ [chars ! nat j]) @ u, s'))"
      "length u = k" "set u \<subseteq> set chars" using Suc.IH by blast
  have "chars ! nat j \<in> set chars" using j by simp
  with u j(1) show ?case by (intro exI [of _ "chars ! nat j # u"] exI [of _ s']) simp
qed simp

text \<open>
  The patterns from which strings are generated: no unbounded repetition, a set with characters for every
  repetition, and numbers that fit their types.
\<close>

fun generatable :: "pattern \<Rightarrow> bool" where
  "generatable (Pattern chars from to children) \<longleftrightarrow>
     0 \<le> from \<and> from \<le> to \<and> to < INT_MAX \<and> (to > 0 \<longrightarrow> chars \<noteq> []) \<and>
     int (length chars) \<le> INT_MAX \<and> int (length children) \<le> INT_MAX \<and> list_all generatable children"

lemma pattern_next_returns:
  "generatable p \<Longrightarrow> \<exists>t s'. pattern_next p s = Some (Inr (t, s')) \<and> t \<in> pattern_lang p"
proof (induction p arbitrary: s)
  case (Pattern chars lo hi children)
  have g: "0 \<le> lo" "lo \<le> hi" "hi < INT_MAX" "hi > 0 \<Longrightarrow> chars \<noteq> []" "int (length chars) \<le> INT_MAX"
    "int (length children) \<le> INT_MAX" "\<forall>c \<in> set children. generatable c"
    using Pattern.prems by (auto simp: list_all_iff)
  define front where "front = (if hi > 0 then bind_draw (next_int (wrap32 (hi - lo + 1)) s) (\<lambda>(c, s1). gen_chars (nat (c + lo)) chars s1 [])
      else Some (Inr ([], s)))"
  have "\<exists>u s2. front = Some (Inr (u, s2)) \<and> repeats chars lo hi u"
  proof (cases "hi > 0")
    case True
    have w: "wrap32 (hi - lo + 1) = hi - lo + 1" using g(1-3) by (intro wrap32_id) (simp_all add: INT_MAX_def)
    obtain c s1 where c: "next_int (hi - lo + 1) s = Some (Inr (c, s1))" "0 \<le> c" "c < hi - lo + 1"
      using next_int_range [of "hi - lo + 1" s] g(1-3) by auto
    obtain u s2 where u: "gen_chars (nat (c + lo)) chars s1 [] = Some (Inr ([] @ u, s2))" "length u = nat (c + lo)" "set u \<subseteq> set chars"
      using gen_chars_returns [OF g(4) [OF True] g(5)] by blast
    have "front = Some (Inr (u, s2))" using True w c(1) u(1) by (simp add: front_def)
    moreover have "repeats chars lo hi u" using True u(2,3) c(2,3) g(1) by (simp add: repeats_def)
    ultimately show ?thesis by blast
  next
    case False
    then show ?thesis by (simp add: front_def repeats_def)
  qed
  then obtain u s2 where u: "front = Some (Inr (u, s2))" "repeats chars lo hi u" by blast
  have step: "pattern_next (Pattern chars lo hi children) s =
      (if length children > 0 then
         bind_draw (next_int (int (length children)) s2) (\<lambda>(child, s3).
           if nat child < length children then
             map_option (map_sum id (\<lambda>(v, s4). (u @ v, s4))) (pattern_next (children ! nat child) s3)
           else None)
       else Some (Inr (u, s2)))"
    using g(3) u(1) unfolding front_def by (simp add: pattern_next.simps)
  show ?case
  proof (cases "children = []")
    case True
    then show ?thesis using step u(2) by (auto simp: pattern_lang.simps)
  next
    case False
    obtain j s3 where j: "next_int (int (length children)) s2 = Some (Inr (j, s3))" "0 \<le> j" "j < int (length children)"
      using next_int_range [of "int (length children)" s2] g(6) False by auto
    let ?c = "children ! nat j"
    have c: "?c \<in> set children" "nat j < length children" using j by simp_all
    then obtain v s4 where v: "pattern_next ?c s3 = Some (Inr (v, s4))" "v \<in> pattern_lang ?c" using Pattern.IH g(7) by blast
    have "pattern_next (Pattern chars lo hi children) s = Some (Inr (u @ v, s4))" using step False j(1) c(2) v(1) by simp
    moreover have "u @ v \<in> pattern_lang (Pattern chars lo hi children)" using u(2) v(2) c(1) False by (auto simp: pattern_lang.simps)
    ultimately show ?thesis by blast
  qed
qed



lemma swap_mset:
  assumes "i < length xs" "j < length xs"
  shows "mset (xs[i := xs ! j, j := xs ! i]) = mset xs"
  using assms by (simp add: mset_swap)

text \<open>\<open>shuffle\<close> ends and gives a permutation.\<close>

theorem shuffle_permutes:
  assumes "int (length xs) \<le> INT_MAX"
  shows "\<exists>ys s'. testlib_shuffle xs s = Some (Inr (ys, s')) \<and> mset ys = mset xs"
proof -
  have "\<exists>ys s'. shuffle_loop is zs s = Some (Inr (ys, s')) \<and> mset ys = mset zs"
    if "\<forall>i \<in> set is. i < length zs" "int (length zs) \<le> INT_MAX" for "is" and zs :: "'a list" and s
    using that
  proof (induction "is" arbitrary: zs s)
    case (Cons i "is")
    obtain j s1 where j: "next_int (int i + 1) s = Some (Inr (j, s1))" "0 \<le> j" "j < int i + 1"
      using next_int_range [of "int i + 1" s] Cons.prems by fastforce
    let ?zs = "zs[i := zs ! nat j, nat j := zs ! i]"
    have "i < length zs" "nat j < length zs" using Cons.prems(1) j by auto
    then have m: "mset ?zs = mset zs" by (rule swap_mset)
    obtain ys s' where "shuffle_loop is ?zs s1 = Some (Inr (ys, s'))" "mset ys = mset ?zs" using Cons.IH [of ?zs s1] Cons.prems by auto
    then show ?case using j(1) m by simp
  qed simp
  from this [of "[1..<length xs]" xs s] assms show ?thesis by (auto simp: testlib_shuffle_def)
qed

end
