(* ===== verification/Spec2Isabelle.thy ===== *)
theory Spec2Isabelle
  imports
    VerdictReducer
    JudgeWorkerPool
    ServiceProps
    ServerSafety
    CaseCheckers
    HugeCheckers
    DoubleCheckers
    ExternalSjudge
    Logger
    ResultType
    MiniJudger
    TestlibRandom
begin

text \<open>
  Verification of the online-judge server of this repository: a server that accepts program
  submissions over TCP, compiles them, runs them on test cases in a sandbox and reports verdicts.
  Paths below are relative to \<open>src/\<close> of the repository's tree.

  \<^bold>\<open>How the program works.\<close> The select thread (\<open>src/network\<close>, \<open>src/main.cpp\<close>) accepts connections,
  reassembles framed JSON messages and decodes them (\<open>src/protocol\<close>, \<open>src/json.hpp\<close>). A submission
  is filed in the result store (\<open>src/pipeline/ResultStore.cpp\<close>) and pushed to a queue
  (\<open>src/dispatch\<close>); worker threads take tasks from it and run the judging pipeline
  (\<open>src/pipeline/SubmissionService.cpp\<close>): prepare, compile, run every case with a language runner
  (\<open>src/runner\<close>), which calls the sandbox (\<open>sjudge\<close>) and compares outputs, possibly with an installed
  checker (\<open>checker/src\<close>). Results go back through the connection manager to the session that
  submitted, deferred behind the acknowledgement by a barrier.

  \<^bold>\<open>Theories and what they model.\<close>
  \<^item> \<open>Prelude\<close>: C++ integer conversions, \<open>std::to_string\<close> and digit strings, lines, lemma collections.
  \<^item> \<open>Doubles\<close>: rounding to double precision and the decimal texts of \<open>strtod\<close>; rounding is monotone and
    its relative error is bounded.
  \<^item> \<open>SubmissionTypes\<close>, \<open>Config\<close>: \<open>src/common\<close>; enumerations and structures, the configuration and
    every getter with its default.
  \<^item> \<open>Json\<close>, \<open>JsonDump\<close>, \<open>JsonLexer\<close>, \<open>JsonParser\<close>: the vendored JSON library as the server calls it:
    values, member access and typed reads, the serializer with its UTF-8 automaton, the lexer and
    the parser. \<open>JsonRoundtrip\<close> shows that the parser reads back what the serializer writes,
    \<open>JsonUtf8\<close> that both accept exactly UTF-8.
  \<^item> \<open>JudgeProtocol\<close>: \<open>src/protocol\<close>, decoding and encoding of every message; \<open>ProtocolWire\<close> joins it
    to the JSON library: requests and results survive the bytes on the wire, and a response can be
    sent exactly when its message is UTF-8.
  \<^item> \<open>ResultStore\<close>: every operation of the store; histories of operations never move a status back,
    keep the invariant, evict the oldest finished results first and meet the capacity.
  \<^item> \<open>SubmissionQueue\<close>, \<open>JudgeWorkerPool\<close>: \<open>src/dispatch\<close>; the queue is a first-in-first-out queue
    along every interleaving, the pool processes each task once, and \<open>stop\<close> drains it.
  \<^item> \<open>VerdictReducer\<close>: \<open>src/pipeline/SubmissionVerdictReducer.cpp\<close>.
  \<^item> \<open>FileSystem\<close>, \<open>Runner\<close>, \<open>RunnerFacts\<close>: the runners on a modelled file system, with shell quoting
    and the built-in output comparison.
  \<^item> \<open>SubmissionService\<close>, \<open>ServiceFacts\<close>, \<open>ServiceProps\<close>: the pipeline with its exceptions; it refines
    an abstract script of stored statuses, always reaches a terminal status when the judged programs
    are stopped by their time limit, and leaves no work directory behind.
  \<^item> \<open>JudgeTypes\<close>, \<open>ChildSetup\<close>, \<open>ParentMonitor\<close>, \<open>Sjudger\<close>: \<open>sjudge\<close>; the child's system calls as a
    trace against a kernel that may fail any of them, the parent's polling loop, and the mapping of
    what it saw to a judge code. \<open>ExternalSjudge\<close> is \<open>sjudge/ExternalSjudgeCompat.cpp\<close>, the command line and
    the report of an external judge; \<open>MiniJudger\<close> is the tutorial's judger, which measures what the
    monitor of the sandbox measures.
  \<^item> \<open>Buffer\<close>, \<open>ConnectionSlot\<close>, \<open>ConnectionRegistry\<close>, \<open>ReplyChannel\<close>, \<open>AckBarrier\<close>, \<open>ClientSockets\<close>,
    \<open>TcpServer\<close>, with \<open>NetworkProps\<close> and \<open>ServerSafety\<close>: \<open>src/network\<close> and \<open>src/main.cpp\<close>; framing,
    output queues, slots, sessions, every handler and the select loop.
  \<^item> \<open>Testlib\<close>, \<open>Checkers\<close>: the reader of \<open>checker/src/testlib.h\<close> and the checkers on it as functions
    from the two files to the exit code; \<open>LineCheckers\<close>, \<open>WordCheckers\<close>, \<open>IntegerTokens\<close>,
    \<open>IntegerCheckers\<close> and \<open>CaseCheckers\<close> show what each of them decides. \<open>TestlibPattern\<close> has testlib's
    patterns and the languages they denote, \<open>HugeCheckers\<close> the checker on huge integers that uses them;
    \<open>DoubleTokens\<close> and \<open>DoubleCheckers\<close> have the reading of real numbers and the checkers on them, with
    exact margins in spite of rounding. \<open>TestlibRandom\<close> has the random numbers, strings and permutations.
  \<^item> \<open>Logger\<close>, \<open>ResultType\<close>: \<open>src/common/Logger.cpp\<close>, \<open>Timestamp.cpp\<close> and \<open>Result.h\<close>; the lines of concurrent
    log macros, and the chaining of results.

  \<^bold>\<open>Interfaces.\<close> The contracts between components are locales, interpreted where the provider is
  defined: \<open>receive_buffer\<close> (a byte queue, on the index arithmetic of \<open>Buffer\<close>), \<open>slot_allocator\<close> (on
  \<open>ConnectionRegistry\<close>), \<open>closable_queue\<close> (on \<open>SubmissionQueue\<close>), \<open>snapshot_store\<close> (on \<open>ResultStore\<close>),
  \<open>language_runner\<close> (on both runners), \<open>item_reader\<close> (on the two item types of the case checkers) and
  \<open>comparison\<close> (on the tolerances of the checkers on real numbers).

  \<^bold>\<open>State, concurrency and time.\<close> A method that holds a mutex is one step. Where the code releases a
  lock in the middle of a handler, the model has a parameter for what the other threads do there:
  worker deliveries in \<open>ClientSockets\<close>, store operations of others in \<open>SubmissionService\<close>. Worker
  threads are a step relation over the shared queue, log macros are interleaved accesses. Clocks, descriptors and system call results are
  functions of a counter.

  \<^bold>\<open>Parameters.\<close> Code that is not in the repository is an argument: the kernel's answers, the
  compiler and interpreter (\<open>env_system\<close>, \<open>env_popen\<close>), the external judge behind
  \<open>popen\<close>, \<open>localtime\<close>, the formatting of \<open>double\<close> values. The JSON
  parser is an argument of \<open>Config\<close>, \<open>JudgeProtocol\<close> and \<open>ClientSockets\<close>, so that their lemmas hold
  for every parser; \<open>ProtocolWire\<close> instantiates it with \<open>json_parse\<close>.

  \<^bold>\<open>Loops and bounds.\<close> No fuel is used. Loops that may not end (the monitor's polling, the write loop,
  the checkers' readers, the rejection of random numbers) are \<open>partial_function (option)\<close> with None for not returning, and the
  properties prove when they return; \<open>fcmp2\<close> does not always, the rejection loops do because the
  generator visits all its states. Every other recursion is total with its
  measure. Machine integers keep their width: limits are words, submission identifiers wrap at 32
  bits, session identifiers at 64; properties that need counters short of their ends say so.

  \<^bold>\<open>Modelling decisions.\<close> \<open>std::sort\<close> by finish time is a stable sort, one of the orders the standard
  allows; counters of the checkers that only number messages are unbounded; the push-back area of
  testlib's reader is not bounded at its 100 characters, of which the modelled checkers use few;
  a \<open>double\<close> is the rational it denotes, so that negative zero is zero, and \<open>sscanf\<close> reads a number as the
  C standard has it (a number cut off in its exponent is no match); where an expression draws two random
  numbers the left one comes first; calls of the log macros and message texts that no decision depends
  on are left out of the components.

  \<^bold>\<open>Not modelled.\<close> Of \<open>src/json.hpp\<close> everything the server does not call (binary formats, pointers and
  patches, iterators, callbacks, comments); of \<open>testlib.h\<close> the weighted and floating-point random numbers,
  which rest on \<open>pow\<close>, validators, strict doubles, interactors and message formatting, none of which a
  checker of the repository uses for its verdict; the first five tutorial programs under
  \<open>sjudge/demo_code_for_tutorial\<close>, whose steps the sixth puts together, and the sixth's mode that only
  allocates memory; \<open>src/common/Types.h\<close>, structures of an older pipeline that no code uses, and
  \<open>noncopyable.h\<close>, which has no behaviour.
\<close>

end
